(* ===== verification/Hemlock_Prelude.thy ===== *)
theory Hemlock_Prelude
  imports
    Main
    "HOL-Library.Word"
    "HOL-Library.Char_ord"
    "HOL-Library.List_Lexorder"
    "HOL-Library.Product_Lexorder"
begin

text \<open>
  Shared vocabulary of the development: Rust's machine integers, the parts of
  Rust's standard library the sources use (decimal printing and parsing,
  \<open>split_once\<close>, big-endian byte encodings, \<open>BTreeMap\<close>, instants and durations) and
  the interfaces the components are stated against.

  Conventions. A Rust \<open>String\<close> is a \<open>string\<close> whose characters are the
  Unicode scalar values up to U+00FF (HOL's \<open>char\<close> has 256 values); on those the
  code-point order of HOL's lexicographic list order is Rust's byte order of the UTF-8
  encoding. \<open>Instant\<close> and \<open>Duration\<close> count nanoseconds in \<open>nat\<close>, where the
  truncated subtraction is \<open>saturating_duration_since\<close>. Unsigned integers are words:
  \<open>+\<close> wraps, as in the release profile the workspace ships.
\<close>

unbundle bit_operations_syntax

section \<open>Collections of facts\<close>

named_theorems bt_simps \<open>rewrite rules of the ordered-map model\<close>
named_theorems frame_simps \<open>fields an operation leaves alone\<close>

section \<open>Types\<close>

type_synonym u8 = "8 word"
type_synonym u16 = "16 word"
type_synonym u32 = "32 word"
type_synonym u64 = "64 word"
type_synonym bytes = "u8 list"
type_synonym mac = "u8 list"
type_synonym instant = nat
type_synonym duration = nat

definition from_secs :: "nat \<Rightarrow> duration" where
  "from_secs s = s * 1000000000"

definition as_secs :: "duration \<Rightarrow> nat" where
  "as_secs d = d div 1000000000"

lemma as_secs_from_secs [simp]: "as_secs (from_secs s) = s"
  by (simp add: as_secs_def from_secs_def)

abbreviation (input) since :: "instant \<Rightarrow> instant \<Rightarrow> duration" where
  "since now at \<equiv> now - at"

section \<open>Characters and strings\<close>

definition code :: "char \<Rightarrow> nat" where
  "code c = of_char c"

definition is_digit :: "char \<Rightarrow> bool" where
  "is_digit c \<longleftrightarrow> 48 \<le> code c \<and> code c \<le> 57"

definition is_lower :: "char \<Rightarrow> bool" where
  "is_lower c \<longleftrightarrow> 97 \<le> code c \<and> code c \<le> 122"

definition is_upper :: "char \<Rightarrow> bool" where
  "is_upper c \<longleftrightarrow> 65 \<le> code c \<and> code c \<le> 90"

definition is_alphanumeric :: "char \<Rightarrow> bool" where
  "is_alphanumeric c \<longleftrightarrow> is_digit c \<or> is_lower c \<or> is_upper c"

definition is_hexdigit :: "char \<Rightarrow> bool" where
  "is_hexdigit c \<longleftrightarrow> is_digit c \<or> (97 \<le> code c \<and> code c \<le> 102) \<or> (65 \<le> code c \<and> code c \<le> 70)"

definition to_lower :: "char \<Rightarrow> char" where
  "to_lower c = (if is_upper c then char_of (code c + 32) else c)"

definition digit_char :: "nat \<Rightarrow> char" where
  "digit_char d = char_of (48 + d)"

definition digit_val :: "char \<Rightarrow> nat" where
  "digit_val c = code c - 48"

definition hex_digit :: "nat \<Rightarrow> char" where
  "hex_digit d = (if d < 10 then char_of (48 + d) else char_of (87 + d))"

definition hex_val :: "char \<Rightarrow> nat" where
  "hex_val c = (if is_digit c then code c - 48 else if is_lower c then code c - 87 else code c - 55)"

lemma code_less_256 [simp]: "code c < 256"
  by (simp add: code_def)

lemma code_digit_char [simp]: "d < 10 \<Longrightarrow> code (digit_char d) = 48 + d"
  by (simp add: code_def digit_char_def)

lemma is_digit_digit_char [simp]: "d < 10 \<Longrightarrow> is_digit (digit_char d)"
  by (simp add: is_digit_def)

lemma digit_val_digit_char [simp]: "d < 10 \<Longrightarrow> digit_val (digit_char d) = d"
  by (simp add: digit_val_def)

lemma hex_digit_props [simp]:
  "d < 16 \<Longrightarrow> is_hexdigit (hex_digit d)" "d < 16 \<Longrightarrow> hex_val (hex_digit d) = d"
  by (auto simp: hex_digit_def hex_val_def is_hexdigit_def is_digit_def is_lower_def code_def)

lemma hex_digit_lower [simp]: "d < 16 \<Longrightarrow> \<not> is_upper (hex_digit d)"
  by (auto simp: hex_digit_def is_upper_def code_def)

lemma is_digit_hexdigit: "is_digit c \<Longrightarrow> is_hexdigit c"
  by (simp add: is_hexdigit_def)

text \<open>\<open>str::split_once(c)\<close>: the parts before and after the first \<open>c\<close>.\<close>

fun split_once :: "char \<Rightarrow> string \<Rightarrow> (string \<times> string) option" where
  "split_once c [] = None"
| "split_once c (x # xs) =
     (if x = c then Some ([], xs)
      else case split_once c xs of None \<Rightarrow> None | Some (a, b) \<Rightarrow> Some (x # a, b))"

text \<open>\<open>str::split(c)\<close>: all pieces, at least one.\<close>

fun split_on :: "char \<Rightarrow> string \<Rightarrow> string list" where
  "split_on c [] = [[]]"
| "split_on c (x # xs) =
     (if x = c then [] # split_on c xs
      else case split_on c xs of [] \<Rightarrow> [[x]] | p # ps \<Rightarrow> (x # p) # ps)"

text \<open>\<open>[T]::join(c)\<close> for a one-character separator.\<close>

fun join_with :: "char \<Rightarrow> string list \<Rightarrow> string" where
  "join_with c [] = []"
| "join_with c [p] = p"
| "join_with c (p # q # ps) = p @ c # join_with c (q # ps)"

text \<open>What follows the first piece of a joined text.\<close>

definition sep_tail :: "char \<Rightarrow> string list \<Rightarrow> string" where
  "sep_tail c ps = (if ps = [] then [] else c # join_with c ps)"

lemma join_with_Cons: "join_with c (p # ps) = p @ sep_tail c ps"
  by (cases ps) (simp_all add: sep_tail_def)

lemma sep_tail_Nil [simp]: "sep_tail c [] = []"
  by (simp add: sep_tail_def)

lemma sep_tail_Cons: "sep_tail c (p # ps) = c # p @ sep_tail c ps"
  by (simp add: sep_tail_def [of c "p # ps"] join_with_Cons)

lemma split_once_None_iff: "split_once c xs = None \<longleftrightarrow> c \<notin> set xs"
  by (induction xs) (auto split: option.splits)

lemma split_once_append: "c \<notin> set a \<Longrightarrow> split_once c (a @ c # b) = Some (a, b)"
  by (induction a) auto

lemma split_once_Some: "split_once c xs = Some (a, b) \<Longrightarrow> xs = a @ c # b \<and> c \<notin> set a"
  by (induction xs arbitrary: a) (auto split: if_splits option.splits)

lemma split_on_not_Nil [simp]: "split_on c xs \<noteq> []"
  by (induction xs) (auto split: list.splits)

lemma split_on_no_sep: "c \<notin> set p \<Longrightarrow> split_on c p = [p]"
  by (induction p) auto

lemma split_on_append: "c \<notin> set p \<Longrightarrow> split_on c (p @ c # rest) = p # split_on c rest"
  by (induction p) auto

lemma split_on_join:
  "ps \<noteq> [] \<Longrightarrow> (\<And>p. p \<in> set ps \<Longrightarrow> c \<notin> set p) \<Longrightarrow> split_on c (join_with c ps) = ps"
  by (induction c ps rule: join_with.induct) (auto simp: split_on_no_sep split_on_append)

section \<open>Decimal numbers\<close>

text \<open>\<open>to_string\<close> of an unsigned integer.\<close>

fun show_nat :: "nat \<Rightarrow> string" where
  "show_nat n = (if n < 10 then [digit_char n] else show_nat (n div 10) @ [digit_char (n mod 10)])"

declare show_nat.simps [simp del]

text \<open>The digits of a decimal number, most significant first.\<close>

fun dec_acc :: "nat \<Rightarrow> string \<Rightarrow> nat option" where
  "dec_acc n [] = Some n"
| "dec_acc n (c # cs) = (if is_digit c then dec_acc (10 * n + digit_val c) cs else None)"

text \<open>
  \<open>str::parse::<uN>()\<close> with \<open>bound = 2 ^ N\<close>: an optional leading \<open>+\<close>, then at least
  one digit and nothing else; a value that does not fit is an error.
\<close>

definition parse_uint :: "nat \<Rightarrow> string \<Rightarrow> nat option" where
  "parse_uint bound s =
     (let ds = (case s of [] \<Rightarrow> [] | c # cs \<Rightarrow> if c = CHR ''+'' then cs else s) in
      if ds = [] then None
      else case dec_acc 0 ds of
             None \<Rightarrow> None
           | Some n \<Rightarrow> if n < bound then Some n else None)"

lemma dec_acc_append:
  "dec_acc n (xs @ ys) = (case dec_acc n xs of None \<Rightarrow> None | Some m \<Rightarrow> dec_acc m ys)"
  by (induction n xs rule: dec_acc.induct) auto

lemma show_nat_not_Nil [simp]: "show_nat n \<noteq> []"
  by (subst show_nat.simps) simp

lemma show_nat_digits: "c \<in> set (show_nat n) \<Longrightarrow> is_digit c"
proof (induction n rule: show_nat.induct)
  case (1 n)
  show ?case
  proof (cases "n < 10")
    case True
    with 1 show ?thesis by (simp add: show_nat.simps [of n])
  next
    case False
    with 1 show ?thesis by (auto simp: show_nat.simps [of n])
  qed
qed

lemma dec_acc_show_nat: "dec_acc 0 (show_nat n) = Some n"
proof (induction n rule: show_nat.induct)
  case (1 n)
  show ?case
  proof (cases "n < 10")
    case True
    then show ?thesis by (simp add: show_nat.simps [of n])
  next
    case False
    with 1 show ?thesis by (simp add: show_nat.simps [of n] dec_acc_append)
  qed
qed

lemma plus_not_digit [simp]: "\<not> is_digit (CHR ''+'')"
  by (simp add: is_digit_def code_def)

lemma hd_show_nat_digit: "is_digit (hd (show_nat n))"
  by (rule show_nat_digits [of _ n]) simp

lemma parse_uint_show_nat: "n < bound \<Longrightarrow> parse_uint bound (show_nat n) = Some n"
  using hd_show_nat_digit [of n] dec_acc_show_nat [of n]
  by (cases "show_nat n") (auto simp: parse_uint_def Let_def)

lemma parse_uint_bound: "parse_uint bound s = Some n \<Longrightarrow> n < bound"
  by (auto simp: parse_uint_def Let_def split: if_splits option.splits)

lemma show_nat_no_char: "\<not> is_digit c \<Longrightarrow> c \<notin> set (show_nat n)"
  using show_nat_digits by blast

text \<open>Evaluation of decimal text on literals.\<close>

lemma digit_char_eval:
  "digit_char 0 = CHR ''0''" "digit_char (Suc 0) = CHR ''1''" "digit_char 2 = CHR ''2''" "digit_char 3 = CHR ''3''"
  "digit_char 4 = CHR ''4''" "digit_char 5 = CHR ''5''" "digit_char 6 = CHR ''6''" "digit_char 7 = CHR ''7''"
  "digit_char 8 = CHR ''8''" "digit_char 9 = CHR ''9''"
  by code_simp+

lemmas text_eval = is_digit_def digit_val_def code_def parse_uint_def Let_def show_nat.simps digit_char_eval

section \<open>Positional numbers and big-endian bytes\<close>

text \<open>The \<open>k\<close> low digits of a number in base \<open>b\<close>, most significant first, and back.\<close>

fun digits_be :: "nat \<Rightarrow> nat \<Rightarrow> nat \<Rightarrow> nat list" where
  "digits_be b 0 n = []"
| "digits_be b (Suc k) n = digits_be b k (n div b) @ [n mod b]"

definition undigits :: "nat \<Rightarrow> nat list \<Rightarrow> nat" where
  "undigits b ds = foldl (\<lambda>a d. a * b + d) 0 ds"

lemma length_digits_be [simp]: "length (digits_be b k n) = k"
  by (induction k arbitrary: n) auto

lemma digits_be_less: "0 < b \<Longrightarrow> d \<in> set (digits_be b k n) \<Longrightarrow> d < b"
  by (induction k arbitrary: n) auto

lemma undigits_snoc [simp]: "undigits b (ds @ [d]) = undigits b ds * b + d"
  by (simp add: undigits_def)

lemma undigits_Nil [simp]: "undigits b [] = 0"
  by (simp add: undigits_def)

lemma undigits_single [simp]: "undigits b [d] = d"
  by (simp add: undigits_def)

lemma undigits_digits_be: "undigits b (digits_be b k n) = n mod b ^ k"
proof (induction k arbitrary: n)
  case (Suc k)
  then show ?case by (simp add: mod_mult2_eq mult.commute)
qed simp

lemma digits_be_undigits:
  "(\<And>d. d \<in> set ds \<Longrightarrow> d < b) \<Longrightarrow> digits_be b (length ds) (undigits b ds) = ds"
proof (induction ds rule: rev_induct)
  case (snoc d ds)
  then have "d < b" by simp
  then have "(undigits b ds * b + d) div b = undigits b ds" by simp
  with snoc \<open>d < b\<close> show ?case by simp
qed simp

lemma undigits_less: "0 < b \<Longrightarrow> (\<And>d. d \<in> set ds \<Longrightarrow> d < b) \<Longrightarrow> undigits b ds < b ^ length ds"
  by (metis digits_be_undigits mod_less_divisor undigits_digits_be zero_less_power)

text \<open>\<open>to_be_bytes\<close> and \<open>from_be_bytes\<close> of an integer of \<open>k\<close> bytes.\<close>

definition to_be :: "nat \<Rightarrow> 'a::len word \<Rightarrow> bytes" where
  "to_be k w = map of_nat (digits_be 256 k (unat w))"

definition from_be :: "bytes \<Rightarrow> 'a::len word" where
  "from_be bs = of_nat (undigits 256 (map unat bs))"

lemma length_to_be [simp]: "length (to_be k w) = k"
  by (simp add: to_be_def)

lemma unat_of_nat_u8: "d < 256 \<Longrightarrow> unat (of_nat d :: u8) = d"
  by (simp add: unat_of_nat)

lemma map_unat_to_be: "map unat (to_be k w) = digits_be 256 k (unat w)"
  using digits_be_less [of 256 _ k "unat w"]
  by (auto simp: to_be_def unat_of_nat_u8 intro!: map_idI)

lemma from_be_to_be:
  fixes w :: "'a::len word"
  assumes "LENGTH('a) = 8 * k"
  shows "from_be (to_be k w) = w"
proof -
  have "unat w < 256 ^ k"
    using unsigned_less [of w, where ?'a = nat] assms by (simp add: power_mult)
  then show ?thesis by (simp add: from_be_def map_unat_to_be undigits_digits_be)
qed

lemma to_be_from_be:
  assumes "LENGTH('a::len) = 8 * length bs"
  shows "to_be (length bs) (from_be bs :: 'a word) = bs"
proof -
  have b: "unat x < 256" for x :: u8
    using unsigned_less [of x, where ?'a = nat] by simp
  have "undigits 256 (map unat bs) < 256 ^ length bs"
    using undigits_less [of 256 "map unat bs"] b by auto
  then have "unat (from_be bs :: 'a word) = undigits 256 (map unat bs)"
    using assms by (simp add: from_be_def unat_of_nat power_mult)
  moreover have "digits_be 256 (length bs) (undigits 256 (map unat bs)) = map unat bs"
    using digits_be_undigits [of "map unat bs" 256] b by auto
  ultimately show ?thesis by (simp add: to_be_def comp_def)
qed

section \<open>Ordered maps\<close>

lemma alist_rebuild:
  "distinct (map fst xs) \<Longrightarrow> map (\<lambda>k. (k, the (map_of xs k))) (map fst xs) = xs"
  by (auto simp: comp_def map_of_is_SomeI intro!: map_idI)

lemma alist_ext:
  assumes "sorted_wrt (<) (map fst xs)" and "sorted_wrt (<) (map fst (ys :: ('k::linorder \<times> 'v) list))"
    and "set xs = set ys"
  shows "xs = ys"
proof -
  have dist: "distinct (map fst xs)" "distinct (map fst ys)"
    and srt: "sorted (map fst xs)" "sorted (map fst ys)"
    using assms(1,2) by (simp_all add: strict_sorted_iff)
  have keys: "map fst xs = map fst ys"
    using sorted_distinct_set_unique [OF srt(1) dist(1) srt(2) dist(2)] assms(3)
    by (metis list.set_map)
  have "map_of xs = map_of ys"
    by (rule map_of_eqI) (use dist assms(3) in \<open>auto simp: map_of_eq_Some_iff\<close>)
  with keys show ?thesis
    using alist_rebuild [OF dist(1)] alist_rebuild [OF dist(2)] by metis
qed

text \<open>
  Keyed storage, as most of the sources use it: after a store, the key reads the stored value
  and no other key changes.
\<close>

locale key_store =
  fixes get :: "'m \<Rightarrow> 'k \<Rightarrow> 'v option"
    and insert :: "'k \<Rightarrow> 'v \<Rightarrow> 'm \<Rightarrow> 'm"
    and remove :: "'k \<Rightarrow> 'm \<Rightarrow> 'm"
  assumes get_insert: "get (insert k v m) k' = (if k' = k then Some v else get m k')"
    and get_remove: "get (remove k m) k' = (if k' = k then None else get m k')"
begin

lemma get_insert_twice: "get (insert k v (insert k v' m)) = get (insert k v m)"
  by (simp add: fun_eq_iff get_insert)

lemma get_insert_swap: "k \<noteq> k' \<Longrightarrow> get (insert k v (insert k' v' m)) = get (insert k' v' (insert k v m))"
  by (auto simp: fun_eq_iff get_insert)

lemma get_remove_insert: "get (remove k (insert k v m)) = get (remove k m)"
  by (simp add: fun_eq_iff get_insert get_remove)

text \<open>Collecting pairs into a map: the last pair of a key wins.\<close>

lemma get_collect:
  "get (fold (\<lambda>(k, v). insert k v) xs m) k =
     (case map_of (rev xs) k of None \<Rightarrow> get m k | Some v \<Rightarrow> Some v)"
proof (induction xs arbitrary: m)
  case Nil
  then show ?case by simp
next
  case (Cons p xs)
  then show ?case
    by (cases p) (auto simp: get_insert map_add_def split: option.splits)
qed

end

text \<open>
  The interface of \<open>BTreeMap\<close> as its clients use it: keyed storage with the in-order view
  \<open>entries\<close> that iteration walks.
\<close>

locale ordered_map = key_store get insert remove
  for get :: "'m \<Rightarrow> 'k::linorder \<Rightarrow> 'v option"
    and insert :: "'k \<Rightarrow> 'v \<Rightarrow> 'm \<Rightarrow> 'm"
    and remove :: "'k \<Rightarrow> 'm \<Rightarrow> 'm" +
  fixes empty :: "'m"
    and entries :: "'m \<Rightarrow> ('k \<times> 'v) list"
    and wf :: "'m \<Rightarrow> bool"
  assumes get_empty: "get empty k = None"
    and wf_empty: "wf empty"
    and wf_insert: "wf m \<Longrightarrow> wf (insert k v m)"
    and wf_remove: "wf m \<Longrightarrow> wf (remove k m)"
    and get_entries: "wf m \<Longrightarrow> get m k = Some v \<longleftrightarrow> (k, v) \<in> set (entries m)"
    and sorted_entries: "wf m \<Longrightarrow> sorted_wrt (<) (map fst (entries m))"
begin

text \<open>Two maps with the same look-ups list the same entries in the same order.\<close>

lemma entries_ext:
  assumes "wf m" and "wf m'" and "\<And>k. get m k = get m' k"
  shows "entries m = entries m'"
proof (rule alist_ext)
  show "set (entries m) = set (entries m')"
    using get_entries [OF assms(1)] get_entries [OF assms(2)] assms(3) by auto
qed (use assms(1,2) sorted_entries in auto)

lemma wf_collect: "wf m \<Longrightarrow> wf (fold (\<lambda>(k, v). insert k v) xs m)"
  by (induction xs arbitrary: m) (auto intro: wf_insert)

end

text \<open>
  \<open>BTreeMap<K, V>\<close> itself: an association list sorted by key. The operations keep the order,
  so that iterating the map is walking the list.
\<close>

type_synonym ('k, 'v) btree = "('k \<times> 'v) list"

abbreviation bt_get :: "('k, 'v) btree \<Rightarrow> 'k \<Rightarrow> 'v option" where
  "bt_get \<equiv> map_of"

definition bt_wf :: "('k::linorder, 'v) btree \<Rightarrow> bool" where
  "bt_wf m \<longleftrightarrow> sorted_wrt (<) (map fst m)"

fun bt_insert :: "'k::linorder \<Rightarrow> 'v \<Rightarrow> ('k, 'v) btree \<Rightarrow> ('k, 'v) btree" where
  "bt_insert k v [] = [(k, v)]"
| "bt_insert k v ((k', v') # m) =
     (if k < k' then (k, v) # (k', v') # m
      else if k = k' then (k, v) # m
      else (k', v') # bt_insert k v m)"

definition bt_remove :: "'k \<Rightarrow> ('k, 'v) btree \<Rightarrow> ('k, 'v) btree" where
  "bt_remove k m = filter (\<lambda>p. fst p \<noteq> k) m"

definition bt_retain :: "('k \<Rightarrow> 'v \<Rightarrow> bool) \<Rightarrow> ('k, 'v) btree \<Rightarrow> ('k, 'v) btree" where
  "bt_retain P m = filter (\<lambda>p. P (fst p) (snd p)) m"

text \<open>\<open>iter_mut\<close>: rewrite every value in place.\<close>

definition bt_map :: "('k \<Rightarrow> 'v \<Rightarrow> 'w) \<Rightarrow> ('k, 'v) btree \<Rightarrow> ('k, 'w) btree" where
  "bt_map f m = map (\<lambda>p. (fst p, f (fst p) (snd p))) m"

text \<open>\<open>get_mut\<close>: rewrite the value of one key, if it is there.\<close>

definition bt_update :: "'k \<Rightarrow> ('v \<Rightarrow> 'v) \<Rightarrow> ('k, 'v) btree \<Rightarrow> ('k, 'v) btree" where
  "bt_update k f m = bt_map (\<lambda>k' v. if k' = k then f v else v) m"

text \<open>\<open>entry(k).or_insert(v)\<close>.\<close>

definition bt_or_insert :: "'k::linorder \<Rightarrow> 'v \<Rightarrow> ('k, 'v) btree \<Rightarrow> ('k, 'v) btree" where
  "bt_or_insert k v m = (case bt_get m k of None \<Rightarrow> bt_insert k v m | Some _ \<Rightarrow> m)"

definition bt_contains :: "('k, 'v) btree \<Rightarrow> 'k \<Rightarrow> bool" where
  "bt_contains m k \<longleftrightarrow> bt_get m k \<noteq> None"

abbreviation bt_keys :: "('k, 'v) btree \<Rightarrow> 'k list" where
  "bt_keys m \<equiv> map fst m"

text \<open>\<open>collect()\<close> of pairs into a map.\<close>

definition bt_collect :: "('k::linorder \<times> 'v) list \<Rightarrow> ('k, 'v) btree" where
  "bt_collect xs = fold (\<lambda>(k, v). bt_insert k v) xs []"

lemma bt_get_insert [bt_simps]:
  "bt_get (bt_insert k v m) k' = (if k' = k then Some v else bt_get m k')"
  by (induction k v m rule: bt_insert.induct) auto

lemma bt_get_retain:
  "bt_wf m \<Longrightarrow> bt_get (bt_retain P m) k =
     (case bt_get m k of None \<Rightarrow> None | Some v \<Rightarrow> if P k v then Some v else None)"
proof (induction m)
  case Nil
  then show ?case by (simp add: bt_retain_def)
next
  case (Cons p m)
  obtain k' v' where p: "p = (k', v')" by force
  from Cons.prems have "bt_wf m" and "k' \<notin> fst ` set m"
    by (auto simp: bt_wf_def p)
  with Cons.IH show ?case
    by (auto simp: bt_retain_def p map_of_eq_None_iff split: option.splits)
qed

lemma bt_get_remove [bt_simps]:
  "bt_get (bt_remove k m) k' = (if k' = k then None else bt_get m k')"
  by (induction m) (auto simp: bt_remove_def)

lemma bt_get_map [bt_simps]: "bt_get (bt_map f m) k = map_option (f k) (bt_get m k)"
  by (induction m) (auto simp: bt_map_def)

lemma bt_get_update [bt_simps]:
  "bt_get (bt_update k f m) k' = (if k' = k then map_option f (bt_get m k') else bt_get m k')"
  by (cases "bt_get m k'") (auto simp: bt_update_def bt_get_map)

lemma bt_get_or_insert [bt_simps]:
  "bt_get (bt_or_insert k v m) k' =
     (if k' = k \<and> bt_get m k = None then Some v else bt_get m k')"
  by (auto simp: bt_or_insert_def bt_get_insert split: option.splits)

lemma bt_keys_map [simp]: "bt_keys (bt_map f m) = bt_keys m"
  by (simp add: bt_map_def comp_def)

lemma bt_keys_update [simp]: "bt_keys (bt_update k f m) = bt_keys m"
  by (simp add: bt_update_def)

lemma bt_set_keys_insert [simp]: "fst ` set (bt_insert k v m) = insert k (fst ` set m)"
  by (induction k v m rule: bt_insert.induct) auto

lemma bt_wf_empty [simp]: "bt_wf []"
  by (simp add: bt_wf_def)

lemma bt_wf_insert [simp]: "bt_wf m \<Longrightarrow> bt_wf (bt_insert k v m)"
proof (induction k v m rule: bt_insert.induct)
  case (2 k v k' v' m)
  from 2 show ?case
    by (auto simp: bt_wf_def simp flip: set_map)
       (metis bt_set_keys_insert image_eqI insertE list.set_map fst_conv order.strict_trans linorder_cases)+
qed (simp add: bt_wf_def)

lemma bt_wf_filter: "bt_wf m \<Longrightarrow> bt_wf (filter P m)"
  by (induction m) (auto simp: bt_wf_def)

lemma bt_wf_remove [simp]: "bt_wf m \<Longrightarrow> bt_wf (bt_remove k m)"
  by (simp add: bt_remove_def bt_wf_filter)

lemma bt_wf_retain [simp]: "bt_wf m \<Longrightarrow> bt_wf (bt_retain P m)"
  by (simp add: bt_retain_def bt_wf_filter)

lemma bt_wf_map [simp]: "bt_wf (bt_map f m) \<longleftrightarrow> bt_wf m"
  by (simp add: bt_wf_def)

lemma bt_wf_update [simp]: "bt_wf (bt_update k f m) \<longleftrightarrow> bt_wf m"
  by (simp add: bt_wf_def)

lemma bt_wf_or_insert [simp]: "bt_wf m \<Longrightarrow> bt_wf (bt_or_insert k v m)"
  by (simp add: bt_or_insert_def split: option.split)

lemma bt_wf_distinct: "bt_wf m \<Longrightarrow> distinct (bt_keys m)"
  by (simp add: bt_wf_def strict_sorted_iff)

lemma bt_get_in_set: "bt_wf m \<Longrightarrow> bt_get m k = Some v \<longleftrightarrow> (k, v) \<in> set m"
  by (simp add: bt_wf_distinct map_of_eq_Some_iff)

lemma bt_contains_iff: "bt_contains m k \<longleftrightarrow> k \<in> set (bt_keys m)"
  by (simp add: bt_contains_def map_of_eq_None_iff)

lemma bt_map_set: "(k, v) \<in> set (bt_map f m) \<longleftrightarrow> (\<exists>w. (k, w) \<in> set m \<and> v = f k w)"
  by (force simp: bt_map_def)

interpretation bt: ordered_map bt_get bt_insert bt_remove "[]" "\<lambda>m. m" bt_wf
  by unfold_locales
    (simp_all add: bt_get_insert bt_get_remove bt_get_in_set, simp add: bt_wf_def)

lemma bt_get_collect:
  "bt_get (bt_collect xs) k = map_of (rev xs) k"
  using bt.get_collect [of xs "[]" k] by (simp add: bt_collect_def split: option.splits)

lemma bt_wf_collect [simp]: "bt_wf (bt_collect xs)"
  using bt.wf_collect [of "[]" xs] by (simp add: bt_collect_def)

section \<open>Codecs\<close>

text \<open>
  The contract of a format that is written and read back: on the values it covers, reading
  the written form gives the value. Different values then never share a form.
\<close>

locale codec =
  fixes encode :: "'a \<Rightarrow> 'b"
    and decode :: "'b \<Rightarrow> 'a option"
    and valid :: "'a \<Rightarrow> bool"
  assumes decode_encode: "valid x \<Longrightarrow> decode (encode x) = Some x"
begin

lemma encode_inject: "valid x \<Longrightarrow> valid y \<Longrightarrow> encode x = encode y \<longleftrightarrow> x = y"
  by (metis decode_encode option.inject)

lemma encode_fixpoint: "valid x \<Longrightarrow> map_option encode (decode (encode x)) = Some (encode x)"
  by (simp add: decode_encode)

end

section \<open>Machines\<close>

text \<open>The runs of a component that reacts to events, and an invariant of all of them.\<close>

inductive run :: "('s \<Rightarrow> 'e \<Rightarrow> 's \<Rightarrow> bool) \<Rightarrow> 's \<Rightarrow> 'e list \<Rightarrow> 's \<Rightarrow> bool" for step where
  run_Nil: "run step s [] s"
| run_Cons: "step s ev s1 \<Longrightarrow> run step s1 evs s' \<Longrightarrow> run step s (ev # evs) s'"

inductive_cases run_NilE: "run step s [] s'"
inductive_cases run_ConsE: "run step s (ev # evs) s'"

lemma run_append: "run step s evs s1 \<Longrightarrow> run step s1 evs' s' \<Longrightarrow> run step s (evs @ evs') s'"
  by (induction rule: run.induct) (auto intro: run.intros)

text \<open>Something the steps of a run keep, where the steps may be restricted by a condition on the event.\<close>

lemma run_keeps:
  assumes "run step s evs s'" and "P s" and "list_all ok evs"
    and "\<And>s ev s'. P s \<Longrightarrow> ok ev \<Longrightarrow> step s ev s' \<Longrightarrow> P s'"
  shows "P s'"
  using assms(1-3) by (induction rule: run.induct) (auto intro: assms(4))

locale machine =
  fixes step :: "'s \<Rightarrow> 'e \<Rightarrow> 's \<Rightarrow> bool"
    and inv :: "'s \<Rightarrow> bool"
  assumes step_inv: "inv s \<Longrightarrow> step s ev s' \<Longrightarrow> inv s'"
begin

lemma run_inv: "run step s evs s' \<Longrightarrow> inv s \<Longrightarrow> inv s'"
  by (induction rule: run.induct) (auto intro: step_inv)

lemma run_inv_keeps:
  assumes "run step s evs s'" and "inv s" and "P s" and "list_all ok evs"
    and "\<And>s ev s'. inv s \<Longrightarrow> P s \<Longrightarrow> ok ev \<Longrightarrow> step s ev s' \<Longrightarrow> P s'"
  shows "P s'"
  using assms(1-4) by (induction rule: run.induct) (auto intro: assms(5) step_inv)

end

section \<open>Mirrors\<close>

text \<open>
  A component that pushes what changed to another one: the receiver applies the updates of each
  step in order. The law is that what the component believes to have pushed is what the receiver
  then has.
\<close>

definition apply_updates :: "('k \<times> 'v) list \<Rightarrow> ('k \<Rightarrow> 'v option) \<Rightarrow> 'k \<Rightarrow> 'v option" where
  "apply_updates us m = fold (\<lambda>(k, v) m. m(k := Some v)) us m"

lemma apply_updates_Nil [simp]: "apply_updates [] m = m"
  by (simp add: apply_updates_def)

lemma apply_updates_Cons [simp]: "apply_updates ((k, v) # us) m = apply_updates us (m(k := Some v))"
  by (simp add: apply_updates_def)

lemma apply_updates_append: "apply_updates (us @ vs) m = apply_updates vs (apply_updates us m)"
  by (simp add: apply_updates_def)

lemma apply_updates_other: "k \<notin> fst ` set us \<Longrightarrow> apply_updates us m k = m k"
  by (induction us arbitrary: m) (auto simp: apply_updates_def)

lemma apply_updates_mono:
  "(\<And>v. m k = Some v \<Longrightarrow> m' k = Some v) \<Longrightarrow> apply_updates us m k = Some v \<Longrightarrow> apply_updates us m' k = Some v"
  by (induction us rule: rev_induct) (auto simp: apply_updates_append split: if_splits)

lemma apply_updates_concat:
  assumes "distinct (map fst xs)" and "\<And>k us. (k, us) \<in> set xs \<Longrightarrow> fst ` set us \<subseteq> {k}" and "(k, us) \<in> set xs"
  shows "apply_updates (concat (map snd xs)) m k = apply_updates us m k"
  using assms
proof (induction xs arbitrary: m)
  case (Cons x xs)
  obtain k' vs where x: "x = (k', vs)" by (cases x)
  show ?case
  proof (cases "k' = k")
    case True
    with Cons.prems(1,3) x have us: "us = vs" by (force simp: image_iff)
    have "k \<notin> fst ` set (concat (map snd xs))"
    proof
      assume "k \<in> fst ` set (concat (map snd xs))"
      then obtain j ws where j: "(j, ws) \<in> set xs" "k \<in> fst ` set ws" by force
      with Cons.prems(2) [of j ws] have "(k, ws) \<in> set xs" by auto
      with Cons.prems(1) x True show False by (auto simp: rev_image_eqI)
    qed
    with us show ?thesis by (simp add: x apply_updates_append apply_updates_other)
  next
    case False
    with Cons.prems x have "apply_updates (concat (map snd xs)) (apply_updates vs m) k = apply_updates us (apply_updates vs m) k"
      by (intro Cons.IH) auto
    also have "k \<notin> fst ` set vs" using Cons.prems(2) [of k' vs] x False by auto
    then have "apply_updates us (apply_updates vs m) k = apply_updates us m k"
      by (induction us arbitrary: m rule: rev_induct) (auto simp: apply_updates_append apply_updates_other)
    finally show ?thesis by (simp add: x apply_updates_append)
  qed
qed simp

inductive pushes :: "('s \<Rightarrow> 'e \<Rightarrow> 's \<times> ('k \<times> 'v) list) \<Rightarrow> 's \<Rightarrow> 'e list \<Rightarrow> 's \<Rightarrow> ('k \<times> 'v) list \<Rightarrow> bool" for step where
  pushes_Nil: "pushes step s [] s []"
| pushes_Cons: "step s ev = (s1, us) \<Longrightarrow> pushes step s1 evs s' vs \<Longrightarrow> pushes step s (ev # evs) s' (us @ vs)"

lemma pushes_snoc:
  "pushes step s evs s' us \<Longrightarrow> pushes step s (evs @ [ev]) (fst (step s' ev)) (us @ snd (step s' ev))"
proof (induction rule: pushes.induct)
  case (pushes_Nil s)
  show ?case using pushes_Cons [of step s ev "fst (step s ev)" "snd (step s ev)" "[]" "fst (step s ev)" "[]"]
    by (simp add: pushes.pushes_Nil)
next
  case (pushes_Cons s ev' s1 us evs s' vs)
  then show ?case using pushes.pushes_Cons by fastforce
qed

locale mirror =
  fixes step :: "'s \<Rightarrow> 'e \<Rightarrow> 's \<times> ('k \<times> 'v) list"
    and pushed :: "'s \<Rightarrow> 'k \<Rightarrow> 'v option"
    and inv :: "'s \<Rightarrow> bool"
  assumes step_inv: "inv s \<Longrightarrow> inv (fst (step s ev))"
    and step_pushed: "inv s \<Longrightarrow> step s ev = (s', us) \<Longrightarrow> pushed s' k = Some v \<Longrightarrow>
      apply_updates us (\<lambda>k. if pushed s k = None then m k else pushed s k) k = Some v"
begin

lemma step_agrees:
  assumes "inv s" and "step s ev = (s', us)" and "\<And>k v. pushed s k = Some v \<Longrightarrow> m k = Some v"
    and "pushed s' k = Some v"
  shows "apply_updates us m k = Some v"
proof -
  have "(\<lambda>k. if pushed s k = None then m k else pushed s k) = m"
    using assms(3) by (auto simp: fun_eq_iff)
  with step_pushed [OF assms(1,2,4), of m] show ?thesis by simp
qed

lemma pushes_inv: "pushes step s evs s' us \<Longrightarrow> inv s \<Longrightarrow> inv s'"
  by (induction rule: pushes.induct) (metis step_inv fst_conv)+

text \<open>After any run, the receiver has everything the component believes to have pushed.\<close>

lemma receiver_agrees:
  assumes "pushes step s evs s' us" and "inv s" and "\<And>k v. pushed s k = Some v \<Longrightarrow> m k = Some v"
    and "pushed s' k = Some v"
  shows "apply_updates us m k = Some v"
  using assms
proof (induction arbitrary: m rule: pushes.induct)
  case (pushes_Cons s ev s1 us evs s' vs)
  have "inv s1" using step_inv [OF pushes_Cons.prems(1), of ev] pushes_Cons.hyps(1) by simp
  moreover have "pushed s1 k = Some v \<Longrightarrow> apply_updates us m k = Some v" for k v
    using step_agrees [OF pushes_Cons.prems(1) pushes_Cons.hyps(1)] pushes_Cons.prems(2) by blast
  ultimately show ?case
    using pushes_Cons.IH [of "apply_updates us m"] pushes_Cons.prems(3) by (simp add: apply_updates_append)
qed simp

end

text \<open>\<open>min_by_key\<close>: the first of the entries with the least key.\<close>

fun min_by_key :: "('a \<Rightarrow> 'b::linorder) \<Rightarrow> 'a list \<Rightarrow> 'a option" where
  "min_by_key f [] = None"
| "min_by_key f (x # xs) =
     (case min_by_key f xs of None \<Rightarrow> Some x | Some y \<Rightarrow> Some (if f x \<le> f y then x else y))"

lemma min_by_key_None [simp]: "min_by_key f xs = None \<longleftrightarrow> xs = []"
  by (cases xs) (simp_all split: option.split)

lemma min_by_key_map: "min_by_key f (map h xs) = map_option h (min_by_key (\<lambda>x. f (h x)) xs)"
  by (induction xs) (auto split: option.split)

lemma min_by_key_in: "min_by_key f xs = Some x \<Longrightarrow> x \<in> set xs"
  by (induction xs arbitrary: x) (auto split: option.splits if_splits)

lemma min_by_key_le: "min_by_key f xs = Some x \<Longrightarrow> y \<in> set xs \<Longrightarrow> f x \<le> f y"
proof (induction xs arbitrary: x)
  case (Cons a xs)
  then show ?case
    by (cases "min_by_key f xs") (auto split: if_splits dest: order_trans)
qed simp

text \<open>On the entries of a map in key order, ties go to the least key.\<close>

lemma min_by_key_sorted:
  fixes xs :: "('k::linorder \<times> 'v) list" and f :: "'k \<times> 'v \<Rightarrow> 'b::linorder"
  assumes "sorted_wrt (<) (map fst xs)" and "min_by_key f xs = Some x" and "y \<in> set xs"
  shows "(f x, fst x) \<le> (f y, fst y)"
  using assms
proof (induction xs arbitrary: x)
  case (Cons a xs)
  show ?case
  proof (cases "min_by_key f xs")
    case None
    with Cons.prems show ?thesis by simp
  next
    case (Some z)
    have "fst a < fst z" using min_by_key_in [OF Some] Cons.prems(1) by simp
    with Cons Some show ?thesis
      by (auto split: if_splits)
  qed
qed simp

section \<open>More on maps and bytes\<close>

lemma to_be_2_cases:
  fixes w :: u16
  obtains a b where "to_be 2 w = [a, b]" and "from_be [a, b] = w"
proof -
  have "length (to_be 2 w) = Suc (Suc 0)" by simp
  then obtain a b where ab: "to_be 2 w = [a, b]"
    by (auto simp only: length_Suc_conv length_0_conv)
  moreover have "from_be [a, b] = w"
    using from_be_to_be [of 2 w] ab by simp
  ultimately show thesis by (rule that)
qed

lemma mac_cases:
  fixes m :: mac
  assumes "length m = 6"
  obtains a b c d e f where "m = [a, b, c, d, e, f]"
  using assms by (auto simp: eval_nat_numeral length_Suc_conv)

lemma bt_map_map: "bt_map f (bt_map g m) = bt_map (\<lambda>k v. f k (g k v)) m"
  by (simp add: bt_map_def comp_def)

lemma bt_map_cong: "(\<And>k v. (k, v) \<in> set m \<Longrightarrow> f k v = g k v) \<Longrightarrow> bt_map f m = bt_map g m"
  by (auto simp: bt_map_def)

lemma list_all_bt_update:
  "list_all P m \<Longrightarrow> (\<And>v. P (k, v) \<Longrightarrow> P (k, f v)) \<Longrightarrow> list_all P (bt_update k f m)"
  by (auto simp: list_all_iff bt_update_def bt_map_def)

lemma bt_insert_subset: "set (bt_insert k v m) \<subseteq> insert (k, v) (set m)"
  by (induction k v m rule: bt_insert.induct) auto

lemma list_all_bt_insert: "list_all P m \<Longrightarrow> P (k, v) \<Longrightarrow> list_all P (bt_insert k v m)"
  using bt_insert_subset [of k v m] by (auto simp: list_all_iff)

lemma fold_keeps: "P s \<Longrightarrow> (\<And>x s. x \<in> set xs \<Longrightarrow> P s \<Longrightarrow> P (f x s)) \<Longrightarrow> P (fold f xs s)"
  by (induction xs arbitrary: s) auto

text \<open>\<open>u32::saturating_add\<close>.\<close>

definition sat_add32 :: "u32 \<Rightarrow> u32 \<Rightarrow> u32" where
  "sat_add32 a b = (if unat a + unat b < 2 ^ 32 then a + b else - 1)"

lemma unat_sat_add32: "unat (sat_add32 a b) = min (unat a + unat b) (2 ^ 32 - 1)"
  by (auto simp: sat_add32_def unat_word_ariths unsigned_minus_1_eq_mask mask_eq_exp_minus_1)

text \<open>A \<open>BTreeSet\<close> is its sorted list of elements.\<close>

definition bs_collect :: "'a::linorder list \<Rightarrow> 'a list" where
  "bs_collect xs = sort (remdups xs)"

lemma bs_collect [simp]: "set (bs_collect xs) = set xs" "sorted (bs_collect xs)" "distinct (bs_collect xs)"
  by (simp_all add: bs_collect_def)

text \<open>\<open>rsplit_once\<close>: at the last occurrence.\<close>

definition rsplit_once :: "char \<Rightarrow> string \<Rightarrow> (string \<times> string) option" where
  "rsplit_once c s = map_option (\<lambda>(a, b). (rev b, rev a)) (split_once c (rev s))"

lemma rsplit_once_append: "c \<notin> set b \<Longrightarrow> rsplit_once c (a @ c # b) = Some (a, b)"
  by (simp add: rsplit_once_def split_once_append)

end
