(* ===== verification/Config_Lexer.thy ===== *)
theory Config_Lexer
  imports Hemlock_Prelude
begin

text \<open>
  The tokenizer of the configuration language
  (\<^verbatim>\<open>src/src/hemlock-config/src/lexer.rs\<close>).
  The mutable cursor of \<open>lex\<close> is the pair of the remaining characters and a position;
  every inner loop of the source is a function that returns what it consumed and the
  cursor behind it.
\<close>

section \<open>Tokens, positions, errors\<close>

datatype token =
    Word string
  | LBrace
  | RBrace
  | Semi
  | Newline

record spanned =
  sp_token :: token
  sp_line :: u32
  sp_col :: u32

datatype lex_error =
    UnterminatedString u32 u32
  | UnterminatedComment u32 u32
  | UnexpectedChar u32 u32 char

type_synonym pos = "u32 \<times> u32"

abbreviation chr_nl :: char where "chr_nl \<equiv> CHR 0x0A"
abbreviation chr_tab :: char where "chr_tab \<equiv> CHR 0x09"
abbreviation chr_cr :: char where "chr_cr \<equiv> CHR 0x0D"
abbreviation chr_quote :: char where "chr_quote \<equiv> CHR 0x22"
abbreviation chr_backslash :: char where "chr_backslash \<equiv> CHR 0x5C"

definition is_word_char :: "char \<Rightarrow> bool" where
  "is_word_char ch \<longleftrightarrow> is_alphanumeric ch \<or> ch \<in> set ''-_.:/*@+,''"

text \<open>The \<open>bump!\<close> macro: one character forward.\<close>

fun bump :: "char \<Rightarrow> pos \<Rightarrow> pos" where
  "bump ch (line, col) = (if ch = chr_nl then (line + 1, 1) else (line, col + 1))"

definition spanned_at :: "pos \<Rightarrow> token \<Rightarrow> spanned" where
  "spanned_at p t = \<lparr>sp_token = t, sp_line = fst p, sp_col = snd p\<rparr>"

section \<open>The loops of \<open>lex\<close>\<close>

text \<open>A line comment: everything up to, and not including, the end of the line.\<close>

fun skip_line :: "string \<Rightarrow> pos \<Rightarrow> string \<times> pos" where
  "skip_line [] p = ([], p)"
| "skip_line (c # cs) p = (if c = chr_nl then (c # cs, p) else skip_line cs (bump c p))"

text \<open>A block comment, after its opening: \<open>None\<close> when it is never closed.\<close>

fun skip_block :: "string \<Rightarrow> pos \<Rightarrow> (string \<times> pos) option" where
  "skip_block [] p = None"
| "skip_block (c # cs) p =
     (if c = CHR ''*'' then
        (case cs of
           d # ds \<Rightarrow> if d = CHR ''/'' then Some (ds, bump d (bump c p)) else skip_block cs (bump c p)
         | [] \<Rightarrow> skip_block cs (bump c p))
      else skip_block cs (bump c p))"

text \<open>A run of word characters.\<close>

fun take_word :: "string \<Rightarrow> pos \<Rightarrow> string \<times> string \<times> pos" where
  "take_word [] p = ([], [], p)"
| "take_word (c # cs) p =
     (if is_word_char c then
        (case take_word cs (bump c p) of (w, rest, p') \<Rightarrow> (c # w, rest, p'))
      else ([], c # cs, p))"

text \<open>A quoted string, after its opening quote: \<open>None\<close> when the input ends inside it.\<close>

fun take_string :: "string \<Rightarrow> pos \<Rightarrow> (string \<times> string \<times> pos) option" where
  "take_string [] p = None"
| "take_string (c # cs) p =
     (if c = chr_quote then Some ([], cs, bump c p)
      else if c = chr_backslash then
        (case cs of
           [] \<Rightarrow> None
         | e # es \<Rightarrow>
             (case take_string es (bump e (bump c p)) of
                None \<Rightarrow> None
              | Some (v, rest, p') \<Rightarrow>
                  Some ((if e = chr_quote then [chr_quote]
                         else if e = chr_backslash then [chr_backslash]
                         else if e = CHR ''n'' then [chr_nl]
                         else [chr_backslash, e]) @ v, rest, p')))
      else
        (case take_string cs (bump c p) of
           None \<Rightarrow> None
         | Some (v, rest, p') \<Rightarrow> Some (c # v, rest, p')))"

lemma skip_line_length: "skip_line cs p = (rest, p') \<Longrightarrow> length rest \<le> length cs"
  by (induction cs p rule: skip_line.induct) (auto split: if_splits)

lemma skip_block_length: "skip_block cs p = Some (rest, p') \<Longrightarrow> length rest < length cs"
  by (induction cs p rule: skip_block.induct) (auto split: if_splits list.splits)

lemma take_word_length: "take_word cs p = (w, rest, p') \<Longrightarrow> length rest \<le> length cs"
  by (induction cs p arbitrary: w rest p' rule: take_word.induct) (auto split: prod.splits if_splits)

lemma take_string_length: "take_string cs p = Some (v, rest, p') \<Longrightarrow> length rest < length cs"
  by (induction cs p arbitrary: v rest p' rule: take_string.induct)
    (fastforce split: if_splits list.splits option.splits)+

section \<open>\<open>lex\<close>\<close>

text \<open>
  One turn of the main loop, on the peeked character: the token it pushes, if any, and the
  cursor behind it.
\<close>

definition lex_step :: "char \<Rightarrow> string \<Rightarrow> pos \<Rightarrow> lex_error + spanned option \<times> string \<times> pos" where
  "lex_step ch cs p =
     (if ch = CHR '' '' \<or> ch = chr_tab \<or> ch = chr_cr then Inr (None, cs, bump ch p)
      else if ch = chr_nl then Inr (Some (spanned_at p Newline), cs, bump ch p)
      else if ch = CHR ''{'' then Inr (Some (spanned_at p LBrace), cs, bump ch p)
      else if ch = CHR ''}'' then Inr (Some (spanned_at p RBrace), cs, bump ch p)
      else if ch = CHR '';'' then Inr (Some (spanned_at p Semi), cs, bump ch p)
      else if ch = CHR ''#'' then Inr (None, skip_line cs (bump ch p))
      else if ch = CHR ''/'' then
        (case cs of
           d # ds \<Rightarrow>
             if d = CHR ''/'' then Inr (None, skip_line cs (bump ch p))
             else if d = CHR ''*'' then
               (case skip_block ds (bump d (bump ch p)) of
                  None \<Rightarrow> Inl (UnterminatedComment (fst p) (snd p))
                | Some (rest, p') \<Rightarrow> Inr (None, rest, p'))
             else
               (case take_word cs (bump ch p) of (w, rest, p') \<Rightarrow>
                  Inr (Some (spanned_at p (Word (ch # w))), rest, p'))
         | [] \<Rightarrow> Inr (Some (spanned_at p (Word [ch])), [], bump ch p))
      else if ch = chr_quote then
        (case take_string cs (bump ch p) of
           None \<Rightarrow> Inl (UnterminatedString (fst p) (snd p))
         | Some (v, rest, p') \<Rightarrow> Inr (Some (spanned_at p (Word v)), rest, p'))
      else if is_word_char ch then
        (case take_word cs (bump ch p) of (w, rest, p') \<Rightarrow>
           Inr (Some (spanned_at p (Word (ch # w))), rest, p'))
      else Inl (UnexpectedChar (fst p) (snd p) ch))"

lemma lex_step_length:
  assumes "lex_step ch cs p = Inr (t, rest, p')"
  shows "length rest \<le> length cs"
  using assms unfolding lex_step_def
  by (auto split: if_splits list.splits option.splits prod.splits simp del: skip_line.simps take_word.simps
      dest: skip_line_length skip_block_length take_word_length take_string_length)

definition push :: "spanned option \<Rightarrow> lex_error + spanned list \<Rightarrow> lex_error + spanned list" where
  "push t r = (case r of Inl e \<Rightarrow> Inl e | Inr ts \<Rightarrow> Inr (case t of None \<Rightarrow> ts | Some s \<Rightarrow> s # ts))"

function lex_from :: "string \<Rightarrow> pos \<Rightarrow> lex_error + spanned list" where
  "lex_from [] p = Inr []"
| "lex_from (ch # cs) p =
     (case lex_step ch cs p of
        Inl e \<Rightarrow> Inl e
      | Inr (t, rest, p') \<Rightarrow> push t (lex_from rest p'))"
  by pat_completeness auto
termination
  by (relation "measure (\<lambda>(cs, p). length cs)") (auto simp: less_Suc_eq_le dest: lex_step_length)

definition lex :: "string \<Rightarrow> lex_error + spanned list" where
  "lex input = lex_from input (1, 1)"

end
