(* ===== verification/Config_Parser.thy ===== *)
theory Config_Parser
  imports Config_Lexer
begin

text \<open>
  The recursive-descent parser of the configuration language
  (\<^verbatim>\<open>src/src/hemlock-config/src/parser.rs\<close>) and its tree type
  (\<open>Item\<close>, \<open>ConfigTree\<close> of \<^verbatim>\<open>tree.rs\<close>). \<open>Parser\<close> keeps the token vector
  and an index; the model keeps the tokens from that index on.
\<close>

section \<open>The tree\<close>

datatype item =
    Leaf (item_name: string) (leaf_vals: "string list")
  | Block (item_name: string) (block_keys: "string list") (block_children: "item list")

record config_tree =
  items :: "item list"

section \<open>Errors\<close>

text \<open>
  \<open>Display\<close> of a token, which error messages embed. A word prints in Rust's \<open>Debug\<close> form of
  a \<open>str\<close>: the usual escapes, and \<open>\u{..}\<close> for what is not printable.
\<close>

definition hex_short :: "nat \<Rightarrow> string" where
  "hex_short n = (if n < 16 then [hex_digit n] else [hex_digit (n div 16), hex_digit (n mod 16)])"

definition is_printable :: "char \<Rightarrow> bool" where
  "is_printable c \<longleftrightarrow> (32 \<le> code c \<and> code c < 127) \<or> (160 < code c \<and> code c \<noteq> 173)"

definition debug_char :: "char \<Rightarrow> string" where
  "debug_char c =
     (if code c = 0 then [chr_backslash, CHR ''0'']
      else if c = chr_tab then [chr_backslash, CHR ''t'']
      else if c = chr_cr then [chr_backslash, CHR ''r'']
      else if c = chr_nl then [chr_backslash, CHR ''n'']
      else if c = chr_quote \<or> c = chr_backslash then [chr_backslash, c]
      else if is_printable c then [c]
      else chr_backslash # ''u{'' @ hex_short (code c) @ ''}'')"

fun token_display :: "token \<Rightarrow> string" where
  "token_display (Word w) = chr_quote # concat (map debug_char w) @ [chr_quote]"
| "token_display LBrace = [CHR 0x27, CHR ''{'', CHR 0x27]"
| "token_display RBrace = [CHR 0x27, CHR ''}'', CHR 0x27]"
| "token_display Semi = [CHR 0x27, CHR '';'', CHR 0x27]"
| "token_display Newline = ''end of line''"

datatype parse_error =
    Lex lex_error
  | Unexpected u32 u32 string string
  | UnexpectedEof

definition unexpected :: "spanned \<Rightarrow> string \<Rightarrow> parse_error" where
  "unexpected s expected = Unexpected (sp_line s) (sp_col s) expected (token_display (sp_token s))"

section \<open>The descent\<close>

text \<open>
  \<open>statements top_level\<close>, \<open>statement\<close>, and the word loop inside \<open>statement\<close> with the words
  read so far. Each returns what it parsed and the tokens behind it.
\<close>

function (sequential) statements :: "bool \<Rightarrow> spanned list \<Rightarrow> parse_error + item list \<times> spanned list"
  and statement :: "spanned list \<Rightarrow> parse_error + item \<times> spanned list"
  and statement_words :: "string \<Rightarrow> string list \<Rightarrow> spanned list \<Rightarrow> parse_error + item \<times> spanned list"
where
  "statements top_level [] = (if top_level then Inr ([], []) else Inl UnexpectedEof)"
| "statements top_level (s # toks) =
     (if sp_token s = Newline then statements top_level toks
      else if sp_token s = RBrace then
        (if top_level then Inl (unexpected s ''a statement'') else Inr ([], toks))
      else
        (case statement (s # toks) of
           Inl e \<Rightarrow> Inl e
         | Inr (it, rest) \<Rightarrow>
             (case statements top_level rest of
                Inl e \<Rightarrow> Inl e
              | Inr (its, rest') \<Rightarrow> Inr (it # its, rest'))))"
| "statement [] = Inl UnexpectedEof"
| "statement (s # toks) =
     (case sp_token s of
        Word name \<Rightarrow> statement_words name [] toks
      | _ \<Rightarrow> Inl (unexpected s ''a name''))"
| "statement_words name ws [] = Inr (Leaf name ws, [])"
| "statement_words name ws (s # toks) =
     (case sp_token s of
        Word w \<Rightarrow> statement_words name (ws @ [w]) toks
      | Semi \<Rightarrow> Inr (Leaf name ws, toks)
      | Newline \<Rightarrow> Inr (Leaf name ws, toks)
      | RBrace \<Rightarrow> Inr (Leaf name ws, s # toks)
      | LBrace \<Rightarrow>
          (case statements False toks of
             Inl e \<Rightarrow> Inl e
           | Inr (children, rest) \<Rightarrow> Inr (Block name ws children, rest)))"
  by pat_completeness auto

lemma parser_consumes:
  "statements_statement_statement_words_dom (Inl (top_level, toks)) \<Longrightarrow>
     (\<forall>its rest. statements top_level toks = Inr (its, rest) \<longrightarrow> length rest \<le> length toks)"
  "statements_statement_statement_words_dom (Inr (Inl toks')) \<Longrightarrow>
     (\<forall>it rest. statement toks' = Inr (it, rest) \<longrightarrow> length rest < length toks')"
  "statements_statement_statement_words_dom (Inr (Inr (name, ws, toks''))) \<Longrightarrow>
     (\<forall>it rest. statement_words name ws toks'' = Inr (it, rest) \<longrightarrow> length rest \<le> length toks'')"
proof (induction top_level toks and toks' and name ws toks'' rule: statements_statement_statement_words.pinduct)
  case (2 top_level s toks)
  then show ?case
    by (cases "statement (s # toks)")
      (fastforce simp: statements.psimps split: if_splits sum.splits prod.splits)+
qed (auto simp: statements.psimps statement.psimps statement_words.psimps
      split: if_splits sum.splits token.splits prod.splits)

termination statements
proof (relation "measure (\<lambda>x. case x of
    Inl (_, toks) \<Rightarrow> 2 * length toks + 1
  | Inr (Inl toks) \<Rightarrow> 2 * length toks
  | Inr (Inr (_, _, toks)) \<Rightarrow> 2 * length toks + 1)")
qed (auto dest!: parser_consumes(2))

definition parse :: "string \<Rightarrow> parse_error + config_tree" where
  "parse input =
     (case lex input of
        Inl e \<Rightarrow> Inl (Lex e)
      | Inr tokens \<Rightarrow>
          (case statements True tokens of
             Inl e \<Rightarrow> Inl e
           | Inr (its, _) \<Rightarrow> Inr \<lparr>items = its\<rparr>))"

end
