(* ===== verification/Config_Tree.thy ===== *)
theory Config_Tree
  imports Config_Parser
begin

text \<open>
  Queries, edits, migration, redaction and rendering of configuration trees
  (\<^verbatim>\<open>src/src/hemlock-config/src/tree.rs\<close>). The functions that take
  \<open>&mut Vec<Item>\<close> return the new list; \<open>ensure_block\<close>, which returns a mutable
  borrow of the children, is modelled with the edit its caller performs on them.
\<close>

section \<open>Queries\<close>

fun find_map :: "('a \<Rightarrow> 'b option) \<Rightarrow> 'a list \<Rightarrow> 'b option" where
  "find_map f [] = None"
| "find_map f (x # xs) = (case f x of None \<Rightarrow> find_map f xs | Some y \<Rightarrow> Some y)"

fun is_leaf_named :: "string \<Rightarrow> item \<Rightarrow> bool" where
  "is_leaf_named n (Leaf m _) = (m = n)"
| "is_leaf_named n (Block _ _ _) = False"

fun is_block_named :: "string \<Rightarrow> item \<Rightarrow> bool" where
  "is_block_named n (Block m _ _) = (m = n)"
| "is_block_named n (Leaf _ _) = False"

fun is_block_keyed :: "string \<Rightarrow> string list \<Rightarrow> item \<Rightarrow> bool" where
  "is_block_keyed n ks (Block m k _) = (m = n \<and> k = ks)"
| "is_block_keyed n ks (Leaf _ _) = False"

definition block_in :: "item list \<Rightarrow> string \<Rightarrow> (string list \<times> item list) option" where
  "block_in its name =
     find_map (\<lambda>it. case it of
         Block n keys children \<Rightarrow> if n = name then Some (keys, children) else None
       | Leaf _ _ \<Rightarrow> None) its"

definition block :: "config_tree \<Rightarrow> string \<Rightarrow> (string list \<times> item list) option" where
  "block tree name = block_in (items tree) name"

definition blocks_named :: "item list \<Rightarrow> string \<Rightarrow> (string list \<times> item list) list" where
  "blocks_named its name =
     List.map_filter (\<lambda>it. case it of
         Block n keys children \<Rightarrow> if n = name then Some (keys, children) else None
       | Leaf _ _ \<Rightarrow> None) its"

definition leaf_value :: "item list \<Rightarrow> string \<Rightarrow> string option" where
  "leaf_value its name =
     find_map (\<lambda>it. case it of
         Leaf n vs \<Rightarrow> if n = name then (case vs of [] \<Rightarrow> None | v # _ \<Rightarrow> Some v) else None
       | Block _ _ _ \<Rightarrow> None) its"

definition leaf_values :: "item list \<Rightarrow> string \<Rightarrow> string list option" where
  "leaf_values its name =
     find_map (\<lambda>it. case it of
         Leaf n vs \<Rightarrow> if n = name then Some vs else None
       | Block _ _ _ \<Rightarrow> None) its"

definition has_leaf :: "item list \<Rightarrow> string \<Rightarrow> bool" where
  "has_leaf its name = list_ex (is_leaf_named name) its"

definition phrase_values :: "item list \<Rightarrow> string \<Rightarrow> string \<Rightarrow> string list option" where
  "phrase_values its first second =
     find_map (\<lambda>it. case it of
         Leaf n vs \<Rightarrow>
           (case vs of
              v # rest \<Rightarrow> if n = first \<and> v = second then Some rest else None
            | [] \<Rightarrow> None)
       | Block _ _ _ \<Rightarrow> None) its"

definition has_phrase :: "item list \<Rightarrow> string \<Rightarrow> string \<Rightarrow> bool" where
  "has_phrase its first second \<longleftrightarrow> phrase_values its first second \<noteq> None"

section \<open>Edits\<close>

text \<open>Rewrite the first item that satisfies a predicate, if there is one.\<close>

fun update_first :: "(item \<Rightarrow> bool) \<Rightarrow> (item \<Rightarrow> item) \<Rightarrow> item list \<Rightarrow> item list" where
  "update_first P f [] = []"
| "update_first P f (it # its) = (if P it then f it # its else it # update_first P f its)"

fun with_children :: "(item list \<Rightarrow> item list) \<Rightarrow> item \<Rightarrow> item" where
  "with_children f (Block n ks ch) = Block n ks (f ch)"
| "with_children f (Leaf n vs) = Leaf n vs"

fun with_values :: "(string list \<Rightarrow> string list) \<Rightarrow> item \<Rightarrow> item" where
  "with_values f (Leaf n vs) = Leaf n (f vs)"
| "with_values f (Block n ks ch) = Block n ks ch"

definition ensure_block :: "item list \<Rightarrow> string \<Rightarrow> string list \<Rightarrow> (item list \<Rightarrow> item list) \<Rightarrow> item list" where
  "ensure_block its name keys edit =
     (if list_ex (is_block_keyed name keys) its
      then update_first (is_block_keyed name keys) (with_children edit) its
      else its @ [Block name keys (edit [])])"

definition block_mut :: "config_tree \<Rightarrow> string \<Rightarrow> (item list \<Rightarrow> item list) \<Rightarrow> config_tree" where
  "block_mut tree name edit = tree\<lparr>items := ensure_block (items tree) name [] edit\<rparr>"

definition set_leaf :: "item list \<Rightarrow> string \<Rightarrow> string list \<Rightarrow> item list" where
  "set_leaf its name vals =
     (if list_ex (is_leaf_named name) its
      then update_first (is_leaf_named name) (with_values (\<lambda>_. vals)) its
      else its @ [Leaf name vals])"

definition set_phrase :: "item list \<Rightarrow> string \<Rightarrow> string \<Rightarrow> string list \<Rightarrow> item list" where
  "set_phrase its first second rest = set_leaf its first (second # rest)"

definition remove_leaf :: "item list \<Rightarrow> string \<Rightarrow> item list" where
  "remove_leaf its name = filter (\<lambda>it. \<not> is_leaf_named name it) its"

definition remove_block :: "item list \<Rightarrow> string \<Rightarrow> string list \<Rightarrow> item list" where
  "remove_block its name keys = filter (\<lambda>it. \<not> is_block_keyed name keys it) its"

section \<open>Migration of legacy interface forms\<close>

fun normalize_admin_leaf :: "item \<Rightarrow> item" where
  "normalize_admin_leaf (Block n ks ch) = Block n ks ch"
| "normalize_admin_leaf (Leaf n vs) =
     (if n = ''no-shutdown'' then Leaf ''no'' [''shutdown'']
      else if n = ''admin-state'' then
        (case vs of
           v # _ \<Rightarrow>
             if v = ''enabled'' then Leaf ''no'' [''shutdown'']
             else if v = ''disabled'' then Leaf ''shutdown'' []
             else Leaf n vs
         | [] \<Rightarrow> Leaf n vs)
      else Leaf n vs)"

fun normalize_switchport_leaf :: "item \<Rightarrow> item" where
  "normalize_switchport_leaf (Block n ks ch) = Block n ks ch"
| "normalize_switchport_leaf (Leaf n vs) =
     (if n = ''access-vlan'' then Leaf ''access'' (''vlan'' # vs)
      else if n = ''trunk-vlans'' then Leaf ''trunk'' (''vlans'' # vs)
      else if n = ''native-vlan'' then Leaf ''native'' (''vlan'' # vs)
      else Leaf n vs)"

definition normalize_admin_leaves :: "item list \<Rightarrow> item list" where
  "normalize_admin_leaves = map normalize_admin_leaf"

definition normalize_switchport_leaves :: "item list \<Rightarrow> item list" where
  "normalize_switchport_leaves = map normalize_switchport_leaf"

text \<open>One child of an \<open>interfaces\<close> block.\<close>

fun normalize_interface :: "item \<Rightarrow> item" where
  "normalize_interface (Leaf n vs) = Leaf n vs"
| "normalize_interface (Block n ks ch) =
     (let (n', ks') = (case ks of
             [k] \<Rightarrow> if n = ''ethernet'' \<or> n = ''management'' then (k, []) else (n, ks)
           | _ \<Rightarrow> (n, ks));
          ch' = normalize_admin_leaves ch
      in Block n' ks'
           (map (\<lambda>sub. if is_block_named ''switchport'' sub
                       then with_children normalize_switchport_leaves sub else sub) ch'))"

definition normalize_interfaces :: "config_tree \<Rightarrow> config_tree" where
  "normalize_interfaces tree = tree\<lparr>items :=
     map (\<lambda>it. if is_block_named ''interfaces'' it
                then with_children (map normalize_interface) it else it) (items tree)\<rparr>"

section \<open>Redaction\<close>

definition hidden :: string where
  "hidden = ''<hidden>''"

text \<open>Apply an edit to the children of every block with a name.\<close>

definition in_blocks :: "string \<Rightarrow> (item list \<Rightarrow> item list) \<Rightarrow> item list \<Rightarrow> item list" where
  "in_blocks name f = map (\<lambda>it. if is_block_named name it then with_children f it else it)"

definition in_leaves :: "string \<Rightarrow> (string list \<Rightarrow> string list) \<Rightarrow> item list \<Rightarrow> item list" where
  "in_leaves name f = map (\<lambda>it. if is_leaf_named name it then with_values f it else it)"

definition redact_snmp_users :: "config_tree \<Rightarrow> config_tree" where
  "redact_snmp_users tree = tree\<lparr>items :=
     update_first (is_block_named ''services'')
       (with_children (in_blocks ''snmp'' (in_leaves ''user''
          (\<lambda>vs. if length vs = 7 then vs[3 := hidden, 6 := hidden] else vs))))
       (items tree)\<rparr>"

definition redact_login_hashes :: "config_tree \<Rightarrow> config_tree" where
  "redact_login_hashes tree = tree\<lparr>items :=
     update_first (is_block_named ''system'')
       (with_children (in_blocks ''login'' (in_blocks ''user''
          (in_leaves ''password-hash'' (\<lambda>_. [hidden])))))
       (items tree)\<rparr>"

definition redact_radius_keys :: "config_tree \<Rightarrow> config_tree" where
  "redact_radius_keys tree = tree\<lparr>items :=
     update_first (is_block_named ''security'')
       (with_children (in_blocks ''dot1x'' (in_blocks ''radius-server''
          (in_leaves ''key'' (\<lambda>_. [hidden])))))
       (items tree)\<rparr>"

definition redact_secrets :: "config_tree \<Rightarrow> config_tree" where
  "redact_secrets tree = redact_radius_keys (redact_login_hashes (redact_snmp_users tree))"

section \<open>Rendering\<close>

definition replace_char :: "char \<Rightarrow> string \<Rightarrow> string \<Rightarrow> string" where
  "replace_char c r s = concat (map (\<lambda>x. if x = c then r else [x]) s)"

definition is_bare :: "string \<Rightarrow> bool" where
  "is_bare word \<longleftrightarrow> word \<noteq> [] \<and> list_all is_word_char word"

definition atom :: "string \<Rightarrow> string" where
  "atom word =
     (if is_bare word then word
      else chr_quote # replace_char chr_quote [chr_backslash, chr_quote]
             (replace_char chr_backslash [chr_backslash, chr_backslash] word) @ [chr_quote])"

definition indent :: "nat \<Rightarrow> string" where
  "indent depth = concat (replicate depth ''    '')"

definition atoms :: "string list \<Rightarrow> string" where
  "atoms vs = concat (map (\<lambda>v. CHR '' '' # atom v) vs)"

fun render :: "nat \<Rightarrow> item \<Rightarrow> string" where
  "render depth (Leaf name vals) = indent depth @ name @ atoms vals @ [chr_nl]"
| "render depth (Block name keys children) =
     indent depth @ name @ atoms keys @ '' {'' @ [chr_nl]
       @ concat (map (render (depth + 1)) children)
       @ indent depth @ ''}'' @ [chr_nl]"

definition to_text :: "config_tree \<Rightarrow> string" where
  "to_text tree = concat (map (render 0) (items tree))"

section \<open>What the edits do\<close>

lemma find_map_append:
  "find_map f (xs @ ys) = (case find_map f xs of None \<Rightarrow> find_map f ys | Some y \<Rightarrow> Some y)"
  by (induction xs) (auto split: option.splits)

lemma find_map_None: "find_map f xs = None \<longleftrightarrow> (\<forall>x \<in> set xs. f x = None)"
  by (induction xs) (auto split: option.splits)

lemma find_map_update_first:
  assumes "list_ex P xs" and "\<And>x. P x \<Longrightarrow> g (f x) = Some y" and "\<And>x. \<not> P x \<Longrightarrow> g x = None"
  shows "find_map g (update_first P f xs) = Some y"
  using assms by (induction xs) auto

lemma find_map_update_first_other:
  assumes "\<And>x. P x \<Longrightarrow> g x = None \<and> g (f x) = None"
  shows "find_map g (update_first P f xs) = find_map g xs"
  using assms by (induction xs) (auto split: option.split)

lemma leaf_values_set_leaf_same: "leaf_values (set_leaf its name vals) name = Some vals"
proof (cases "list_ex (is_leaf_named name) its")
  case True
  have "leaf_values (update_first (is_leaf_named name) (with_values (\<lambda>_. vals)) its) name = Some vals"
    unfolding leaf_values_def
  proof (rule find_map_update_first [OF True])
    fix x
    show "is_leaf_named name x \<Longrightarrow>
        (case with_values (\<lambda>_. vals) x of Leaf n vs \<Rightarrow> if n = name then Some vs else None
         | Block _ _ _ \<Rightarrow> None) = Some vals"
      by (cases x) auto
    show "\<not> is_leaf_named name x \<Longrightarrow>
        (case x of Leaf n vs \<Rightarrow> if n = name then Some vs else None | Block _ _ _ \<Rightarrow> None) = None"
      by (cases x) auto
  qed
  with True show ?thesis by (simp add: set_leaf_def)
next
  case False
  then have "leaf_values its name = None"
    by (auto simp: leaf_values_def find_map_None list_ex_iff split: item.splits)
  with False show ?thesis
    by (simp add: set_leaf_def leaf_values_def find_map_append)
qed

lemma leaf_values_set_leaf_other:
  assumes "other \<noteq> name"
  shows "leaf_values (set_leaf its name vals) other = leaf_values its other"
proof -
  have "leaf_values (update_first (is_leaf_named name) (with_values (\<lambda>_. vals)) its) other = leaf_values its other"
    unfolding leaf_values_def
    by (rule find_map_update_first_other) (use assms in \<open>auto elim!: is_leaf_named.elims\<close>)
  moreover have "leaf_values (its @ [Leaf name vals]) other = leaf_values its other"
    using assms by (simp add: leaf_values_def find_map_append split: option.split)
  ultimately show ?thesis by (simp add: set_leaf_def)
qed

lemma leaf_values_remove_leaf:
  "leaf_values (remove_leaf its name) other = (if other = name then None else leaf_values its other)"
  unfolding remove_leaf_def leaf_values_def
  by (induction its) (auto split: item.splits)

lemma blocks_named_append: "blocks_named (xs @ ys) b = blocks_named xs b @ blocks_named ys b"
  by (simp add: blocks_named_def List.map_filter_def)

lemma blocks_named_Cons:
  "blocks_named (it # its) b =
     (if is_block_named b it then [(block_keys it, block_children it)] else []) @ blocks_named its b"
  by (cases it) (simp_all add: blocks_named_def List.map_filter_simps)

lemma blocks_named_set_leaf: "blocks_named (set_leaf its name vals) b = blocks_named its b"
proof -
  have "blocks_named (update_first (is_leaf_named name) (with_values f) its) b = blocks_named its b" for f
  proof (induction its)
    case (Cons it its)
    then show ?case by (cases it) (auto simp: blocks_named_Cons)
  qed simp
  then show ?thesis
    by (auto simp: set_leaf_def blocks_named_append blocks_named_Cons) (simp add: blocks_named_def List.map_filter_simps)
qed

text \<open>\<open>set_phrase\<close> answers the phrase query; the phrase shares its leaf with the bare name.\<close>

lemma phrase_values_set_phrase:
  "phrase_values (set_phrase its first second rest) first second = Some rest"
proof (cases "list_ex (is_leaf_named first) its")
  case True
  have "phrase_values (update_first (is_leaf_named first) (with_values (\<lambda>_. second # rest)) its) first second = Some rest"
    unfolding phrase_values_def
  proof (rule find_map_update_first [OF True])
    fix x
    show "is_leaf_named first x \<Longrightarrow>
        (case with_values (\<lambda>_. second # rest) x of
           Leaf n vs \<Rightarrow> (case vs of v # rest \<Rightarrow> if n = first \<and> v = second then Some rest else None | [] \<Rightarrow> None)
         | Block _ _ _ \<Rightarrow> None) = Some rest"
      by (cases x) auto
    show "\<not> is_leaf_named first x \<Longrightarrow>
        (case x of
           Leaf n vs \<Rightarrow> (case vs of v # rest \<Rightarrow> if n = first \<and> v = second then Some rest else None | [] \<Rightarrow> None)
         | Block _ _ _ \<Rightarrow> None) = None"
      by (cases x) (auto split: list.splits)
  qed
  with True show ?thesis by (simp add: set_phrase_def set_leaf_def)
next
  case False
  then have "phrase_values its first second = None"
    by (auto simp: phrase_values_def find_map_None list_ex_iff split: item.splits list.splits)
  with False show ?thesis
    by (simp add: set_phrase_def set_leaf_def phrase_values_def find_map_append)
qed

section \<open>Migration is idempotent\<close>

lemma normalize_admin_leaf_idem: "normalize_admin_leaf (normalize_admin_leaf it) = normalize_admin_leaf it"
  by (cases it) (auto split: list.splits)

lemma normalize_switchport_leaf_idem:
  "normalize_switchport_leaf (normalize_switchport_leaf it) = normalize_switchport_leaf it"
  by (cases it) auto

lemma is_block_named_admin [simp]: "is_block_named n (normalize_admin_leaf it) = is_block_named n it"
  by (cases it) (auto split: list.splits)

lemma is_block_named_with_children [simp]: "is_block_named n (with_children f it) = is_block_named n it"
  by (cases it) auto

lemma with_children_admin: "normalize_admin_leaf (with_children f it) = with_children f (normalize_admin_leaf it)"
  by (cases it) (auto split: list.splits)

lemma normalize_interface_idem: "normalize_interface (normalize_interface it) = normalize_interface it"
proof (cases it)
  case (Leaf n vs)
  then show ?thesis by simp
next
  case (Block n ks ch)
  have sub: "with_children normalize_switchport_leaves (with_children normalize_switchport_leaves x) =
      with_children normalize_switchport_leaves x" for x
    by (cases x) (auto simp: normalize_switchport_leaves_def normalize_switchport_leaf_idem)
  show ?thesis unfolding Block
    by (auto simp: normalize_admin_leaves_def with_children_admin normalize_admin_leaf_idem sub Let_def
        split: list.splits if_splits prod.splits)
qed

lemma normalize_interfaces_idem: "normalize_interfaces (normalize_interfaces t) = normalize_interfaces t"
proof -
  have "with_children (map normalize_interface) (with_children (map normalize_interface) it) =
      with_children (map normalize_interface) it" for it
    by (cases it) (simp_all add: normalize_interface_idem)
  then show ?thesis
    by (simp add: normalize_interfaces_def)
qed

section \<open>The leaves of a block as keyed storage\<close>

interpretation leaves: key_store leaf_values "\<lambda>name vals its. set_leaf its name vals"
    "\<lambda>name its. remove_leaf its name"
  by unfold_locales
    (simp_all add: leaf_values_set_leaf_same leaf_values_set_leaf_other leaf_values_remove_leaf)

section \<open>What redaction hides\<close>

text \<open>The values of every leaf of a name under a path of block names, in any of the blocks.\<close>

fun values_at :: "string list \<Rightarrow> string \<Rightarrow> item list \<Rightarrow> string list list" where
  "values_at [] leaf its = map leaf_vals (filter (is_leaf_named leaf) its)"
| "values_at (b # path) leaf its =
     concat (map (\<lambda>it. values_at path leaf (block_children it)) (filter (is_block_named b) its))"

definition radius_keys :: "config_tree \<Rightarrow> string list list" where
  "radius_keys t = values_at [''security'', ''dot1x'', ''radius-server''] ''key'' (items t)"

definition login_hashes :: "config_tree \<Rightarrow> string list list" where
  "login_hashes t = values_at [''system'', ''login'', ''user''] ''password-hash'' (items t)"

definition snmp_users :: "config_tree \<Rightarrow> string list list" where
  "snmp_users t = values_at [''services'', ''snmp''] ''user'' (items t)"

definition single_block :: "string \<Rightarrow> config_tree \<Rightarrow> bool" where
  "single_block n t \<longleftrightarrow> length (filter (is_block_named n) (items t)) \<le> 1"

lemma is_block_named_elim:
  assumes "is_block_named n it"
  obtains ks ch where "it = Block n ks ch"
  using assms by (cases it) auto

lemma values_at_in_leaves: "values_at [] leaf (in_leaves leaf f its) = map f (values_at [] leaf its)"
proof (induction its)
  case (Cons it its)
  then show ?case by (cases it) (auto simp: in_leaves_def)
qed (simp add: in_leaves_def)

lemma values_at_in_blocks:
  "values_at (b # path) leaf (in_blocks b f its) =
     concat (map (\<lambda>it. values_at path leaf (f (block_children it))) (filter (is_block_named b) its))"
proof (induction its)
  case (Cons it its)
  then show ?case by (cases it) (auto simp: in_blocks_def)
qed (simp add: in_blocks_def)

lemma filter_update_first_other:
  assumes "b \<noteq> b'"
  shows "filter (is_block_named b) (update_first (is_block_named b') (with_children f) its) =
    filter (is_block_named b) its"
proof (induction its)
  case (Cons it its)
  then show ?case using assms by (cases it) auto
qed simp

lemma filter_update_first_single:
  assumes "length (filter (is_block_named b) its) \<le> 1"
  shows "filter (is_block_named b) (update_first (is_block_named b) (with_children f) its) =
    map (with_children f) (filter (is_block_named b) its)"
  using assms
proof (induction its)
  case (Cons it its)
  then show ?case by (cases it) (auto simp: filter_empty_conv)
qed simp

lemma values_at_update_first_single:
  assumes "length (filter (is_block_named b) its) \<le> 1"
  shows "values_at (b # path) leaf (update_first (is_block_named b) (with_children f) its) =
    concat (map (\<lambda>it. values_at path leaf (f (block_children it))) (filter (is_block_named b) its))"
proof -
  have "block_children (with_children f it) = f (block_children it)" if "is_block_named b it" for it
    using that by (rule is_block_named_elim) simp
  then show ?thesis
    by (auto simp: filter_update_first_single [OF assms] comp_def intro!: arg_cong [where f = concat] map_cong)
qed

lemma values_at_update_first_other:
  "b \<noteq> b' \<Longrightarrow> values_at (b # path) leaf (update_first (is_block_named b') (with_children f) its) =
     values_at (b # path) leaf its"
  by (simp add: filter_update_first_other)

lemmas redact_defs = redact_secrets_def redact_radius_keys_def redact_login_hashes_def redact_snmp_users_def

lemma radius_keys_redacted:
  assumes "single_block ''security'' t"
  shows "\<forall>vs \<in> set (radius_keys (redact_secrets t)). vs = [hidden]"
  using assms unfolding single_block_def radius_keys_def redact_defs
  by (auto simp: values_at_update_first_single values_at_in_blocks values_at_in_leaves filter_update_first_other
      simp del: values_at.simps)

lemma login_hashes_redacted:
  assumes "single_block ''system'' t"
  shows "\<forall>vs \<in> set (login_hashes (redact_secrets t)). vs = [hidden]"
  using assms unfolding single_block_def login_hashes_def redact_defs
  by (auto simp: values_at_update_first_single values_at_update_first_other values_at_in_blocks
      values_at_in_leaves filter_update_first_other simp del: values_at.simps)

lemma snmp_users_redacted:
  assumes "single_block ''services'' t"
  shows "\<forall>vs \<in> set (snmp_users (redact_secrets t)). length vs = 7 \<longrightarrow> vs ! 3 = hidden \<and> vs ! 6 = hidden"
  using assms unfolding single_block_def snmp_users_def redact_defs
  by (auto simp: values_at_update_first_single values_at_update_first_other values_at_in_blocks
      values_at_in_leaves filter_update_first_other simp del: values_at.simps split: if_splits)

text \<open>Only the first block of a name is redacted: a second one stays as it is.\<close>

lemma filter_update_first_same:
  "filter (is_block_named b) (update_first (is_block_named b) (with_children f) its) =
    (case filter (is_block_named b) its of [] \<Rightarrow> [] | it # its' \<Rightarrow> with_children f it # its')"
proof (induction its)
  case (Cons it its)
  then show ?case by (cases it) (auto split: list.splits)
qed simp

lemma second_security_block_kept:
  assumes "filter (is_block_named ''security'') (items t) = b1 # later" and "b2 \<in> set later"
  shows "b2 \<in> set (items (redact_secrets t))"
proof -
  have "b2 \<in> set (filter (is_block_named ''security'') (items (redact_secrets t)))"
    using assms by (simp add: redact_defs filter_update_first_other filter_update_first_same)
  then show ?thesis by simp
qed

section \<open>Trees in the current form\<close>

text \<open>The leaves that migration rewrites, and the interface blocks that use none of them.\<close>

fun legacy_admin_leaf :: "item \<Rightarrow> bool" where
  "legacy_admin_leaf (Leaf n vs) \<longleftrightarrow> n = ''no-shutdown''
     \<or> (n = ''admin-state'' \<and> vs \<noteq> [] \<and> (hd vs = ''enabled'' \<or> hd vs = ''disabled''))"
| "legacy_admin_leaf (Block _ _ _) \<longleftrightarrow> False"

fun legacy_switchport_leaf :: "item \<Rightarrow> bool" where
  "legacy_switchport_leaf (Leaf n vs) \<longleftrightarrow> n \<in> {''access-vlan'', ''trunk-vlans'', ''native-vlan''}"
| "legacy_switchport_leaf (Block _ _ _) \<longleftrightarrow> False"

fun current_interface :: "item \<Rightarrow> bool" where
  "current_interface (Leaf n vs) \<longleftrightarrow> True"
| "current_interface (Block n ks ch) \<longleftrightarrow>
     \<not> (n \<in> {''ethernet'', ''management''} \<and> length ks = 1)
     \<and> list_all (\<lambda>it. \<not> legacy_admin_leaf it) ch
     \<and> list_all (\<lambda>it. is_block_named ''switchport'' it \<longrightarrow>
          list_all (\<lambda>sub. \<not> legacy_switchport_leaf sub) (block_children it)) ch"

definition current_form :: "config_tree \<Rightarrow> bool" where
  "current_form t \<longleftrightarrow> list_all (\<lambda>it. is_block_named ''interfaces'' it \<longrightarrow>
     list_all current_interface (block_children it)) (items t)"

lemma map_id_iff: "map f xs = xs \<longleftrightarrow> list_all (\<lambda>x. f x = x) xs"
  by (induction xs) auto

lemma normalize_admin_leaf_id: "normalize_admin_leaf it = it \<longleftrightarrow> \<not> legacy_admin_leaf it"
  by (cases it) (auto split: list.splits)

lemma normalize_switchport_leaf_id: "normalize_switchport_leaf it = it \<longleftrightarrow> \<not> legacy_switchport_leaf it"
  by (cases it) auto

lemma with_children_id: "is_block_named n it \<Longrightarrow> with_children f it = it \<longleftrightarrow> f (block_children it) = block_children it"
  by (erule is_block_named_elim) simp

text \<open>A child is left alone exactly when both rewrites leave it alone: they touch different constructors.\<close>

lemma normalize_child_id:
  "(if is_block_named ''switchport'' (normalize_admin_leaf it)
     then with_children normalize_switchport_leaves (normalize_admin_leaf it)
     else normalize_admin_leaf it) = it
   \<longleftrightarrow> \<not> legacy_admin_leaf it \<and> (is_block_named ''switchport'' it \<longrightarrow>
         list_all (\<lambda>sub. \<not> legacy_switchport_leaf sub) (block_children it))"
proof (cases it)
  case (Leaf n vs)
  then show ?thesis using normalize_admin_leaf_id [of it] by (auto split: list.splits)
next
  case (Block n ks ch)
  then show ?thesis
    by (simp add: normalize_switchport_leaves_def map_id_iff normalize_switchport_leaf_id)
qed

lemma normalize_interface_id: "normalize_interface it = it \<longleftrightarrow> current_interface it"
proof (cases it)
  case (Block n ks ch)
  have kids: "map (\<lambda>sub. if is_block_named ''switchport'' sub
         then with_children normalize_switchport_leaves sub else sub) (normalize_admin_leaves ch) = ch
      \<longleftrightarrow> list_all (\<lambda>it. \<not> legacy_admin_leaf it \<and> (is_block_named ''switchport'' it \<longrightarrow>
         list_all (\<lambda>sub. \<not> legacy_switchport_leaf sub) (block_children it))) ch"
    unfolding normalize_admin_leaves_def map_map comp_def map_id_iff normalize_child_id ..
  have "(case ks of [k] \<Rightarrow> if n = ''ethernet'' \<or> n = ''management'' then (k, []) else (n, ks)
         | _ \<Rightarrow> (n, ks)) = (n, ks) \<longleftrightarrow> \<not> (n \<in> {''ethernet'', ''management''} \<and> length ks = 1)"
    by (auto split: list.split)
  with kids show ?thesis
    unfolding Block by (auto simp: list_all_iff split: prod.splits)
qed simp

lemma normalize_interfaces_id: "normalize_interfaces t = t \<longleftrightarrow> current_form t"
proof -
  have "(if is_block_named ''interfaces'' it then with_children (map normalize_interface) it else it) = it
      \<longleftrightarrow> (is_block_named ''interfaces'' it \<longrightarrow> list_all current_interface (block_children it))" for it
    by (simp add: with_children_id map_id_iff normalize_interface_id)
  then show ?thesis
    by (cases t) (simp add: normalize_interfaces_def current_form_def map_id_iff)
qed

section \<open>Properties\<close>

text \<open>Migration of legacy interface syntax reaches the current form: the migrated tree has no
  legacy leaf and no keyed \<open>ethernet\<close> or \<open>management\<close> block left, and a tree is left
  unchanged exactly when it is already in that form. Running the migration again changes nothing.\<close>

lemma migration_reaches_current_form:
  "current_form (normalize_interfaces t) \<and> (normalize_interfaces t = t \<longleftrightarrow> current_form t)
   \<and> normalize_interfaces (normalize_interfaces t) = normalize_interfaces t"
  using normalize_interfaces_id [of "normalize_interfaces t"] normalize_interfaces_id [of t]
  by (simp add: normalize_interfaces_idem)

text \<open>Setting a leaf makes its name read the new values, every other leaf keeps its values, and
  no block is touched; removing a leaf makes it unset; a phrase set with \<open>set_phrase\<close> is read
  back by \<open>phrase_values\<close>.\<close>

lemma leaf_edit_laws:
  "leaf_values (set_leaf its name vals) other = (if other = name then Some vals else leaf_values its other)
   \<and> blocks_named (set_leaf its name vals) b = blocks_named its b
   \<and> leaf_values (remove_leaf its name) other = (if other = name then None else leaf_values its other)
   \<and> leaf_values (remove_leaf (set_leaf its name vals) name) = leaf_values (remove_leaf its name)
   \<and> phrase_values (set_phrase its name second rest) name second = Some rest"
  by (simp add: leaves.get_insert leaves.get_remove leaves.get_remove_insert blocks_named_set_leaf
      phrase_values_set_phrase)

text \<open>C30. A redacted tree shows no secret: when a tree has at most one top-level block each of
  \<open>security\<close>, \<open>system\<close> and \<open>services\<close>, every RADIUS key and every login password
  hash of the redacted tree is the placeholder, and so are both pass phrases of every SNMP user.\<close>

theorem redaction_hides_secrets:
  assumes "single_block ''security'' t" and "single_block ''system'' t" and "single_block ''services'' t"
  shows "set (radius_keys (redact_secrets t)) \<subseteq> {[hidden]}
    \<and> set (login_hashes (redact_secrets t)) \<subseteq> {[hidden]}
    \<and> (\<forall>vs \<in> set (snmp_users (redact_secrets t)). length vs = 7 \<longrightarrow> vs ! 3 = hidden \<and> vs ! 6 = hidden)"
  using radius_keys_redacted [OF assms(1)] login_hashes_redacted [OF assms(2)] snmp_users_redacted [OF assms(3)]
  by blast

definition secret_tree :: config_tree where
  "secret_tree = \<lparr>items =
    [Block ''security'' [] [Block ''dot1x'' [] [Block ''radius-server'' [''10.0.0.1''] [Leaf ''key'' [''s3cret'']]]],
     Block ''system'' [] [Block ''login'' [] [Block ''user'' [''admin''] [Leaf ''password-hash'' [''abc'']]]],
     Block ''services'' [] [Block ''snmp'' []
       [Leaf ''user'' [''u'', ''auth'', ''sha'', ''pw1'', ''priv'', ''aes'', ''pw2'']]]]\<rparr>"

theorem redaction_hides_secrets_witness:
  "set (radius_keys secret_tree) = {[''s3cret'']} \<and> set (radius_keys (redact_secrets secret_tree)) \<subseteq> {[hidden]}
   \<and> set (login_hashes secret_tree) = {[''abc'']} \<and> set (login_hashes (redact_secrets secret_tree)) \<subseteq> {[hidden]}"
proof -
  have "single_block ''security'' secret_tree" "single_block ''system'' secret_tree"
    "single_block ''services'' secret_tree"
    by (simp_all add: single_block_def secret_tree_def)
  note redacted = redaction_hides_secrets [OF this]
  have "set (radius_keys secret_tree) = {[''s3cret'']}" "set (login_hashes secret_tree) = {[''abc'']}"
    by (simp_all add: secret_tree_def radius_keys_def login_hashes_def)
  with redacted show ?thesis by blast
qed

end
