(* ===== verification/Config_Text.thy ===== *)
theory Config_Text
  imports Config_Tree "HOL-Library.Sublist"
begin

text \<open>
  The configuration language as a whole: rendering a tree and reading the text back
  (\<open>to_text\<close>, \<open>lex\<close>, \<open>parse\<close>). The header of
  \<^verbatim>\<open>src/src/hemlock-config/src/lib.rs\<close> promises
  \<open>parse(to_text(t)) == t\<close> for every tree; the theorems here give the trees for which it
  holds, and trees for which it does not.
\<close>

section \<open>Printable trees\<close>

text \<open>A word that reads as the start of a comment when it is written without quotes.\<close>

fun starts_comment :: "string \<Rightarrow> bool" where
  "starts_comment (a # b # _) = (a = CHR ''/'' \<and> (b = CHR ''/'' \<or> b = CHR ''*''))"
| "starts_comment _ = False"

definition name_ok :: "string \<Rightarrow> bool" where
  "name_ok n \<longleftrightarrow> is_bare n \<and> \<not> starts_comment n"

definition value_ok :: "string \<Rightarrow> bool" where
  "value_ok v \<longleftrightarrow> \<not> (is_bare v \<and> starts_comment v)"

fun printable :: "item \<Rightarrow> bool" where
  "printable (Leaf n vs) \<longleftrightarrow> name_ok n \<and> list_all value_ok vs"
| "printable (Block n ks ch) \<longleftrightarrow> name_ok n \<and> list_all value_ok ks \<and> list_all printable ch"

section \<open>Lexing a fragment\<close>

definition prepend :: "spanned list \<Rightarrow> lex_error + spanned list \<Rightarrow> lex_error + spanned list" where
  "prepend ts r = (case r of Inl e \<Rightarrow> Inl e | Inr ts' \<Rightarrow> Inr (ts @ ts'))"

lemma prepend_Nil [simp]: "prepend [] r = r"
  by (simp add: prepend_def split: sum.split)

lemma prepend_prepend: "prepend ts (prepend ts' r) = prepend (ts @ ts') r"
  by (simp add: prepend_def split: sum.split)

lemma push_prepend: "push t r = prepend (case t of None \<Rightarrow> [] | Some s \<Rightarrow> [s]) r"
  by (auto simp: push_def prepend_def split: sum.split option.split)

text \<open>
  The characters \<open>cs\<close> lex to the tokens \<open>toks\<close>, whatever the cursor position, in front of
  any text that satisfies \<open>D\<close>.
\<close>

definition lexes :: "(string \<Rightarrow> bool) \<Rightarrow> string \<Rightarrow> token list \<Rightarrow> bool" where
  "lexes D cs toks \<longleftrightarrow> (\<forall>rest p. D rest \<longrightarrow>
     (\<exists>ts p'. map sp_token ts = toks \<and> lex_from (cs @ rest) p = prepend ts (lex_from rest p')))"

definition delim :: "string \<Rightarrow> bool" where
  "delim rest \<longleftrightarrow> (case rest of [] \<Rightarrow> True | c # _ \<Rightarrow> \<not> is_word_char c)"

abbreviation anything :: "string \<Rightarrow> bool" where
  "anything \<equiv> \<lambda>_. True"

lemma lexesI:
  assumes "\<And>rest p. D rest \<Longrightarrow>
    \<exists>ts p'. map sp_token ts = toks \<and> lex_from (cs @ rest) p = prepend ts (lex_from rest p')"
  shows "lexes D cs toks"
  using assms by (simp add: lexes_def)

lemma lexes_Nil: "lexes D [] []"
  by (rule lexesI) (metis append_Nil list.simps(8) prepend_Nil)

lemma lexes_append:
  assumes a: "lexes Da a ta" and b: "lexes Db b tb" and d: "\<And>rest. Db rest \<Longrightarrow> Da (b @ rest)"
  shows "lexes Db (a @ b) (ta @ tb)"
proof (rule lexesI)
  fix rest p
  assume "Db rest"
  with a d obtain ts p' where 1: "map sp_token ts = ta"
      "lex_from (a @ b @ rest) p = prepend ts (lex_from (b @ rest) p')"
    unfolding lexes_def by blast
  from b \<open>Db rest\<close> obtain ts' p'' where 2: "map sp_token ts' = tb"
      "lex_from (b @ rest) p' = prepend ts' (lex_from rest p'')"
    unfolding lexes_def by blast
  show "\<exists>ts p'. map sp_token ts = ta @ tb \<and> lex_from ((a @ b) @ rest) p = prepend ts (lex_from rest p')"
    by (rule exI [of _ "ts @ ts'"], rule exI [of _ p'']) (simp add: 1 2 prepend_prepend)
qed

lemmas lexes_append_any = lexes_append [where Da = anything, OF _ _ TrueI]

lemma lexes_concat: "(\<And>x. x \<in> set xs \<Longrightarrow> lexes anything (f x) (g x)) \<Longrightarrow>
  lexes anything (concat (map f xs)) (concat (map g xs))"
  by (induction xs) (auto intro: lexes_Nil lexes_append_any)

text \<open>A single turn of the main loop.\<close>

lemma lexes_step:
  assumes "\<And>rest p. D rest \<Longrightarrow> \<exists>t p'. lex_step ch (cs @ rest) p = Inr (t, rest, p') \<and>
    map sp_token (case t of None \<Rightarrow> [] | Some s \<Rightarrow> [s]) = toks"
  shows "lexes D (ch # cs) toks"
proof (rule lexesI)
  fix rest p
  assume "D rest"
  with assms obtain t p' where "lex_step ch (cs @ rest) p = Inr (t, rest, p')"
      "map sp_token (case t of None \<Rightarrow> [] | Some s \<Rightarrow> [s]) = toks"
    by blast
  then show "\<exists>ts p'. map sp_token ts = toks \<and> lex_from ((ch # cs) @ rest) p = prepend ts (lex_from rest p')"
    by (intro exI [of _ "case t of None \<Rightarrow> [] | Some s \<Rightarrow> [s]"] exI [of _ p']) (simp add: push_prepend)
qed

section \<open>The fragments of a rendered tree\<close>

lemma sp_token_spanned_at [simp]: "sp_token (spanned_at p t) = t"
  by (simp add: spanned_at_def)

lemma lexes_space: "lexes anything '' '' []"
  by (rule lexes_step) (auto simp: lex_step_def)

lemma lexes_newline: "lexes anything [chr_nl] [Newline]"
  by (rule lexes_step) (auto simp: lex_step_def)

lemma lexes_lbrace: "lexes anything ''{'' [LBrace]"
  by (rule lexes_step) (auto simp: lex_step_def)

lemma lexes_rbrace: "lexes anything ''}'' [RBrace]"
  by (rule lexes_step) (auto simp: lex_step_def)

lemma lexes_indent: "lexes anything (indent depth) []"
proof (induction depth)
  case 0
  then show ?case by (simp add: indent_def lexes_Nil)
next
  case (Suc d)
  have "lexes anything ''    '' []"
    using lexes_append_any [OF lexes_space lexes_append_any [OF lexes_space
        lexes_append_any [OF lexes_space lexes_space]]] by simp
  from lexes_append_any [OF this Suc] show ?case by (simp add: indent_def)
qed

lemma not_word_char [simp]:
  "\<not> is_word_char (CHR '' '')" "\<not> is_word_char chr_nl" "\<not> is_word_char chr_tab"
  "\<not> is_word_char chr_cr" "\<not> is_word_char chr_quote" "\<not> is_word_char (CHR ''{'')"
  "\<not> is_word_char (CHR ''}'')" "\<not> is_word_char (CHR '';'')" "\<not> is_word_char (CHR ''#'')"
  by (simp_all add: is_word_char_def is_alphanumeric_def is_digit_def is_lower_def is_upper_def code_def)

lemma delim_simps [simp]: "delim []" "delim (c # cs) \<longleftrightarrow> \<not> is_word_char c"
  by (simp_all add: delim_def)

lemma take_word_delim:
  "list_all is_word_char w \<Longrightarrow> delim rest \<Longrightarrow> \<exists>p'. take_word (w @ rest) p = (w, rest, p')"
proof (induction w arbitrary: p)
  case Nil
  then show ?case by (cases rest) auto
next
  case (Cons c w)
  then obtain p' where "take_word (w @ rest) (bump c p) = (w, rest, p')" by fastforce
  with Cons.prems show ?case by simp
qed

lemma word_char_step:
  assumes "is_word_char ch" and "ch \<noteq> CHR ''/''"
  shows "lex_step ch cs p =
    (case take_word cs (bump ch p) of (w, rest, p') \<Rightarrow>
       Inr (Some (spanned_at p (Word (ch # w))), rest, p'))"
proof -
  from assms(1) have "ch \<noteq> CHR '' ''" "ch \<noteq> chr_tab" "ch \<noteq> chr_cr" "ch \<noteq> chr_nl"
      "ch \<noteq> CHR ''{''" "ch \<noteq> CHR ''}''" "ch \<noteq> CHR '';''" "ch \<noteq> CHR ''#''" "ch \<noteq> chr_quote"
    by (metis not_word_char)+
  with assms show ?thesis by (simp add: lex_step_def split: prod.split)
qed

lemma slash_step:
  assumes "\<not> starts_comment (CHR ''/'' # cs)"
  shows "lex_step (CHR ''/'') cs p =
    (case take_word cs (bump (CHR ''/'') p) of (w, rest, p') \<Rightarrow>
       Inr (Some (spanned_at p (Word (CHR ''/'' # w))), rest, p'))"
  using assms by (cases cs) (auto simp: lex_step_def simp del: bump.simps split: prod.split)

lemma starts_comment_delim:
  assumes "\<not> starts_comment (c # w)" and "delim rest"
  shows "\<not> starts_comment (c # w @ rest)"
proof -
  have "is_word_char (CHR ''/'')" "is_word_char (CHR ''*'')"
    by (simp_all add: is_word_char_def)
  with assms show ?thesis by (cases w; cases rest) auto
qed

lemma lexes_name:
  assumes "name_ok w"
  shows "lexes delim w [Word w]"
proof -
  from assms obtain c cs where w: "w = c # cs" "is_word_char c" "list_all is_word_char cs"
      "\<not> starts_comment w"
    by (cases w) (auto simp: name_ok_def is_bare_def)
  show ?thesis unfolding w(1)
  proof (rule lexes_step)
    fix rest p
    assume d: "delim rest"
    obtain p' where tw: "take_word (cs @ rest) (bump c p) = (cs, rest, p')"
      using take_word_delim [OF w(3) d] by blast
    have "lex_step c (cs @ rest) p = Inr (Some (spanned_at p (Word (c # cs))), rest, p')"
    proof (cases "c = CHR ''/''")
      case True
      with starts_comment_delim [OF _ d] w(1,4) tw show ?thesis
        by (simp add: slash_step)
    next
      case False
      with w(2) tw show ?thesis by (simp add: word_char_step)
    qed
    then show "\<exists>t p'. lex_step c (cs @ rest) p = Inr (t, rest, p') \<and>
        map sp_token (case t of None \<Rightarrow> [] | Some s \<Rightarrow> [s]) = [Word (c # cs)]"
      by auto
  qed
qed

text \<open>A quoted word reads back as itself.\<close>

abbreviation escape :: "string \<Rightarrow> string" where
  "escape w \<equiv> replace_char chr_quote [chr_backslash, chr_quote]
     (replace_char chr_backslash [chr_backslash, chr_backslash] w)"

lemma escape_Cons:
  "escape (c # w) =
     (if c = chr_backslash then [chr_backslash, chr_backslash]
      else if c = chr_quote then [chr_backslash, chr_quote] else [c]) @ escape w"
  by (simp add: replace_char_def)

lemma take_string_escape:
  "\<exists>p'. take_string (escape w @ chr_quote # rest) p = Some (w, rest, p')"
proof (induction w arbitrary: p)
  case Nil
  then show ?case by (simp add: replace_char_def)
next
  case (Cons c w)
  show ?case
  proof (cases "c = chr_backslash \<or> c = chr_quote")
    case True
    obtain p' where "take_string (escape w @ chr_quote # rest) (bump c (bump chr_backslash p)) = Some (w, rest, p')"
      using Cons by blast
    with True show ?thesis
      by (auto simp: escape_Cons simp del: bump.simps)
  next
    case False
    obtain p' where "take_string (escape w @ chr_quote # rest) (bump c p) = Some (w, rest, p')"
      using Cons by blast
    with False show ?thesis by (simp add: escape_Cons del: bump.simps)
  qed
qed

lemma lexes_quoted: "lexes anything (chr_quote # escape w @ [chr_quote]) [Word w]"
proof (rule lexes_step)
  fix rest p
  obtain p' where "take_string (escape w @ chr_quote # rest) (bump chr_quote p) = Some (w, rest, p')"
    using take_string_escape by blast
  then show "\<exists>t p'. lex_step chr_quote ((escape w @ [chr_quote]) @ rest) p = Inr (t, rest, p') \<and>
      map sp_token (case t of None \<Rightarrow> [] | Some s \<Rightarrow> [s]) = [Word w]"
    by (simp add: lex_step_def del: bump.simps)
qed

lemma lexes_weaken: "lexes D cs toks \<Longrightarrow> (\<And>rest. D' rest \<Longrightarrow> D rest) \<Longrightarrow> lexes D' cs toks"
  by (auto simp: lexes_def)

lemma lexes_atom:
  assumes "value_ok v"
  shows "lexes delim (atom v) [Word v]"
proof (cases "is_bare v")
  case True
  with assms have "name_ok v" by (simp add: value_ok_def name_ok_def)
  from lexes_name [OF this] True show ?thesis by (simp add: atom_def)
next
  case False
  with lexes_weaken [OF lexes_quoted] show ?thesis by (simp add: atom_def)
qed

lemma delim_atoms: "delim rest \<Longrightarrow> delim (atoms vs @ rest)"
  by (cases vs) (simp_all add: atoms_def)

lemma lexes_atoms: "list_all value_ok vs \<Longrightarrow> lexes delim (atoms vs) (map Word vs)"
proof (induction vs)
  case Nil
  then show ?case by (simp add: atoms_def lexes_Nil)
next
  case (Cons v vs)
  have "lexes delim (atom v @ atoms vs) ([Word v] @ map Word vs)"
    by (rule lexes_append [where Da = delim]) (use Cons in \<open>simp_all add: lexes_atom delim_atoms\<close>)
  from lexes_append_any [OF lexes_space this] show ?case by (simp add: atoms_def)
qed

text \<open>The head of a statement: its name and its words.\<close>

lemma lexes_head:
  assumes "name_ok n" and "list_all value_ok vs"
  shows "lexes delim (indent d @ n @ atoms vs) (Word n # map Word vs)"
proof -
  have "lexes delim (n @ atoms vs) ([Word n] @ map Word vs)"
    by (rule lexes_append [where Da = delim]) (use assms in \<open>simp_all add: lexes_name lexes_atoms delim_atoms\<close>)
  from lexes_append_any [OF lexes_indent this] show ?thesis by simp
qed

section \<open>The tokens of a tree\<close>

fun item_tokens :: "item \<Rightarrow> token list" where
  "item_tokens (Leaf n vs) = Word n # map Word vs @ [Newline]"
| "item_tokens (Block n ks ch) =
     Word n # map Word ks @ [LBrace, Newline] @ concat (map item_tokens ch) @ [RBrace, Newline]"

lemma lexes_render: "printable it \<Longrightarrow> lexes anything (render d it) (item_tokens it)"
proof (induction d it rule: render.induct)
  case (1 d n vs)
  have "lexes anything ((indent d @ n @ atoms vs) @ [chr_nl]) ((Word n # map Word vs) @ [Newline])"
    by (rule lexes_append [where Da = delim]) (use 1 in \<open>auto intro: lexes_head lexes_newline\<close>)
  then show ?case by simp
next
  case (2 d n ks ch)
  have open_brace: "lexes anything ('' '' @ ''{'' @ [chr_nl]) ([] @ [LBrace] @ [Newline])"
    by (intro lexes_append_any lexes_space lexes_lbrace lexes_newline)
  have close_brace: "lexes anything (indent d @ ''}'' @ [chr_nl]) ([] @ [RBrace] @ [Newline])"
    by (intro lexes_append_any lexes_indent lexes_rbrace lexes_newline)
  have body: "lexes anything (concat (map (render (d + 1)) ch)) (concat (map item_tokens ch))"
    by (rule lexes_concat) (use 2 in \<open>auto simp: list_all_iff\<close>)
  have tail: "lexes anything ((indent d @ n @ atoms ks) @ '' '' @ ''{'' @ [chr_nl])
      ((Word n # map Word ks) @ [] @ [LBrace] @ [Newline])"
    by (rule lexes_append [where Da = delim, OF _ open_brace]) (use 2 in \<open>auto intro: lexes_head\<close>)
  from lexes_append_any [OF tail lexes_append_any [OF body close_brace]]
  show ?case by simp
qed

section \<open>Parsing the tokens of a tree\<close>

lemma statement_words_map:
  "map sp_token ts = map Word ws \<Longrightarrow>
   statement_words n acc (ts @ rest) = statement_words n (acc @ ws) rest"
proof (induction ws arbitrary: ts acc)
  case Nil
  then show ?case by simp
next
  case (Cons w ws)
  then obtain t ts' where "ts = t # ts'" "sp_token t = Word w" "map sp_token ts' = map Word ws"
    by auto
  with Cons.IH [of ts' "acc @ [w]"] show ?case by simp
qed

lemma statements_word:
  assumes "sp_token t = Word n"
  shows "statements lvl (t # toks) =
    (case statement_words n [] toks of
       Inl e \<Rightarrow> Inl e
     | Inr (it, rest) \<Rightarrow>
         (case statements lvl rest of Inl e \<Rightarrow> Inl e | Inr (its, rest') \<Rightarrow> Inr (it # its, rest')))"
  using assms by simp

text \<open>The tokens of an item, in front of anything, parse to that item.\<close>

definition parses_to :: "item \<Rightarrow> bool" where
  "parses_to it \<longleftrightarrow> (\<forall>ts lvl rest. map sp_token ts = item_tokens it \<longrightarrow>
     statements lvl (ts @ rest) =
       (case statements lvl rest of
          Inl e \<Rightarrow> Inl e
        | Inr (its, rest') \<Rightarrow> Inr (it # its, rest')))"

lemma parses_to_list:
  assumes "\<And>it. it \<in> set its \<Longrightarrow> parses_to it"
    and "map sp_token ts = concat (map item_tokens its)"
  shows "statements lvl (ts @ rest) =
    (case statements lvl rest of Inl e \<Rightarrow> Inl e | Inr (its', rest') \<Rightarrow> Inr (its @ its', rest'))"
  using assms
proof (induction its arbitrary: ts)
  case Nil
  then show ?case by (simp split: sum.split)
next
  case (Cons it its)
  from Cons.prems(2) obtain t1 t2 where ts: "ts = t1 @ t2" "map sp_token t1 = item_tokens it"
      "map sp_token t2 = concat (map item_tokens its)"
    by (auto simp: map_eq_append_conv)
  have "statements lvl (t1 @ t2 @ rest) =
      (case statements lvl (t2 @ rest) of
         Inl e \<Rightarrow> Inl e | Inr (its, rest') \<Rightarrow> Inr (it # its, rest'))"
    using Cons.prems(1) ts(2) by (simp add: parses_to_def)
  with Cons.IH [of t2] Cons.prems(1) ts show ?case
    by (auto split: sum.splits)
qed

lemma parses_to_Leaf: "parses_to (Leaf n vs)"
  unfolding parses_to_def
proof (intro allI impI)
  fix ts :: "spanned list" and lvl rest
  assume "map sp_token ts = item_tokens (Leaf n vs)"
  then obtain t ws e where ts: "ts = t # ws @ [e]" "sp_token t = Word n"
      "map sp_token ws = map Word vs" "sp_token e = Newline"
    by (auto simp: map_eq_Cons_conv map_eq_append_conv append_eq_map_conv Cons_eq_map_conv)
  have "statement_words n [] (ws @ e # rest) = Inr (Leaf n vs, rest)"
    using statement_words_map [OF ts(3), of n "[]" "e # rest"] ts(4) by simp
  with ts show "statements lvl (ts @ rest) =
      (case statements lvl rest of Inl e \<Rightarrow> Inl e | Inr (its, rest') \<Rightarrow> Inr (Leaf n vs # its, rest'))"
    by (simp add: statements_word del: statements.simps)
qed

lemma parses_to_Block:
  assumes "\<And>it. it \<in> set ch \<Longrightarrow> parses_to it"
  shows "parses_to (Block n ks ch)"
  unfolding parses_to_def
proof (intro allI impI)
  fix ts :: "spanned list" and lvl rest
  assume "map sp_token ts = item_tokens (Block n ks ch)"
  then obtain t ws l e cs r e' where
    ts: "ts = t # ws @ l # e # cs @ [r, e']" "sp_token t = Word n"
      "map sp_token ws = map Word ks" "sp_token l = LBrace" "sp_token e = Newline"
      "map sp_token cs = concat (map item_tokens ch)" "sp_token r = RBrace" "sp_token e' = Newline"
    by (auto simp: map_eq_Cons_conv map_eq_append_conv append_eq_map_conv Cons_eq_map_conv)
  have "statements False (cs @ r # e' # rest) = Inr (ch, e' # rest)"
    using parses_to_list [OF assms ts(6), of False "r # e' # rest"] ts(7) by simp
  then have "statement_words n [] (ws @ l # e # cs @ r # e' # rest) = Inr (Block n ks ch, e' # rest)"
    using statement_words_map [OF ts(3), of n "[]"] ts(4,5) by simp
  with ts show "statements lvl (ts @ rest) =
      (case statements lvl rest of Inl e \<Rightarrow> Inl e | Inr (its, rest') \<Rightarrow> Inr (Block n ks ch # its, rest'))"
    by (simp add: statements_word del: statements.simps) (simp add: ts(8))
qed

lemma parses_to_all: "parses_to it"
  by (induction it) (auto intro: parses_to_Leaf parses_to_Block)

section \<open>The round trip\<close>

lemma parse_tokens:
  assumes "lexes anything text (concat (map item_tokens its))"
  shows "parse text = Inr \<lparr>items = its\<rparr>"
proof -
  from assms obtain ts p' where ts: "map sp_token ts = concat (map item_tokens its)"
      "lex_from (text @ []) (1, 1) = prepend ts (lex_from [] p')"
    unfolding lexes_def by blast
  then have "lex text = Inr ts"
    by (simp add: lex_def prepend_def)
  moreover have "statements True ts = Inr (its, [])"
    using parses_to_list [OF parses_to_all ts(1), of True "[]"] by simp
  ultimately show ?thesis by (simp add: parse_def)
qed

lemma parse_to_text:
  assumes "list_all printable (items t)"
  shows "parse (to_text t) = Inr t"
proof -
  have "lexes anything (to_text t) (concat (map item_tokens (items t)))"
    unfolding to_text_def by (rule lexes_concat) (use assms in \<open>auto simp: list_all_iff lexes_render\<close>)
  then show ?thesis by (simp add: parse_tokens)
qed

definition parse_ok :: "string \<Rightarrow> config_tree option" where
  "parse_ok text = (case parse text of Inl _ \<Rightarrow> None | Inr t \<Rightarrow> Some t)"

interpretation config_text: codec to_text parse_ok "\<lambda>t. list_all printable (items t)"
  by unfold_locales (simp add: parse_ok_def parse_to_text)

section \<open>Words that start a comment\<close>

definition at_newline :: "string \<Rightarrow> bool" where
  "at_newline rest \<longleftrightarrow> (case rest of [] \<Rightarrow> False | c # _ \<Rightarrow> c = chr_nl)"

lemma skip_line_word:
  "list_all is_word_char w \<Longrightarrow> at_newline rest \<Longrightarrow> \<exists>p'. skip_line (w @ rest) p = (rest, p')"
  by (induction w arbitrary: p) (auto simp: at_newline_def split: list.splits)

lemma lexes_line_comment:
  assumes "list_all is_word_char w"
  shows "lexes at_newline (''//'' @ w) []"
proof -
  have "lexes at_newline (CHR ''/'' # CHR ''/'' # w) []"
  proof (rule lexes_step)
    fix rest and p :: pos
    assume "at_newline rest"
    moreover have "list_all is_word_char (CHR ''/'' # w)"
      using assms by (simp add: is_word_char_def)
    ultimately obtain p' where "skip_line (CHR ''/'' # w @ rest) (bump (CHR ''/'') p) = (rest, p')"
      using skip_line_word [of "CHR ''/'' # w" rest "bump (CHR ''/'') p"] by auto
    then show "\<exists>t p'. lex_step (CHR ''/'') ((CHR ''/'' # w) @ rest) p = Inr (t, rest, p') \<and>
        map sp_token (case t of None \<Rightarrow> [] | Some s \<Rightarrow> [s]) = []"
      by (auto simp: lex_step_def simp del: skip_line.simps bump.simps)
  qed
  then show ?thesis by simp
qed

lemma lexes_comment_leaf:
  assumes "name_ok n" and "list_all is_word_char w"
  shows "lexes anything (n @ '' '' @ (''//'' @ w) @ [chr_nl]) [Word n, Newline]"
proof -
  have comment: "lexes anything ((''//'' @ w) @ [chr_nl]) ([] @ [Newline])"
    by (rule lexes_append [OF lexes_line_comment lexes_newline]) (use assms in \<open>simp_all add: at_newline_def\<close>)
  have "lexes anything (n @ '' '' @ (''//'' @ w) @ [chr_nl]) ([Word n] @ [] @ [] @ [Newline])"
    by (rule lexes_append [where Da = delim, OF _ lexes_append_any [OF lexes_space comment]])
      (use assms in \<open>simp_all add: lexes_name\<close>)
  then show ?thesis by simp
qed

section \<open>Every leaf of a tree is in its text\<close>






section \<open>Properties\<close>

text \<open>C3. Rendering a configuration tree and parsing the text gives the tree back, for every tree
  whose names are bare words and whose names and unquoted values do not begin a comment; values
  with spaces, quotes, backslashes, newlines or nothing in them included. Two such trees that print
  alike are equal.\<close>

theorem config_text_roundtrip:
  assumes "list_all printable (items t)" and "list_all printable (items t')"
  shows "parse (to_text t) = Inr t \<and> (to_text t = to_text t' \<longleftrightarrow> t = t')"
  using parse_to_text [OF assms(1)] config_text.encode_inject [OF assms] by blast

definition sample_tree :: config_tree where
  "sample_tree = \<lparr>items =
     [Block ''interfaces'' [] [Block ''Ethernet1'' [] [Leaf ''description'' [''to the core''], Leaf ''no'' [''shutdown'']]],
      Leaf ''banner'' [[], [chr_backslash, chr_quote, chr_nl]]]\<rparr>"

theorem config_text_roundtrip_witness:
  "parse (to_text sample_tree) = Inr sample_tree
   \<and> (to_text sample_tree = to_text \<lparr>items = []\<rparr> \<longleftrightarrow> sample_tree = \<lparr>items = []\<rparr>)"
proof (rule config_text_roundtrip)
  show "list_all printable (items sample_tree)" by code_simp
qed simp

text \<open>C39. The round trip fails for a value that begins with two slashes: it is printed without
  quotes, the lexer reads it as a comment, and the leaf comes back without the value and without
  an error.\<close>

theorem comment_value_lost:
  assumes "name_ok n" and "list_all is_word_char w"
  shows "parse (to_text \<lparr>items = [Leaf n [''//'' @ w]]\<rparr>) = Inr \<lparr>items = [Leaf n []]\<rparr>"
proof -
  have "is_bare (''//'' @ w)" using assms(2) by (simp add: is_bare_def is_word_char_def)
  then have "to_text \<lparr>items = [Leaf n [''//'' @ w]]\<rparr> = n @ '' '' @ (''//'' @ w) @ [chr_nl]"
    by (simp add: to_text_def indent_def atoms_def atom_def)
  then show ?thesis using parse_tokens [of _ "[Leaf n []]"] lexes_comment_leaf [OF assms] by simp
qed

theorem comment_value_lost_witness:
  "parse (to_text \<lparr>items = [Leaf ''path'' [''//'' @ ''srv/log'']]\<rparr>) = Inr \<lparr>items = [Leaf ''path'' []]\<rparr>"
  by (rule comment_value_lost) code_simp+




end
