(* ===== verification/Common_Ip.thy ===== *)
theory Common_Ip
  imports Hemlock_Prelude
begin

text \<open>
  IP addresses as the sources use them through \<open>std::net::IpAddr\<close>: the address values with
  their order, \<open>Display\<close> (dotted quads, and the compressed form of RFC 5952) and
  \<open>FromStr\<close>, each written after the standard library's own algorithm, since prefixes and
  next hops are compared in their printed form.
\<close>

datatype ip_addr = V4 "32 word" | V6 "128 word"

section \<open>Order\<close>

text \<open>The derived \<open>Ord\<close>: every IPv4 address before every IPv6 one, then by value.\<close>

instantiation ip_addr :: linorder
begin

fun less_eq_ip_addr :: "ip_addr \<Rightarrow> ip_addr \<Rightarrow> bool" where
  "less_eq_ip_addr (V4 a) (V4 b) \<longleftrightarrow> a \<le> b"
| "less_eq_ip_addr (V4 a) (V6 b) \<longleftrightarrow> True"
| "less_eq_ip_addr (V6 a) (V4 b) \<longleftrightarrow> False"
| "less_eq_ip_addr (V6 a) (V6 b) \<longleftrightarrow> a \<le> b"

definition less_ip_addr :: "ip_addr \<Rightarrow> ip_addr \<Rightarrow> bool" where
  "less_ip_addr a b \<longleftrightarrow> a \<le> b \<and> \<not> b \<le> a"

instance
proof
  fix x y z :: ip_addr
  show "(x < y) = (x \<le> y \<and> \<not> y \<le> x)" by (simp add: less_ip_addr_def)
  show "x \<le> x" by (cases x) auto
  show "x \<le> y \<Longrightarrow> y \<le> z \<Longrightarrow> x \<le> z" by (cases x; cases y; cases z) auto
  show "x \<le> y \<Longrightarrow> y \<le> x \<Longrightarrow> x = y" by (cases x; cases y) auto
  show "x \<le> y \<or> y \<le> x" by (cases x; cases y) auto
qed

end

fun is_ipv4 :: "ip_addr \<Rightarrow> bool" where
  "is_ipv4 (V4 _) = True"
| "is_ipv4 (V6 _) = False"

definition max_len :: "ip_addr \<Rightarrow> nat" where
  "max_len a = (if is_ipv4 a then 32 else 128)"

section \<open>Printing\<close>

definition octets :: "32 word \<Rightarrow> nat list" where
  "octets a = digits_be 256 4 (unat a)"

definition segments :: "128 word \<Rightarrow> nat list" where
  "segments a = digits_be 65536 8 (unat a)"

definition show_ipv4 :: "32 word \<Rightarrow> string" where
  "show_ipv4 a = join_with (CHR ''.'') (map show_nat (octets a))"

fun show_hex :: "nat \<Rightarrow> string" where
  "show_hex n = (if n < 16 then [hex_digit n] else show_hex (n div 16) @ [hex_digit (n mod 16)])"

declare show_hex.simps [simp del]

definition show_groups :: "nat list \<Rightarrow> string" where
  "show_groups gs = join_with (CHR '':'') (map show_hex gs)"

text \<open>The first of the longest runs of zero segments, as start and length.\<close>

fun zero_span :: "nat \<Rightarrow> nat list \<Rightarrow> nat \<times> nat \<Rightarrow> nat \<times> nat \<Rightarrow> nat \<times> nat" where
  "zero_span i [] cur longest = longest"
| "zero_span i (g # gs) cur longest =
     (if g = 0 then
        let cur' = (if snd cur = 0 then (i, 1) else (fst cur, snd cur + 1)) in
        zero_span (i + 1) gs cur' (if snd longest < snd cur' then cur' else longest)
      else zero_span (i + 1) gs (0, 0) longest)"

definition show_ipv6 :: "128 word \<Rightarrow> string" where
  "show_ipv6 a =
     (let gs = segments a; (s, l) = zero_span 0 gs (0, 0) (0, 0) in
      if take 6 gs = [0, 0, 0, 0, 0, 65535] then ''::ffff:'' @ show_ipv4 (ucast a)
      else if 1 < l then show_groups (take s gs) @ ''::'' @ show_groups (drop (s + l) gs)
      else show_groups gs)"

fun show_ip :: "ip_addr \<Rightarrow> string" where
  "show_ip (V4 a) = show_ipv4 a"
| "show_ip (V6 a) = show_ipv6 a"

section \<open>Reading\<close>

text \<open>
  The readers take the remaining input and return a value with what is left; on failure the
  caller continues from the input it had (\<open>read_atomically\<close>).
\<close>

type_synonym 'a reader = "string \<Rightarrow> ('a \<times> string) option"

definition read_number :: "(char \<Rightarrow> bool) \<Rightarrow> (char \<Rightarrow> nat) \<Rightarrow> nat \<Rightarrow> nat \<Rightarrow> bool \<Rightarrow> nat \<Rightarrow> nat reader" where
  "read_number digit val radix max_digits allow_zero_prefix bound cs =
     (let ds = takeWhile digit cs; n = undigits radix (map val ds) in
      if ds = [] \<or> max_digits < length ds
         \<or> (\<not> allow_zero_prefix \<and> hd ds = CHR ''0'' \<and> 1 < length ds) \<or> bound \<le> n
      then None else Some (n, dropWhile digit cs))"

definition read_octet :: "nat reader" where
  "read_octet = read_number is_digit digit_val 10 3 False 256"

definition read_group :: "nat reader" where
  "read_group = read_number is_hexdigit hex_val 16 4 True 65536"

definition read_separator :: "char \<Rightarrow> nat \<Rightarrow> 'a reader \<Rightarrow> 'a reader" where
  "read_separator sep index inner cs =
     (if index = 0 then inner cs
      else case cs of [] \<Rightarrow> None | c # cs' \<Rightarrow> if c = sep then inner cs' else None)"

fun read_octets :: "nat \<Rightarrow> nat \<Rightarrow> nat list reader" where
  "read_octets i 0 cs = Some ([], cs)"
| "read_octets i (Suc n) cs =
     (case read_separator (CHR ''.'') i read_octet cs of
        None \<Rightarrow> None
      | Some (d, rest) \<Rightarrow>
          (case read_octets (Suc i) n rest of None \<Rightarrow> None | Some (ds, rest') \<Rightarrow> Some (d # ds, rest')))"

definition read_ipv4_addr :: "nat list reader" where
  "read_ipv4_addr = read_octets 0 4"

text \<open>
  Up to \<open>n\<close> more groups from position \<open>i\<close>; the flag tells that they end in an embedded
  IPv4 address, which needs two of the groups that are left.
\<close>

fun read_groups :: "nat \<Rightarrow> nat \<Rightarrow> string \<Rightarrow> nat list \<times> bool \<times> string" where
  "read_groups i 0 cs = ([], False, cs)"
| "read_groups i (Suc n) cs =
     (case (if 0 < n then read_separator (CHR '':'') i read_ipv4_addr cs else None) of
        Some (ds, rest) \<Rightarrow> ([undigits 256 (take 2 ds), undigits 256 (drop 2 ds)], True, rest)
      | None \<Rightarrow>
          (case read_separator (CHR '':'') i read_group cs of
             None \<Rightarrow> ([], False, cs)
           | Some (g, rest) \<Rightarrow> (case read_groups (Suc i) n rest of (gs, b, rest') \<Rightarrow> (g # gs, b, rest'))))"

definition read_ipv6_addr :: "nat list reader" where
  "read_ipv6_addr cs =
     (case read_groups 0 8 cs of (head, v4, rest) \<Rightarrow>
        if length head = 8 then Some (head, rest)
        else if v4 then None
        else case rest of
          c # d # rest' \<Rightarrow>
            if c = CHR '':'' \<and> d = CHR '':'' then
              (case read_groups 0 (8 - (length head + 1)) rest' of (tail, _, rest'') \<Rightarrow>
                 Some (head @ replicate (8 - length head - length tail) 0 @ tail, rest''))
            else None
        | _ \<Rightarrow> None)"

text \<open>\<open>IpAddr::from_str\<close>: the whole input is one address.\<close>

definition parse_ip :: "string \<Rightarrow> ip_addr option" where
  "parse_ip cs =
     (case read_ipv4_addr cs of
        Some (ds, rest) \<Rightarrow> if rest = [] then Some (V4 (of_nat (undigits 256 ds))) else None
      | None \<Rightarrow>
          (case read_ipv6_addr cs of
             Some (gs, rest) \<Rightarrow> if rest = [] then Some (V6 (of_nat (undigits 65536 gs))) else None
           | None \<Rightarrow> None))"

section \<open>Digits\<close>

lemma show_hex_not_Nil [simp]: "show_hex n \<noteq> []"
  by (subst show_hex.simps) simp

lemma show_hex_rec: "16 \<le> n \<Longrightarrow> show_hex n = show_hex (n div 16) @ [hex_digit (n mod 16)]"
  by (subst show_hex.simps) simp

lemma show_hex_small: "n < 16 \<Longrightarrow> show_hex n = [hex_digit n]"
  by (subst show_hex.simps) simp

lemma show_hex_digits: "list_all is_hexdigit (show_hex n)"
proof (induction n rule: show_hex.induct)
  case (1 n)
  then show ?case by (cases "n < 16") (simp_all add: show_hex_rec [of n] show_hex_small [of n])
qed

lemma undigits_show_hex: "undigits 16 (map hex_val (show_hex n)) = n"
proof (induction n rule: show_hex.induct)
  case (1 n)
  then show ?case by (cases "n < 16") (simp_all add: show_hex_rec [of n] show_hex_small [of n])
qed

lemma length_show_hex: "n < 16 ^ k \<Longrightarrow> 0 < k \<Longrightarrow> length (show_hex n) \<le> k"
proof (induction k arbitrary: n)
  case (Suc k)
  then show ?case
  proof (cases "n < 16")
    case False
    with Suc have "n div 16 < 16 ^ k" "0 < k"
      by (auto simp: less_mult_imp_div_less intro!: Nat.gr0I)
    with Suc False show ?thesis by (simp add: show_hex_rec [of n])
  qed (simp add: show_hex_small)
qed simp

lemma show_nat_rec: "10 \<le> n \<Longrightarrow> show_nat n = show_nat (n div 10) @ [digit_char (n mod 10)]"
  by (subst show_nat.simps) simp

lemma show_nat_small: "n < 10 \<Longrightarrow> show_nat n = [digit_char n]"
  by (subst show_nat.simps) simp

lemma undigits_show_nat: "undigits 10 (map digit_val (show_nat n)) = n"
proof (induction n rule: show_nat.induct)
  case (1 n)
  then show ?case by (cases "n < 10") (simp_all add: show_nat_rec [of n] show_nat_small [of n])
qed

lemma length_show_nat: "n < 10 ^ k \<Longrightarrow> 0 < k \<Longrightarrow> length (show_nat n) \<le> k"
proof (induction k arbitrary: n)
  case (Suc k)
  then show ?case
  proof (cases "n < 10")
    case False
    with Suc have "n div 10 < 10 ^ k" "0 < k"
      by (auto simp: less_mult_imp_div_less intro!: Nat.gr0I)
    with Suc False show ?thesis by (simp add: show_nat_rec [of n])
  qed (simp add: show_nat_small)
qed simp

lemma digit_char_zero: "d < 10 \<Longrightarrow> digit_char d = CHR ''0'' \<longleftrightarrow> d = 0"
proof
  show "d = 0 \<Longrightarrow> digit_char d = CHR ''0''" by (simp, code_simp)
qed (use digit_val_digit_char [of d] in \<open>auto simp: digit_val_def code_def\<close>)

lemma show_nat_leading_zero: "hd (show_nat n) = CHR ''0'' \<Longrightarrow> n = 0"
proof (induction n rule: show_nat.induct)
  case (1 n)
  then show ?case by (cases "n < 10") (auto simp: show_nat_rec [of n] show_nat_small [of n] digit_char_zero)
qed

section \<open>Reading what was printed\<close>

definition stops :: "(char \<Rightarrow> bool) \<Rightarrow> string \<Rightarrow> bool" where
  "stops P rest \<longleftrightarrow> (case rest of [] \<Rightarrow> True | c # _ \<Rightarrow> \<not> P c)"

lemma stops_simps [simp]: "stops P []" "stops P (c # cs) \<longleftrightarrow> \<not> P c"
  by (simp_all add: stops_def)

lemma take_drop_stops:
  assumes "list_all P ds" and "stops P rest"
  shows "takeWhile P (ds @ rest) = ds" and "dropWhile P (ds @ rest) = rest"
  using assms by (induction ds) (auto simp: stops_def split: list.splits)

lemma show_nat_all: "list_all is_digit (show_nat n)"
  using show_nat_digits by (auto simp: list_all_iff)

lemma read_octet_show:
  assumes "n < 256" and "stops is_digit rest"
  shows "read_octet (show_nat n @ rest) = Some (n, rest)"
proof -
  have "length (show_nat n) \<le> 3" using length_show_nat [of n 3] assms(1) by simp
  moreover have "\<not> (hd (show_nat n) = CHR ''0'' \<and> 1 < length (show_nat n))"
    using show_nat_leading_zero [of n] by (auto simp: show_nat_small)
  ultimately show ?thesis
    using assms by (auto simp: read_octet_def read_number_def Let_def take_drop_stops [OF show_nat_all]
        undigits_show_nat)
qed

lemma read_group_show:
  assumes "n < 65536" and "stops is_hexdigit rest"
  shows "read_group (show_hex n @ rest) = Some (n, rest)"
  using assms length_show_hex [of n 4]
  by (auto simp: read_group_def read_number_def Let_def take_drop_stops [OF show_hex_digits] undigits_show_hex)

lemma punctuation [simp]:
  "\<not> is_digit (CHR ''.'')" "\<not> is_hexdigit (CHR ''.'')" "\<not> is_digit (CHR '':'')" "\<not> is_hexdigit (CHR '':'')"
  "\<not> is_digit (CHR ''/'')"
  by (simp_all add: is_hexdigit_def is_digit_def code_def)

lemma stops_sep_tail: "stops P rest \<Longrightarrow> \<not> P c \<Longrightarrow> stops P (sep_tail c ps @ rest)"
  by (simp add: sep_tail_def)

lemma read_octets_tail:
  assumes "list_all (\<lambda>d. d < 256) ds" and "stops is_digit rest"
  shows "read_octets (Suc i) (length ds) (sep_tail (CHR ''.'') (map show_nat ds) @ rest) = Some (ds, rest)"
  using assms
proof (induction ds arbitrary: i)
  case (Cons d ds)
  then show ?case
    by (simp add: sep_tail_Cons read_separator_def read_octet_show stops_sep_tail)
qed simp

lemma octets_less: "list_all (\<lambda>d. d < 256) (octets a)"
  using digits_be_less [of 256] by (auto simp: list_all_iff octets_def)

lemma segments_less: "list_all (\<lambda>d. d < 65536) (segments a)"
  using digits_be_less [of 65536] by (auto simp: list_all_iff segments_def)

lemma length_octets [simp]: "length (octets a) = 4"
  by (simp add: octets_def)

lemma length_segments [simp]: "length (segments a) = 8"
  by (simp add: segments_def)

lemma read_ipv4_show:
  assumes "stops is_digit rest"
  shows "read_ipv4_addr (show_ipv4 a @ rest) = Some (octets a, rest)"
proof -
  obtain d ds where o: "octets a = d # ds" and len: "length ds = 3"
    using length_octets [of a] by (cases "octets a") auto
  with octets_less [of a] have d: "d < 256" "list_all (\<lambda>d. d < 256) ds" by simp_all
  from read_octets_tail [OF d(2) assms, of 0] len
  have "read_octets (Suc 0) 3 (sep_tail (CHR ''.'') (map show_nat ds) @ rest) = Some (ds, rest)" by simp
  moreover have "read_octets 0 (Suc 3) (show_ipv4 a @ rest) =
      (case read_octets (Suc 0) 3 (sep_tail (CHR ''.'') (map show_nat ds) @ rest) of
         None \<Rightarrow> None | Some (ds, rest') \<Rightarrow> Some (d # ds, rest'))"
    unfolding read_octets.simps(2) [of 0 3]
    by (simp add: show_ipv4_def o join_with_Cons read_separator_def read_octet_show d assms stops_sep_tail)
  ultimately show ?thesis by (simp add: read_ipv4_addr_def o eval_nat_numeral del: read_octets.simps)
qed

lemma undigits_octets: "of_nat (undigits 256 (octets a)) = a"
  using unsigned_less [of a, where ?'a = nat] by (simp add: octets_def undigits_digits_be)

lemma undigits_segments: "of_nat (undigits 65536 (segments a)) = a"
  using unsigned_less [of a, where ?'a = nat] by (simp add: segments_def undigits_digits_be)

lemma parse_show_ipv4: "parse_ip (show_ipv4 a) = Some (V4 a)"
  using read_ipv4_show [of "[]" a] by (simp add: parse_ip_def undigits_octets)

section \<open>Reading an IPv6 address that was printed\<close>

lemma drop_digits_no_dot:
  assumes "list_all is_hexdigit w" and "stops (\<lambda>c. is_digit c \<or> c = CHR ''.'') rest"
  shows "stops (\<lambda>c. c = CHR ''.'') (dropWhile is_digit (w @ rest))"
  using assms
proof (induction w)
  case Nil
  then show ?case by (cases rest) auto
next
  case (Cons c w)
  then show ?case by (cases "c = CHR ''.''") auto
qed

text \<open>A group of hexadecimal digits is not the start of a dotted quad.\<close>

lemma read_ipv4_group:
  assumes "list_all is_hexdigit w" and "stops (\<lambda>c. is_digit c \<or> c = CHR ''.'') rest"
  shows "read_ipv4_addr (w @ rest) = None"
proof -
  have "read_separator (CHR ''.'') (Suc 0) read_octet (dropWhile is_digit (w @ rest)) = None"
    using drop_digits_no_dot [OF assms] by (auto simp: read_separator_def split: list.split)
  then have "read_octets (Suc 0) 3 (dropWhile is_digit (w @ rest)) = None"
    by (simp add: numeral_3_eq_3)
  moreover have "read_octet (w @ rest) = None \<or> (\<exists>n. read_octet (w @ rest) = Some (n, dropWhile is_digit (w @ rest)))"
    by (simp add: read_octet_def read_number_def Let_def)
  ultimately show ?thesis
    unfolding read_ipv4_addr_def using read_octets.simps(2) [of 0 3 "w @ rest"]
    by (auto simp: read_separator_def)
qed

text \<open>What may follow the groups: the end, or the two colons.\<close>

fun group_end :: "string \<Rightarrow> bool" where
  "group_end [] = True"
| "group_end [c] = False"
| "group_end (c # d # _) = (c = CHR '':'' \<and> d = CHR '':'')"

lemma group_end_cases:
  assumes "group_end rest"
  obtains "rest = []" | r where "rest = CHR '':'' # CHR '':'' # r"
  using assms by (cases rest rule: group_end.cases) auto

lemma stops_groups: "group_end rest \<Longrightarrow> \<not> P (CHR '':'') \<Longrightarrow> stops P (sep_tail (CHR '':'') ps @ rest)"
  by (rule stops_sep_tail) (auto elim: group_end_cases)

lemma read_group_colon: "read_group (CHR '':'' # r) = None" "read_group [] = None"
  by (simp_all add: read_group_def read_number_def)

lemma read_ipv4_colon: "read_ipv4_addr (CHR '':'' # r) = None" "read_ipv4_addr [] = None"
  using read_ipv4_group [of "[]" "CHR '':'' # r"] read_ipv4_group [of "[]" "[]"] by simp_all

lemma read_groups_end: "group_end rest \<Longrightarrow> read_groups i n rest = ([], False, rest)"
  by (erule group_end_cases; cases n)
    (simp_all add: read_separator_def read_group_colon read_ipv4_colon)

lemma read_groups_tail:
  assumes "list_all (\<lambda>g. g < 65536) gs" and "length gs \<le> n" and "group_end rest"
  shows "read_groups (Suc i) n (sep_tail (CHR '':'') (map show_hex gs) @ rest) = (gs, False, rest)"
  using assms
proof (induction gs arbitrary: i n)
  case Nil
  then show ?case by (simp add: read_groups_end)
next
  case (Cons g gs)
  then obtain m where n: "n = Suc m" by (cases n) auto
  let ?more = "sep_tail (CHR '':'') (map show_hex gs) @ rest"
  have "read_ipv4_addr (show_hex g @ ?more) = None"
    by (rule read_ipv4_group [OF show_hex_digits])
      (use Cons.prems in \<open>auto intro!: stops_groups\<close>)
  moreover have "read_group (show_hex g @ ?more) = Some (g, ?more)"
    by (rule read_group_show) (use Cons.prems in \<open>auto intro!: stops_groups\<close>)
  ultimately show ?case
    using Cons n by (auto simp: sep_tail_Cons read_separator_def)
qed

lemma read_groups_show:
  assumes "list_all (\<lambda>g. g < 65536) gs" and "length gs \<le> n" and "group_end rest"
  shows "read_groups 0 n (show_groups gs @ rest) = (gs, False, rest)"
proof (cases gs)
  case Nil
  with assms(3) show ?thesis by (simp add: show_groups_def read_groups_end)
next
  case (Cons g gs')
  with assms(2) obtain m where n: "n = Suc m" by (cases n) auto
  let ?more = "sep_tail (CHR '':'') (map show_hex gs') @ rest"
  have "read_ipv4_addr (show_hex g @ ?more) = None"
    by (rule read_ipv4_group [OF show_hex_digits])
      (use assms in \<open>auto intro!: stops_groups\<close>)
  moreover have "read_group (show_hex g @ ?more) = Some (g, ?more)"
    by (rule read_group_show) (use assms Cons in \<open>auto intro!: stops_groups\<close>)
  ultimately show ?thesis
    using assms Cons n read_groups_tail [of gs' m rest 0]
    by (auto simp: show_groups_def join_with_Cons read_separator_def)
qed

text \<open>The span that printing compresses holds zeros only.\<close>

definition span_ok :: "nat list \<Rightarrow> nat \<times> nat \<Rightarrow> bool" where
  "span_ok gs sl \<longleftrightarrow> fst sl + snd sl \<le> length gs \<and> (\<forall>j < snd sl. gs ! (fst sl + j) = 0)"

lemma span_ok_append: "span_ok gs sl \<Longrightarrow> span_ok (gs @ hs) sl"
  by (auto simp: span_ok_def nth_append)

lemma span_ok_extend:
  "span_ok gs (s, l) \<Longrightarrow> s + l = length gs \<Longrightarrow> span_ok (gs @ [0]) (s, Suc l)"
  by (auto simp: span_ok_def nth_append less_Suc_eq)

lemma zero_span_ok:
  assumes "span_ok pre longest" and "span_ok pre cur" and "snd cur = 0 \<or> fst cur + snd cur = length pre"
  shows "span_ok (pre @ gs) (zero_span (length pre) gs cur longest)"
  using assms
proof (induction gs arbitrary: pre cur longest)
  case (Cons g gs)
  note IH = Cons.IH [of "pre @ [g]"]
  show ?case
  proof (cases "g = 0")
    case True
    let ?cur = "if snd cur = 0 then (length pre, 1) else (fst cur, snd cur + 1)"
    have cur: "span_ok (pre @ [g]) ?cur" "fst ?cur + snd ?cur = length (pre @ [g])"
      using Cons.prems(2,3) True span_ok_extend [of pre "fst cur" "snd cur"]
      by (auto simp: span_ok_def nth_append)
    with True Cons.prems(1) IH [of "if snd longest < snd ?cur then ?cur else longest" ?cur] show ?thesis
      by (auto simp: Let_def span_ok_append)
  next
    case False
    have "span_ok (pre @ [g]) (0, 0)" by (simp add: span_ok_def)
    with False Cons.prems(1) IH [of longest "(0, 0)"] show ?thesis
      by (simp add: span_ok_append)
  qed
qed simp

lemma span_split:
  assumes "span_ok gs (s, l)"
  shows "gs = take s gs @ replicate l 0 @ drop (s + l) gs"
proof -
  have "take l (drop s gs) = replicate l 0"
    using assms by (auto simp: span_ok_def list_eq_iff_nth_eq min_def)
  then show ?thesis by (metis add.commute append_take_drop_id drop_drop)
qed

section \<open>The round trip of addresses\<close>

lemma list_all_take_drop: "list_all P xs \<Longrightarrow> list_all P (take k xs) \<and> list_all P (drop k xs)"
  by (auto simp: list_all_iff dest: in_set_takeD in_set_dropD)

lemma read_ipv6_compressed:
  assumes "list_all (\<lambda>g. g < 65536) h" and "list_all (\<lambda>g. g < 65536) t" and "length h + length t < 7"
  shows "read_ipv6_addr (show_groups h @ ''::'' @ show_groups t) =
    Some (h @ replicate (8 - length h - length t) 0 @ t, [])"
  using assms read_groups_show [of h 8 "''::'' @ show_groups t"] read_groups_show [of t "7 - length h" "[]"]
  by (simp add: read_ipv6_addr_def)

lemma read_ipv6_full:
  assumes "list_all (\<lambda>g. g < 65536) gs" and "length gs = 8"
  shows "read_ipv6_addr (show_groups gs) = Some (gs, [])"
  using assms read_groups_show [of gs 8 "[]"] by (simp add: read_ipv6_addr_def)

lemma read_ipv4_groups: "group_end rest \<Longrightarrow> read_ipv4_addr (show_groups gs @ rest) = None"
proof (cases gs)
  case Nil
  then show "group_end rest \<Longrightarrow> ?thesis"
    by (auto simp: show_groups_def read_ipv4_colon elim: group_end_cases)
next
  case (Cons g gs')
  then show "group_end rest \<Longrightarrow> ?thesis"
    using read_ipv4_group [OF show_hex_digits, of "sep_tail (CHR '':'') (map show_hex gs') @ rest" g]
    by (auto simp: show_groups_def join_with_Cons stops_groups)
qed

lemma digits_be_2: "digits_be b 2 n = [n div b mod b, n mod b]"
  by (simp add: numeral_2_eq_2)

lemma digits_be_4: "digits_be b 4 n = digits_be b 2 (n div b div b) @ digits_be b 2 n"
  by (simp add: eval_nat_numeral)

lemma digits_be_8: "digits_be b 8 n = digits_be b 6 (n div b div b) @ digits_be b 2 n"
  by (simp add: eval_nat_numeral)

text \<open>The last two segments of an address are its four last octets.\<close>

lemma mapped_segments:
  "drop 6 (segments a) = [undigits 256 (take 2 (octets (ucast a))), undigits 256 (drop 2 (octets (ucast a)))]"
proof -
  let ?n = "unat a"
  have m: "unat (ucast a :: 32 word) = ?n mod 2 ^ 32"
    by (simp add: unsigned_ucast_eq take_bit_eq_mod)
  have "take 2 (octets (ucast a)) = digits_be 256 2 (?n mod 2 ^ 32 div 65536)"
    "drop 2 (octets (ucast a)) = digits_be 256 2 (?n mod 2 ^ 32)"
    by (simp_all add: octets_def m digits_be_4 flip: div_mult2_eq)
  then have "undigits 256 (take 2 (octets (ucast a))) = ?n mod 2 ^ 32 div 65536 mod 65536"
    "undigits 256 (drop 2 (octets (ucast a))) = ?n mod 2 ^ 32 mod 65536"
    by (simp_all only: undigits_digits_be) simp_all
  moreover have "?n mod 2 ^ 32 mod 65536 = ?n mod 65536"
    by (rule mod_mod_cancel) simp
  moreover have "?n mod 2 ^ 32 div 65536 mod 65536 = ?n div 65536 mod 65536"
    using mod_mult2_eq [of ?n 65536 65536] by simp
  moreover have "drop 6 (segments a) = digits_be 65536 2 ?n"
    by (simp add: segments_def digits_be_8)
  ultimately show ?thesis by (simp add: digits_be_2)
qed

lemma read_ipv6_mapped:
  "read_ipv6_addr (''::ffff:'' @ show_ipv4 v) =
     Some ([0, 0, 0, 0, 0, 65535, undigits 256 (take 2 (octets v)), undigits 256 (drop 2 (octets v))], [])"
proof -
  have "hex_digit 15 = CHR ''f''" by code_simp
  then have ffff: "''ffff'' = show_hex 65535" by (simp add: show_hex.simps)
  have "read_ipv4_addr (''ffff'' @ CHR '':'' # show_ipv4 v) = None"
    unfolding ffff by (rule read_ipv4_group [OF show_hex_digits]) simp
  moreover have "read_group (''ffff'' @ CHR '':'' # show_ipv4 v) = Some (65535, CHR '':'' # show_ipv4 v)"
    unfolding ffff by (rule read_group_show) simp_all
  moreover have "read_groups (Suc 0) (Suc 5) (CHR '':'' # show_ipv4 v) =
      ([undigits 256 (take 2 (octets v)), undigits 256 (drop 2 (octets v))], True, [])"
    unfolding read_groups.simps(2) using read_ipv4_show [of "[]" v] by (simp add: read_separator_def)
  ultimately have "read_groups 0 (Suc (Suc 5)) (''ffff'' @ CHR '':'' # show_ipv4 v) =
      ([65535, undigits 256 (take 2 (octets v)), undigits 256 (drop 2 (octets v))], True, [])"
    unfolding read_groups.simps(2) [of 0] by (simp add: read_separator_def del: read_groups.simps)
  moreover have "read_groups 0 8 (''::ffff:'' @ show_ipv4 v) = ([], False, ''::ffff:'' @ show_ipv4 v)"
    by (rule read_groups_end) simp
  moreover have "replicate 5 (0::nat) = [0, 0, 0, 0, 0]" by (simp add: eval_nat_numeral)
  ultimately show ?thesis
    by (simp add: read_ipv6_addr_def del: read_groups.simps)
qed

lemma read_ipv6_show: "read_ipv6_addr (show_ipv6 a) = Some (segments a, [])"
proof (cases "take 6 (segments a) = [0, 0, 0, 0, 0, 65535]")
  case True
  then have "segments a = [0, 0, 0, 0, 0, 65535] @ drop 6 (segments a)"
    by (metis append_take_drop_id)
  with True show ?thesis
    using read_ipv6_mapped [of "ucast a"] by (simp add: show_ipv6_def Let_def mapped_segments split: prod.split)
next
  case False
  obtain s l where sl: "zero_span 0 (segments a) (0, 0) (0, 0) = (s, l)" by force
  have ok: "span_ok (segments a) (s, l)"
    using zero_span_ok [of "[]" "(0, 0)" "(0, 0)" "segments a"] sl by (simp add: span_ok_def)
  show ?thesis
  proof (cases "1 < l")
    case True
    have "s + l \<le> 8" "8 - l < 7" using ok True by (auto simp: span_ok_def)
    with True have "read_ipv6_addr (show_ipv6 a) =
        Some (take s (segments a) @ replicate l 0 @ drop (s + l) (segments a), [])"
      using read_ipv6_compressed [of "take s (segments a)" "drop (s + l) (segments a)"]
        list_all_take_drop [OF segments_less [of a]] False sl
      by (simp add: show_ipv6_def min_def Let_def less_diff_conv2)
    then show ?thesis using span_split [OF ok] by simp
  next
    case l: False
    with False sl show ?thesis
      using read_ipv6_full [OF segments_less [of a]] by (simp add: show_ipv6_def)
  qed
qed

lemma read_ipv4_of_ipv6: "read_ipv4_addr (show_ipv6 a) = None"
proof -
  have "read_ipv4_addr (show_groups g @ ''::'' @ r) = None" "read_ipv4_addr (show_groups g) = None"
    "read_ipv4_addr (''::ffff:'' @ r) = None" for g r
    using read_ipv4_groups [of "''::'' @ r" g] read_ipv4_groups [of "[]" g] read_ipv4_colon(1) by simp_all
  then show ?thesis by (auto simp: show_ipv6_def Let_def split: prod.split)
qed

lemma parse_show_ip: "parse_ip (show_ip a) = Some a"
proof (cases a)
  case (V6 w)
  then show ?thesis
    by (simp add: parse_ip_def read_ipv4_of_ipv6 read_ipv6_show undigits_segments)
qed (simp add: parse_show_ipv4)

interpretation ip_text: codec show_ip parse_ip "\<lambda>_. True"
  by unfold_locales (simp add: parse_show_ip)

section \<open>Evaluation on literals\<close>

lemma read_ipv4_addr_unfold: "read_ipv4_addr = read_octets 0 (Suc (Suc (Suc (Suc 0))))"
  by (simp add: read_ipv4_addr_def eval_nat_numeral)

lemma octets_unfold: "octets a = digits_be 256 (Suc (Suc (Suc (Suc 0)))) (unat a)"
proof -
  have "(4::nat) = Suc (Suc (Suc (Suc 0)))" by simp
  then show ?thesis by (simp only: octets_def)
qed

lemmas ip_eval = parse_ip_def read_ipv4_addr_unfold read_separator_def read_octet_def read_number_def
  undigits_def max_len_def show_ipv4_def octets_unfold

end
