(* ===== verification/Common_Net.thy ===== *)
theory Common_Net
  imports Common_Ip
begin

text \<open>
  The value syntax shared by the command line and the management daemon
  (\<^verbatim>\<open>src/src/hemlock-common/src/net.rs\<close>): prefixes and next hops, MAC addresses,
  policer, shaper and storm-control values, port matches and value lists. An error message
  is a value of \<open>net_error\<close> that holds what the message embeds. The integer types are
  natural numbers with their bounds written out, since the code only does checked arithmetic
  on them.
\<close>

section \<open>Errors\<close>

datatype net_error =
    NotCidr string
  | BadAddress string
  | BadPrefixLength string
  | PrefixTooLong nat nat
  | HostBitsSet string
  | NextHopIsPrefix string
  | BadNextHop string
  | FamilyMismatch ip_addr string
  | BadMac string
  | NotUnicast string
  | BadMacMask string
  | BadRate string
  | BadBurst string
  | BadPort string
  | BadPortRange string
  | BadLevel string
  | BelowFloor string
  | BadValue string string nat
  | BadValueRange string string

abbreviation bind_result :: "'e + 'a \<Rightarrow> ('a \<Rightarrow> 'e + 'b) \<Rightarrow> 'e + 'b" where
  "bind_result r f \<equiv> (case r of Inl e \<Rightarrow> Inl e | Inr x \<Rightarrow> f x)"

section \<open>Prefixes and next hops\<close>

definition parse_cidr :: "string \<Rightarrow> net_error + ip_addr \<times> nat" where
  "parse_cidr text =
     (case split_once (CHR ''/'') text of
        None \<Rightarrow> Inl (NotCidr text)
      | Some (addr, len) \<Rightarrow>
          (case parse_ip addr of
             None \<Rightarrow> Inl (BadAddress addr)
           | Some a \<Rightarrow>
               (case parse_uint 256 len of
                  None \<Rightarrow> Inl (BadPrefixLength len)
                | Some l \<Rightarrow>
                    if max_len a < l then Inl (PrefixTooLong l (max_len a)) else Inr (a, l))))"

text \<open>
  The mask \<open>u32::MAX << (32 - len)\<close>; a zero length is handled apart because the shift by the
  full width would overflow.
\<close>

definition net_mask :: "nat \<Rightarrow> 'a::len word" where
  "net_mask len = (if len = 0 then 0 else push_bit (LENGTH('a) - len) (- 1))"

fun network :: "ip_addr \<Rightarrow> nat \<Rightarrow> ip_addr" where
  "network (V4 a) len = V4 (a AND net_mask len)"
| "network (V6 a) len = V6 (a AND net_mask len)"

definition show_prefix :: "ip_addr \<times> nat \<Rightarrow> string" where
  "show_prefix p = show_ip (fst p) @ CHR ''/'' # show_nat (snd p)"

definition canonical_prefix :: "string \<Rightarrow> net_error + string" where
  "canonical_prefix prefix =
     bind_result (parse_cidr prefix) (\<lambda>(addr, len). Inr (show_prefix (network addr len, len)))"

definition require_canonical_prefix :: "string \<Rightarrow> net_error + string" where
  "require_canonical_prefix prefix =
     bind_result (canonical_prefix prefix) (\<lambda>canonical.
       if canonical \<noteq> prefix then Inl (HostBitsSet canonical) else Inr canonical)"

definition validate_next_hop :: "string \<Rightarrow> string \<Rightarrow> net_error + unit" where
  "validate_next_hop prefix next_hop =
     bind_result (parse_cidr prefix) (\<lambda>(addr, _).
       if CHR ''/'' \<in> set next_hop then Inl (NextHopIsPrefix next_hop)
       else case parse_ip next_hop of
           None \<Rightarrow> Inl (BadNextHop next_hop)
         | Some nh \<Rightarrow>
             if is_ipv4 addr \<noteq> is_ipv4 nh then Inl (FamilyMismatch nh prefix) else Inr ())"

section \<open>MAC addresses\<close>

fun octet_pairs :: "string \<Rightarrow> string list" where
  "octet_pairs (a # b # cs) = [a, b] # octet_pairs cs"
| "octet_pairs _ = []"

definition parse_mac :: "string \<Rightarrow> net_error + string" where
  "parse_mac text =
     (let hex = filter (\<lambda>c. c \<notin> {CHR '':'', CHR ''-'', CHR ''.''}) text in
      if length hex \<noteq> 12 \<or> \<not> list_all is_hexdigit hex then Inl (BadMac text)
      else Inr (join_with (CHR '':'') (octet_pairs (map to_lower hex))))"

definition parse_unicast_mac :: "string \<Rightarrow> net_error + string" where
  "parse_unicast_mac text =
     bind_result (parse_mac text) (\<lambda>mac.
       let first = undigits 16 (map hex_val (take 2 mac)) in
       if odd first then Inl (NotUnicast mac) else Inr mac)"

definition parse_mac_mask :: "string \<Rightarrow> net_error + string" where
  "parse_mac_mask text = (case parse_mac text of Inl _ \<Rightarrow> Inl (BadMacMask text) | Inr m \<Rightarrow> Inr m)"

section \<open>Rates and bursts\<close>

definition u64_bound :: nat where
  "u64_bound = 2 ^ 64"

definition checked_mul :: "nat \<Rightarrow> nat \<Rightarrow> nat option" where
  "checked_mul a b = (if a * b < u64_bound then Some (a * b) else None)"

definition split_unit :: "string \<Rightarrow> string \<times> string" where
  "split_unit text = (takeWhile is_digit text, dropWhile is_digit text)"

text \<open>The scale suffixes that policers and shapers share.\<close>

definition scale_unit :: "string \<Rightarrow> nat option" where
  "scale_unit unit =
     (if unit = [] then Some 1
      else if unit = ''k'' then Some 1000
      else if unit = ''m'' then Some 1000000
      else if unit = ''g'' then Some 1000000000
      else None)"

text \<open>
  The body that \<open>parse_police_rate\<close> and \<open>parse_police_burst\<close> have in common: \<open>count\<close> is
  the suffix that counts packets, \<open>bad\<close> the error.
\<close>

definition parse_police :: "string \<Rightarrow> 'e \<Rightarrow> string \<Rightarrow> 'e + nat \<times> bool" where
  "parse_police count bad text =
     (let (digits, unit) = split_unit (map to_lower text) in
      if digits = [] then Inl bad
      else case parse_uint u64_bound digits of
          None \<Rightarrow> Inl bad
        | Some v \<Rightarrow>
            (case (if unit = count then Some (v, True)
                   else case scale_unit unit of
                       None \<Rightarrow> None
                     | Some f \<Rightarrow> map_option (\<lambda>r. (r, False)) (checked_mul v f)) of
               None \<Rightarrow> Inl bad
             | Some (rate, pps) \<Rightarrow> if rate = 0 then Inl bad else Inr (rate, pps)))"

definition parse_police_rate :: "string \<Rightarrow> net_error + nat \<times> bool" where
  "parse_police_rate text = parse_police ''pps'' (BadRate text) text"

definition parse_police_burst :: "string \<Rightarrow> net_error + nat \<times> bool" where
  "parse_police_burst text = parse_police ''pkts'' (BadBurst text) text"

definition format_scaled :: "nat \<Rightarrow> string" where
  "format_scaled value =
     (if 1000000000 \<le> value \<and> value mod 1000000000 = 0 then show_nat (value div 1000000000) @ ''g''
      else if 1000000 \<le> value \<and> value mod 1000000 = 0 then show_nat (value div 1000000) @ ''m''
      else if 1000 \<le> value \<and> value mod 1000 = 0 then show_nat (value div 1000) @ ''k''
      else show_nat value)"

definition format_police_rate :: "nat \<Rightarrow> bool \<Rightarrow> string" where
  "format_police_rate rate pps = (if pps then show_nat rate @ ''pps'' else format_scaled rate)"

definition format_police_burst :: "nat \<Rightarrow> bool \<Rightarrow> string" where
  "format_police_burst burst pkts = (if pkts then show_nat burst @ ''pkts'' else format_scaled burst)"

definition shape_rate_floor_bps :: nat where
  "shape_rate_floor_bps = 64000"

definition parse_shape_rate :: "string \<Rightarrow> net_error + nat" where
  "parse_shape_rate text =
     (let (digits, unit) = split_unit (map to_lower text) in
      if digits = [] then Inl (BadRate text)
      else case parse_uint u64_bound digits of
          None \<Rightarrow> Inl (BadRate text)
        | Some v \<Rightarrow>
            (case (case scale_unit unit of None \<Rightarrow> None | Some f \<Rightarrow> checked_mul v f) of
               None \<Rightarrow> Inl (BadRate text)
             | Some rate \<Rightarrow> if rate < shape_rate_floor_bps then Inl (BelowFloor text) else Inr rate))"

definition format_shape_rate :: "nat \<Rightarrow> string" where
  "format_shape_rate rate = format_scaled rate"

definition display_shape_rate :: "nat \<Rightarrow> string" where
  "display_shape_rate rate =
     (if 1000000000 \<le> rate \<and> rate mod 1000000000 = 0 then show_nat (rate div 1000000000) @ '' Gbps''
      else if 1000000 \<le> rate \<and> rate mod 1000000 = 0 then show_nat (rate div 1000000) @ '' Mbps''
      else if 1000 \<le> rate \<and> rate mod 1000 = 0 then show_nat (rate div 1000) @ '' Kbps''
      else show_nat rate @ '' bps'')"

section \<open>Ports, levels and value lists\<close>

definition parse_port_match :: "string \<Rightarrow> net_error + nat \<times> nat" where
  "parse_port_match text =
     (case split_once (CHR ''-'') text of
        None \<Rightarrow>
          (case parse_uint 65536 text of None \<Rightarrow> Inl (BadPort text) | Some port \<Rightarrow> Inr (port, port))
      | Some (low, high) \<Rightarrow>
          (case parse_uint 65536 low of
             None \<Rightarrow> Inl (BadPort text)
           | Some lo \<Rightarrow>
               (case parse_uint 65536 high of
                  None \<Rightarrow> Inl (BadPort text)
                | Some hi \<Rightarrow> if hi \<le> lo then Inl (BadPortRange text) else Inr (lo, hi))))"

definition show_2digits :: "nat \<Rightarrow> string" where
  "show_2digits n = (if n < 10 then CHR ''0'' # show_nat n else show_nat n)"

definition parse_storm_level :: "string \<Rightarrow> net_error + string" where
  "parse_storm_level text =
     (let (whole, frac) = (case split_once (CHR ''.'') text of Some p \<Rightarrow> p | None \<Rightarrow> (text, [])) in
      if whole = [] \<or> 3 < length whole \<or> 2 < length frac
         \<or> \<not> list_all is_digit whole \<or> \<not> list_all is_digit frac
      then Inl (BadLevel text)
      else case parse_uint (2 ^ 32) whole of
          None \<Rightarrow> Inl (BadLevel text)
        | Some w \<Rightarrow>
            (case parse_uint (2 ^ 32) (frac @ replicate (2 - length frac) (CHR ''0'')) of
               None \<Rightarrow> Inl (BadLevel text)
             | Some h \<Rightarrow>
                 if 100 < w \<or> (w = 100 \<and> 0 < h) then Inl (BadLevel text)
                 else Inr (show_nat w @ CHR ''.'' # show_2digits h)))"

text \<open>One comma-separated part of a value list: the bounds of its range.\<close>

definition parse_value_part :: "string \<Rightarrow> nat \<Rightarrow> string \<Rightarrow> string \<Rightarrow> net_error + nat \<times> nat" where
  "parse_value_part text limit what part =
     bind_result
       (case split_once (CHR ''-'') part of
          None \<Rightarrow>
            (case parse_uint 256 part of None \<Rightarrow> Inl (BadValue what text limit) | Some v \<Rightarrow> Inr (v, v))
        | Some (low, high) \<Rightarrow>
            (case parse_uint 256 low of
               None \<Rightarrow> Inl (BadValue what text limit)
             | Some lo \<Rightarrow>
                 (case parse_uint 256 high of
                    None \<Rightarrow> Inl (BadValue what text limit)
                  | Some hi \<Rightarrow> if hi \<le> lo then Inl (BadValueRange what part) else Inr (lo, hi))))
       (\<lambda>(lo, hi). if limit < hi then Inl (BadValue what text limit) else Inr (lo, hi))"

fun parse_value_parts :: "string \<Rightarrow> nat \<Rightarrow> string \<Rightarrow> string list \<Rightarrow> net_error + nat list" where
  "parse_value_parts text limit what [] = Inr []"
| "parse_value_parts text limit what (p # ps) =
     bind_result (parse_value_part text limit what p) (\<lambda>(lo, hi).
       bind_result (parse_value_parts text limit what ps) (\<lambda>vs. Inr ([lo..<Suc hi] @ vs)))"

text \<open>The \<open>BTreeSet\<close> of the values, listed in order.\<close>

definition parse_value_list :: "string \<Rightarrow> nat \<Rightarrow> string \<Rightarrow> net_error + nat list" where
  "parse_value_list text limit what =
     (if text = [] then Inl (BadValue what text limit)
      else bind_result (parse_value_parts text limit what (split_on (CHR '','') text))
             (\<lambda>vs. Inr (sorted_list_of_set (set vs))))"

text \<open>
  The maximal runs of a sorted list: \<open>runs start end rest\<close> continues the run
  \<open>start..end\<close> (the inner loop, with the \<open>u8\<close> addition \<open>end + 1\<close>).
\<close>

fun value_runs :: "nat \<Rightarrow> nat \<Rightarrow> nat list \<Rightarrow> (nat \<times> nat) list" where
  "value_runs start end [] = [(start, end)]"
| "value_runs start end (v # vs) =
     (if v = (end + 1) mod 256 then value_runs start v vs else (start, end) # value_runs v v vs)"

definition show_run :: "nat \<times> nat \<Rightarrow> string" where
  "show_run r = (if fst r = snd r then show_nat (fst r) else show_nat (fst r) @ CHR ''-'' # show_nat (snd r))"

definition format_value_list :: "nat list \<Rightarrow> string" where
  "format_value_list vals =
     (case sorted_list_of_set (set vals) of
        [] \<Rightarrow> []
      | v # vs \<Rightarrow> join_with (CHR '','') (map show_run (value_runs v v vs)))"

section \<open>Networks\<close>

lemma bit_net_mask:
  "bit (net_mask len :: 'a::len word) i \<longleftrightarrow> i < LENGTH('a) \<and> LENGTH('a) - len \<le> i \<and> len \<noteq> 0"
  by (auto simp: net_mask_def bit_push_bit_iff simp del: push_bit_minus_one_eq_not_mask
      dest: bit_imp_le_length)

text \<open>The same statement for both address families, on the word inside.\<close>

fun agree_on :: "nat \<Rightarrow> ip_addr \<Rightarrow> ip_addr \<Rightarrow> bool" where
  "agree_on len (V4 a) (V4 b) \<longleftrightarrow> (\<forall>i < 32. 32 - len \<le> i \<longrightarrow> bit a i = bit b i)"
| "agree_on len (V6 a) (V6 b) \<longleftrightarrow> (\<forall>i < 128. 128 - len \<le> i \<longrightarrow> bit a i = bit b i)"
| "agree_on len _ _ \<longleftrightarrow> False"

lemma masked_eq_iff:
  fixes a b :: "'a::len word"
  shows "a AND net_mask len = b AND net_mask len \<longleftrightarrow>
    (\<forall>i < LENGTH('a). LENGTH('a) - len \<le> i \<longrightarrow> bit a i = bit b i)"
proof (cases "len = 0")
  case True
  then show ?thesis by (simp add: net_mask_def)
next
  case False
  then show ?thesis
    by (auto simp: bit_eq_iff [where ?'a = "'a word"] bit_and_iff bit_net_mask)
qed

lemma network_eq_iff: "network a len = network b len \<longleftrightarrow> agree_on len a b"
  by (cases a; cases b) (simp_all add: masked_eq_iff)

lemma network_idem [simp]: "network (network a len) len = network a len"
  by (cases a) (simp_all add: and.assoc)

lemma network_full: "network a (max_len a) = a"
proof (cases a)
  case (V4 w)
  have "w AND net_mask 32 = w" by (simp add: net_mask_def)
  with V4 show ?thesis by (simp add: max_len_def)
next
  case (V6 w)
  have "w AND net_mask 128 = w" by (simp add: net_mask_def)
  with V6 show ?thesis by (simp add: max_len_def)
qed

lemma is_ipv4_network [simp]: "is_ipv4 (network a len) = is_ipv4 a"
  by (cases a) simp_all

lemma max_len_network [simp]: "max_len (network a len) = max_len a"
  by (simp add: max_len_def)

section \<open>Prefix text\<close>

lemma show_ip_no_slash: "CHR ''/'' \<notin> set (show_ip a)"
proof -
  have nat: "CHR ''/'' \<notin> set (show_nat n)" for n
    by (rule show_nat_no_char) simp
  have hex: "CHR ''/'' \<notin> set (show_hex n)" for n
    using show_hex_digits [of n] by (auto simp: list_all_iff is_hexdigit_def is_digit_def code_def)
  have join: "c \<noteq> CHR ''/'' \<Longrightarrow> (\<And>p. p \<in> set ps \<Longrightarrow> CHR ''/'' \<notin> set p) \<Longrightarrow> CHR ''/'' \<notin> set (join_with c ps)" for c ps
    by (induction c ps rule: join_with.induct) auto
  have v4: "CHR ''/'' \<notin> set (show_ipv4 w)" for w
    unfolding show_ipv4_def by (rule join) (auto simp: nat)
  have grp: "CHR ''/'' \<notin> set (show_groups gs)" for gs
    unfolding show_groups_def by (rule join) (auto simp: hex)
  show ?thesis
    by (cases a) (auto simp: v4 grp show_ipv6_def Let_def split: prod.split)
qed

lemma parse_cidr_show_prefix:
  assumes "len \<le> max_len a"
  shows "parse_cidr (show_prefix (a, len)) = Inr (a, len)"
proof -
  have "len < 256" using assms by (simp add: max_len_def split: if_splits)
  with assms show ?thesis
    by (simp add: parse_cidr_def show_prefix_def split_once_append show_ip_no_slash parse_show_ip
        parse_uint_show_nat)
qed

interpretation prefix_text: codec show_prefix "\<lambda>s. case parse_cidr s of Inl _ \<Rightarrow> None | Inr p \<Rightarrow> Some p"
    "\<lambda>(a, len). len \<le> max_len a"
  by unfold_locales (auto simp: parse_cidr_show_prefix)

lemma parse_cidr_bound: "parse_cidr s = Inr (a, len) \<Longrightarrow> len \<le> max_len a"
  by (auto simp: parse_cidr_def split: option.splits if_splits)

lemma canonical_prefix_fixed:
  assumes "canonical_prefix s = Inr c"
  shows "canonical_prefix c = Inr c"
proof -
  from assms obtain a len where a: "parse_cidr s = Inr (a, len)" "c = show_prefix (network a len, len)"
    by (auto simp: canonical_prefix_def split: sum.splits)
  with parse_cidr_bound [OF a(1)] show ?thesis
    by (simp add: canonical_prefix_def parse_cidr_show_prefix)
qed

lemma require_canonical_prefix_iff:
  "require_canonical_prefix s = Inr c \<longleftrightarrow>
     c = s \<and> (\<exists>a len. len \<le> max_len a \<and> network a len = a \<and> s = show_prefix (a, len))"
proof
  assume r: "require_canonical_prefix s = Inr c"
  then have c: "c = s" "canonical_prefix s = Inr s"
    by (auto simp: require_canonical_prefix_def split: sum.splits if_splits)
  then obtain a len where "parse_cidr s = Inr (a, len)" "s = show_prefix (network a len, len)"
    by (auto simp: canonical_prefix_def split: sum.splits)
  with c show "c = s \<and> (\<exists>a len. len \<le> max_len a \<and> network a len = a \<and> s = show_prefix (a, len))"
    by (intro conjI exI [of _ "network a len"] exI [of _ len]) (auto dest: parse_cidr_bound)
next
  assume "c = s \<and> (\<exists>a len. len \<le> max_len a \<and> network a len = a \<and> s = show_prefix (a, len))"
  then show "require_canonical_prefix s = Inr c"
    by (auto simp: require_canonical_prefix_def canonical_prefix_def parse_cidr_show_prefix)
qed

section \<open>Rates\<close>

lemma to_lower_digit [simp]: "is_digit c \<Longrightarrow> to_lower c = c"
  by (auto simp: to_lower_def is_digit_def is_upper_def)

lemma map_to_lower_show_nat [simp]: "map to_lower (show_nat n) = show_nat n"
  using show_nat_digits by (auto intro!: map_idI)

lemma split_unit_show:
  "stops is_digit u \<Longrightarrow> map to_lower u = u \<Longrightarrow> split_unit (map to_lower (show_nat n @ u)) = (show_nat n, u)"
  by (simp add: split_unit_def take_drop_stops [OF show_nat_all])

lemma lower_units [simp]:
  "to_lower (CHR ''k'') = CHR ''k''" "to_lower (CHR ''m'') = CHR ''m''" "to_lower (CHR ''g'') = CHR ''g''"
  "to_lower (CHR ''p'') = CHR ''p''" "to_lower (CHR ''s'') = CHR ''s''" "to_lower (CHR ''t'') = CHR ''t''"
  "\<not> is_digit (CHR ''k'')" "\<not> is_digit (CHR ''m'')" "\<not> is_digit (CHR ''g'')" "\<not> is_digit (CHR ''p'')"
  by (simp_all add: to_lower_def is_upper_def is_digit_def code_def)

lemma format_scaled_form:
  obtains v u f where "format_scaled r = show_nat v @ u" and "scale_unit u = Some f" and "v * f = r"
    and "v \<le> r" and "stops is_digit u" and "map to_lower u = u" and "length u \<le> 1"
proof -
  have eq: "r div f * f = r" if "r mod f = 0" for f
    using that div_mult_mod_eq [of r f] by simp
  have le: "r div f \<le> r" for f by simp
  consider (g) "1000000000 \<le> r \<and> r mod 1000000000 = 0"
    | (m) "\<not> (1000000000 \<le> r \<and> r mod 1000000000 = 0)" "1000000 \<le> r \<and> r mod 1000000 = 0"
    | (k) "\<not> (1000000000 \<le> r \<and> r mod 1000000000 = 0)" "\<not> (1000000 \<le> r \<and> r mod 1000000 = 0)"
        "1000 \<le> r \<and> r mod 1000 = 0"
    | (plain) "\<not> (1000000000 \<le> r \<and> r mod 1000000000 = 0)" "\<not> (1000000 \<le> r \<and> r mod 1000000 = 0)"
        "\<not> (1000 \<le> r \<and> r mod 1000 = 0)"
    by blast
  then show thesis
  proof cases
    case g
    then show thesis by (intro that [of "r div 1000000000" "''g''" 1000000000])
        (auto simp: format_scaled_def scale_unit_def)
  next
    case m
    then show thesis by (intro that [of "r div 1000000" "''m''" 1000000])
        (auto simp: format_scaled_def scale_unit_def)
  next
    case k
    then show thesis by (intro that [of "r div 1000" "''k''" 1000])
        (auto simp: format_scaled_def scale_unit_def)
  next
    case plain
    then show thesis by (intro that [of r "[]" 1]) (auto simp: format_scaled_def scale_unit_def)
  qed
qed

lemma parse_police_scaled:
  assumes "0 < r" and "r < u64_bound" and "1 < length count"
  shows "parse_police count bad (format_scaled r) = Inr (r, False)"
proof -
  obtain v u f where f: "format_scaled r = show_nat v @ u" "scale_unit u = Some f" "v * f = r" "v \<le> r"
      "stops is_digit u" "map to_lower u = u" "length u \<le> 1"
    by (rule format_scaled_form)
  from f(4,7) assms have "v < u64_bound" "u \<noteq> count" by auto
  with f assms show ?thesis
    by (simp add: parse_police_def split_unit_show parse_uint_show_nat checked_mul_def del: map_append)
qed

lemma parse_police_count:
  assumes "0 < r" and "r < u64_bound" and "stops is_digit count" and "map to_lower count = count"
  shows "parse_police count bad (show_nat r @ count) = Inr (r, True)"
  using assms by (simp add: parse_police_def split_unit_show parse_uint_show_nat del: map_append)

lemma parse_shape_format:
  assumes "shape_rate_floor_bps \<le> r" and "r < u64_bound"
  shows "parse_shape_rate (format_shape_rate r) = Inr r"
proof -
  obtain v u f where f: "format_scaled r = show_nat v @ u" "scale_unit u = Some f" "v * f = r" "v \<le> r"
      "stops is_digit u" "map to_lower u = u" "length u \<le> 1"
    by (rule format_scaled_form)
  from f(4) assms have "v < u64_bound" by simp
  with f assms show ?thesis
    by (simp add: parse_shape_rate_def format_shape_rate_def split_unit_show parse_uint_show_nat checked_mul_def
        del: map_append)
qed

text \<open>What the parsers accept is positive and fits the type.\<close>

lemma parse_police_range: "parse_police count bad s = Inr (r, b) \<Longrightarrow> 0 < r \<and> r < u64_bound"
  by (auto simp: parse_police_def checked_mul_def Let_def dest: parse_uint_bound
      split: prod.splits if_splits option.splits)

lemma parse_shape_range: "parse_shape_rate s = Inr r \<Longrightarrow> shape_rate_floor_bps \<le> r \<and> r < u64_bound"
  by (auto simp: parse_shape_rate_def checked_mul_def Let_def not_less
      split: prod.splits if_splits option.splits)

section \<open>MAC addresses\<close>

lemma to_lower_hex: "is_hexdigit c \<Longrightarrow> is_hexdigit (to_lower c) \<and> to_lower (to_lower c) = to_lower c"
  by (auto simp: to_lower_def is_upper_def is_hexdigit_def is_digit_def code_def)

lemma hex_not_sep: "is_hexdigit c \<Longrightarrow> c \<notin> {CHR '':'', CHR ''-'', CHR ''.''}"
  by (auto simp: is_hexdigit_def is_digit_def code_def)

lemma filter_join_pairs:
  assumes "list_all is_hexdigit hex" and "even (length hex)"
  shows "filter (\<lambda>c. c \<notin> {CHR '':'', CHR ''-'', CHR ''.''}) (join_with (CHR '':'') (octet_pairs hex)) = hex"
proof -
  let ?P = "\<lambda>c. c \<notin> {CHR '':'', CHR ''-'', CHR ''.''}"
  have tail: "filter ?P (sep_tail (CHR '':'') ps) = filter ?P (concat ps)" for ps
    by (induction ps) (simp_all add: sep_tail_Cons)
  then have join: "filter ?P (join_with (CHR '':'') ps) = filter ?P (concat ps)" for ps
    by (cases ps) (simp_all add: join_with_Cons)
  have "concat (octet_pairs hex) = hex"
    using assms(2) by (induction hex rule: octet_pairs.induct) auto
  with join show ?thesis using assms(1) hex_not_sep by (auto simp: list_all_iff intro!: filter_True)
qed

lemma parse_mac_fixed:
  assumes "parse_mac s = Inr m"
  shows "parse_mac m = Inr m"
proof -
  from assms obtain hex where hex: "length hex = 12" "list_all is_hexdigit hex"
      "m = join_with (CHR '':'') (octet_pairs (map to_lower hex))"
    by (auto simp: parse_mac_def Let_def split: if_splits)
  have low: "list_all is_hexdigit (map to_lower hex)" "map to_lower (map to_lower hex) = map to_lower hex"
    using hex(2) to_lower_hex by (auto simp: list_all_iff)
  have "filter (\<lambda>c. c \<notin> {CHR '':'', CHR ''-'', CHR ''.''}) m = map to_lower hex"
    unfolding hex(3) by (rule filter_join_pairs) (use hex low in simp_all)
  with hex low show ?thesis by (simp add: parse_mac_def Let_def del: map_map)
qed

section \<open>Storm-control levels\<close>

lemma dec_acc_zero_show_nat: "dec_acc 0 (CHR ''0'' # show_nat n) = Some n"
proof -
  have "is_digit (CHR ''0'')" "digit_val (CHR ''0'') = 0"
    by (simp_all add: is_digit_def digit_val_def code_def)
  then show ?thesis by (simp add: dec_acc_show_nat)
qed

lemma show_2digits:
  assumes "n < 100"
  shows "length (show_2digits n) = 2" and "list_all is_digit (show_2digits n)"
    and "parse_uint (2 ^ 32) (show_2digits n) = Some n"
proof -
  show "length (show_2digits n) = 2"
    using assms show_nat_small [of n] show_nat_rec [of n] show_nat_small [of "n div 10"]
    by (auto simp: show_2digits_def not_less)
  show "list_all is_digit (show_2digits n)"
    using show_nat_all [of n] by (simp add: show_2digits_def is_digit_def code_def)
  have "n < 2 ^ 32" using assms by simp
  then show "parse_uint (2 ^ 32) (show_2digits n) = Some n"
    using dec_acc_zero_show_nat [of n]
    by (auto simp: show_2digits_def parse_uint_show_nat) (simp add: parse_uint_def)
qed

lemma dec_acc_less: "dec_acc a cs = Some n \<Longrightarrow> n < (a + 1) * 10 ^ length cs"
proof (induction a cs rule: dec_acc.induct)
  case (2 a c cs)
  then have "is_digit c" and n: "n < (10 * a + digit_val c + 1) * 10 ^ length cs"
    by (auto split: if_splits)
  then have "10 * a + digit_val c + 1 \<le> (a + 1) * 10"
    by (auto simp: is_digit_def digit_val_def)
  then have "(10 * a + digit_val c + 1) * 10 ^ length cs \<le> (a + 1) * 10 * 10 ^ length cs"
    by (rule mult_le_mono1)
  with n have "n < (a + 1) * 10 * 10 ^ length cs" by (rule less_le_trans)
  then show ?case by (simp only: list.size power_Suc mult.assoc add_0_right add_Suc_right)
qed simp

lemma parse_uint_less:
  assumes "parse_uint bound cs = Some n"
  shows "n < 10 ^ length cs"
proof -
  define ds where "ds = (case cs of [] \<Rightarrow> [] | c # cs' \<Rightarrow> if c = CHR ''+'' then cs' else cs)"
  have ds: "dec_acc 0 ds = Some n" "length ds \<le> length cs"
    using assms by (auto simp: parse_uint_def Let_def ds_def [symmetric] split: if_splits option.splits)
      (simp add: ds_def split: list.split)
  then have "n < 10 ^ length ds" using dec_acc_less by fastforce
  also have "\<dots> \<le> 10 ^ length cs" using ds(2) by (simp add: power_increasing)
  finally show ?thesis .
qed

lemma parse_storm_level_out:
  assumes "parse_storm_level s = Inr c"
  obtains w h where "c = show_nat w @ CHR ''.'' # show_2digits h" and "w \<le> 100" and "h < 100"
    and "w = 100 \<Longrightarrow> h = 0"
proof -
  obtain whole frac where wf: "(case split_once (CHR ''.'') s of Some p \<Rightarrow> p | None \<Rightarrow> (s, [])) = (whole, frac)"
    by fastforce
  from assms obtain w h where p: "2 \<ge> length frac"
      "parse_uint (2 ^ 32) (frac @ replicate (2 - length frac) (CHR ''0'')) = Some h"
      "\<not> (100 < w \<or> (w = 100 \<and> 0 < h))" "c = show_nat w @ CHR ''.'' # show_2digits h"
    unfolding parse_storm_level_def Let_def wf by (auto split: if_splits option.splits)
  have "h < 100" using parse_uint_less [OF p(2)] p(1) by simp
  with p show thesis by (intro that [of w h]) auto
qed

lemma parse_storm_level_show:
  assumes "w \<le> 100" and "h < 100" and "w = 100 \<Longrightarrow> h = 0"
  shows "parse_storm_level (show_nat w @ CHR ''.'' # show_2digits h) = Inr (show_nat w @ CHR ''.'' # show_2digits h)"
proof -
  have "split_once (CHR ''.'') (show_nat w @ CHR ''.'' # show_2digits h) = Some (show_nat w, show_2digits h)"
    by (rule split_once_append) (simp add: show_nat_no_char)
  moreover have "length (show_nat w) \<le> 3"
    using assms(1) length_show_nat [of w 3] by simp
  moreover have "w < 2 ^ 32" using assms(1) by simp
  moreover have "parse_uint (2 ^ 32) (show_2digits h @ replicate (2 - length (show_2digits h)) (CHR ''0'')) = Some h"
    using show_2digits(1,3) [OF assms(2)] by simp
  moreover have "\<not> (100 < w \<or> (w = 100 \<and> 0 < h))" using assms by auto
  ultimately show ?thesis
    using show_2digits(1,2) [OF assms(2)] show_nat_all [of w] parse_uint_show_nat [of w "2 ^ 32"]
    by (simp add: parse_storm_level_def)
qed

lemma parse_storm_level_fixed: "parse_storm_level s = Inr c \<Longrightarrow> parse_storm_level c = Inr c"
  by (erule parse_storm_level_out) (simp add: parse_storm_level_show)

section \<open>Value lists\<close>

lemma value_runs_concat:
  assumes "start \<le> e" and "sorted_wrt (<) (e # vs)" and "\<forall>v \<in> set vs. v < 256"
  shows "concat (map (\<lambda>(a, b). [a..<Suc b]) (value_runs start e vs)) = [start..<Suc e] @ vs"
  using assms
proof (induction vs arbitrary: start e)
  case (Cons v vs)
  then have "e < v" "v < 256" by auto
  then have "e + 1 < 256" by simp
  then have wrap: "(e + 1) mod 256 = e + 1" by simp
  show ?case
  proof (cases "v = e + 1")
    case True
    then have "concat (map (\<lambda>(a, b). [a..<Suc b]) (value_runs start v vs)) = [start..<Suc v] @ vs"
      using Cons.IH [of start v] Cons.prems by auto
    with True wrap Cons.prems(1) show ?thesis by simp
  next
    case False
    have "concat (map (\<lambda>(a, b). [a..<Suc b]) (value_runs v v vs)) = [v..<Suc v] @ vs"
      using Cons.IH [of v v] Cons.prems by auto
    with False wrap show ?thesis by simp
  qed
qed simp

lemma value_runs_bounds:
  assumes "start \<le> e" and "sorted_wrt (<) (e # vs)" and "\<forall>v \<in> set (e # vs). v \<le> m" and "m < 256"
    and "(a, b) \<in> set (value_runs start e vs)"
  shows "a \<le> b \<and> b \<le> m"
  using assms
proof (induction vs arbitrary: start e)
  case (Cons v vs)
  then have less: "e < v" "sorted_wrt (<) (v # vs)" "\<forall>x \<in> set (v # vs). x \<le> m" "e \<le> m" by auto
  show ?case
  proof (cases "v = (e + 1) mod 256")
    case True
    with Cons.prems(1,5) less Cons.IH [of start v] assms(4) show ?thesis by auto
  next
    case False
    with Cons.prems(1,5) less Cons.IH [of v v] assms(4) show ?thesis by auto
  qed
qed simp

lemma parse_value_part_run:
  assumes "a \<le> b" and "b \<le> limit" and "limit < 256"
  shows "parse_value_part text limit what (show_run (a, b)) = Inr (a, b)"
proof -
  have dash: "CHR ''-'' \<notin> set (show_nat n)" for n
    by (rule show_nat_no_char) (simp add: is_digit_def code_def)
  have "a < 256" "b < 256" using assms by simp_all
  with assms dash show ?thesis
    by (auto simp: parse_value_part_def show_run_def split_once_append parse_uint_show_nat
        split_once_None_iff [THEN iffD2])
qed

lemma parse_value_parts_runs:
  "\<forall>(a, b) \<in> set rs. a \<le> b \<and> b \<le> limit \<Longrightarrow> limit < 256 \<Longrightarrow>
   parse_value_parts text limit what (map show_run rs) = Inr (concat (map (\<lambda>(a, b). [a..<Suc b]) rs))"
  by (induction rs) (auto simp: parse_value_part_run)

lemma value_runs_not_Nil [simp]: "value_runs s e vs \<noteq> []"
  by (induction vs arbitrary: s e) auto

lemma show_run_props: "show_run r \<noteq> []" "CHR '','' \<notin> set (show_run r)"
proof -
  have "CHR '','' \<notin> set (show_nat n)" for n
    by (rule show_nat_no_char) (simp add: is_digit_def code_def)
  then show "show_run r \<noteq> []" "CHR '','' \<notin> set (show_run r)"
    by (auto simp: show_run_def)
qed

lemma parse_format_value_list:
  assumes "vals \<noteq> []" and "\<forall>v \<in> set vals. v \<le> limit" and "limit < 256"
  shows "parse_value_list (format_value_list vals) limit what = Inr (sorted_list_of_set (set vals))"
proof -
  obtain v vs where s: "sorted_list_of_set (set vals) = v # vs"
    using assms(1) by (cases "sorted_list_of_set (set vals)") auto
  let ?rs = "value_runs v v vs"
  have srt: "sorted_wrt (<) (v # vs)"
    using strict_sorted_list_of_set [of "set vals"] s by simp
  have bnd: "\<forall>x \<in> set (v # vs). x \<le> limit"
    using assms(2) s by (metis finite_set set_sorted_list_of_set)
  have rs: "\<forall>(a, b) \<in> set ?rs. a \<le> b \<and> b \<le> limit"
    using value_runs_bounds [OF order_refl srt bnd assms(3)] by blast
  have split: "split_on (CHR '','') (join_with (CHR '','') (map show_run ?rs)) = map show_run ?rs"
    by (rule split_on_join) (auto simp: show_run_props)
  have nonempty: "join_with (CHR '','') (map show_run ?rs) \<noteq> []"
    by (cases ?rs) (auto simp: join_with_Cons show_run_props)
  have "concat (map (\<lambda>(a, b). [a..<Suc b]) ?rs) = v # vs"
    using value_runs_concat [OF order_refl srt] bnd assms(3) by fastforce
  moreover have "sorted_list_of_set (set (v # vs)) = v # vs"
    using srt by (metis finite_set s set_sorted_list_of_set)
  ultimately show ?thesis
    by (simp add: parse_value_list_def format_value_list_def s split nonempty
        parse_value_parts_runs [OF rs assms(3)])
qed

lemma parse_value_part_bound:
  assumes "parse_value_part text limit what p = Inr (lo, hi)"
  shows "lo \<le> hi \<and> hi \<le> limit"
  using assms unfolding parse_value_part_def
  by (auto split: sum.splits if_splits option.splits prod.splits)

lemma parse_value_parts_bound:
  "parse_value_parts text limit what ps = Inr vs \<Longrightarrow> v \<in> set vs \<Longrightarrow> v \<le> limit"
proof (induction ps arbitrary: vs)
  case (Cons p ps)
  then obtain lo hi ws where "parse_value_part text limit what p = Inr (lo, hi)"
      "parse_value_parts text limit what ps = Inr ws" "vs = [lo..<Suc hi] @ ws"
    by (auto split: sum.splits)
  with Cons.IH [of ws] Cons.prems(2) parse_value_part_bound [of "text" limit what p lo hi] show ?case
    by auto
qed simp

lemma parse_value_parts_nonempty:
  "parse_value_parts text limit what ps = Inr vs \<Longrightarrow> ps \<noteq> [] \<Longrightarrow> vs \<noteq> []"
  by (cases ps) (auto dest: parse_value_part_bound split: sum.splits prod.splits)

section \<open>Properties\<close>

text \<open>A route prefix is accepted exactly when it is the printed form of a network: an address, of
  either family, whose host bits are clear, with a length its family allows. Any accepted text is
  kept as it is, and the canonical form of any prefix is itself accepted.\<close>

lemma canonical_prefix_exact:
  "(require_canonical_prefix s = Inr c \<longleftrightarrow>
      c = s \<and> (\<exists>a len. len \<le> max_len a \<and> network a len = a \<and> s = show_prefix (a, len)))
   \<and> (canonical_prefix s = Inr d \<longrightarrow> require_canonical_prefix d = Inr d)"
proof -
  have "require_canonical_prefix d = Inr d" if "canonical_prefix s = Inr d"
    using canonical_prefix_fixed [OF that] by (simp add: require_canonical_prefix_def)
  then show ?thesis by (simp add: require_canonical_prefix_iff)
qed

lemma canonical_prefix_exact_example:
  "canonical_prefix ''10.42.10.9/24'' = Inr ''10.42.10.0/24''
   \<and> require_canonical_prefix ''10.42.10.0/24'' = Inr ''10.42.10.0/24''"
proof -
  have "parse_ip ''10.42.10.9'' = Some (V4 170527241)" "show_ipv4 170527232 = ''10.42.10.0''"
    by (simp_all add: ip_eval text_eval)
  moreover have "170527241 AND net_mask 24 = (170527232 :: 32 word)"
    by (simp add: net_mask_def push_bit_eq_mult del: push_bit_minus_one_eq_not_mask)
  ultimately have "canonical_prefix ''10.42.10.9/24'' = Inr ''10.42.10.0/24''"
    by (simp add: canonical_prefix_def parse_cidr_def text_eval show_prefix_def max_len_def)
  with canonical_prefix_exact [of "''10.42.10.9/24''" _ "''10.42.10.0/24''"] show ?thesis by simp
qed

text \<open>Two addresses have the same network at a length exactly when they are of one family and
  agree on the leading bits of that length; taking the network twice changes nothing, and the
  network at the full length is the address.\<close>

lemma network_leading_bits:
  "(network a len = network b len \<longleftrightarrow> agree_on len a b)
   \<and> network (network a len) len = network a len \<and> network a (max_len a) = a"
  by (simp add: network_eq_iff network_full)

text \<open>Policer rates, policer bursts and shaper rates survive printing and parsing, in the unit
  they were given, and every value the parsers accept is in the printable range: positive, within
  64 bits, and for a shaper at least the hardware floor.\<close>

lemma rates_roundtrip:
  assumes "0 < r" and "r < u64_bound"
  shows "parse_police_rate (format_police_rate r pps) = Inr (r, pps)
    \<and> parse_police_burst (format_police_burst r pps) = Inr (r, pps)
    \<and> (shape_rate_floor_bps \<le> r \<longrightarrow> parse_shape_rate (format_shape_rate r) = Inr r)
    \<and> (parse_police_rate s = Inr (q, b) \<longrightarrow> 0 < q \<and> q < u64_bound)
    \<and> (parse_shape_rate s = Inr q \<longrightarrow> shape_rate_floor_bps \<le> q \<and> q < u64_bound)"
proof (intro conjI impI)
  show "parse_police_rate (format_police_rate r pps) = Inr (r, pps)"
    using assms by (simp add: parse_police_rate_def format_police_rate_def parse_police_scaled parse_police_count)
  show "parse_police_burst (format_police_burst r pps) = Inr (r, pps)"
    using assms by (simp add: parse_police_burst_def format_police_burst_def parse_police_scaled parse_police_count)
  show "parse_police_rate s = Inr (q, b) \<Longrightarrow> 0 < q" "parse_police_rate s = Inr (q, b) \<Longrightarrow> q < u64_bound"
    by (simp_all add: parse_police_rate_def parse_police_range)
  show "shape_rate_floor_bps \<le> r \<Longrightarrow> parse_shape_rate (format_shape_rate r) = Inr r"
    by (rule parse_shape_format [OF _ assms(2)])
  show "parse_shape_rate s = Inr q \<Longrightarrow> shape_rate_floor_bps \<le> q" "parse_shape_rate s = Inr q \<Longrightarrow> q < u64_bound"
    by (simp_all add: parse_shape_range)
qed

lemma rates_roundtrip_example:
  "parse_police_rate (format_police_rate 10000000 False) = Inr (10000000, False)
   \<and> parse_police_burst (format_police_burst 256 True) = Inr (256, True)
   \<and> parse_shape_rate (format_shape_rate 10000000) = Inr 10000000"
proof -
  have "(10000000::nat) < u64_bound" "(256::nat) < u64_bound" "shape_rate_floor_bps \<le> 10000000"
    "(0::nat) < 10000000" "(0::nat) < 256"
    by (simp_all add: u64_bound_def shape_rate_floor_bps_def)
  then show ?thesis
    using rates_roundtrip [of 10000000 False "[]" 0 False] rates_roundtrip [of 256 True "[]" 0 False] by blast
qed

text \<open>A set of values printed as a compact list parses back to exactly that set, in order and
  without duplicates; and whatever a list parses to is non-empty, in range and prints to a list
  that parses to the same values.\<close>

lemma value_list_roundtrip:
  assumes "vals \<noteq> []" and "\<forall>v \<in> set vals. v \<le> limit" and "limit < 256"
  shows "parse_value_list (format_value_list vals) limit what = Inr (sorted_list_of_set (set vals))
    \<and> (parse_value_list s limit what = Inr vs \<longrightarrow>
         parse_value_list (format_value_list vs) limit what = Inr vs)"
proof (intro conjI impI)
  show "parse_value_list (format_value_list vals) limit what = Inr (sorted_list_of_set (set vals))"
    by (rule parse_format_value_list [OF assms])
next
  assume "parse_value_list s limit what = Inr vs"
  then obtain ws where ws: "parse_value_parts s limit what (split_on (CHR '','') s) = Inr ws"
      "vs = sorted_list_of_set (set ws)"
    by (auto simp: parse_value_list_def split: if_splits sum.splits)
  then have "vs \<noteq> []" "\<forall>v \<in> set vs. v \<le> limit" "sorted_list_of_set (set vs) = vs"
    using parse_value_parts_bound [OF ws(1)] parse_value_parts_nonempty [OF ws(1)] by auto
  with parse_format_value_list [of vs limit what] assms(3)
  show "parse_value_list (format_value_list vs) limit what = Inr vs" by simp
qed

lemma value_list_roundtrip_example:
  "parse_value_list (format_value_list [48, 41, 40, 42, 41]) 63 ''dscp'' =
     Inr (sorted_list_of_set (set [48, 41, 40, 42, 41]))"
  by (rule conjunct1 [OF value_list_roundtrip]) simp_all

end
