(* ===== verification/Common_Link.thy ===== *)
theory Common_Link
  imports Common_Net
begin

text \<open>
  Link parameters (\<^verbatim>\<open>src/src/hemlock-common/src/link.rs\<close>): the speed and duplex tokens of
  a platform's \<open>supported_modes\<close> and the checks on a forced mode and on an MTU. Speeds are
  natural numbers below the bound of \<open>u32\<close>.
\<close>

section \<open>Definitions\<close>

definition min_mtu :: nat where "min_mtu = 68"
definition max_mtu :: nat where "max_mtu = 9216"

definition u32_bound :: nat where
  "u32_bound = 2 ^ 32"

datatype duplex = Full | Half

fun duplex_str :: "duplex \<Rightarrow> string" where
  "duplex_str Full = ''full''"
| "duplex_str Half = ''half''"

definition duplex_parse :: "string \<Rightarrow> duplex option" where
  "duplex_parse word =
     (let w = map to_lower word in
      if w = ''full'' then Some Full else if w = ''half'' then Some Half else None)"

definition valid_mtu :: "nat \<Rightarrow> nat + unit" where
  "valid_mtu mtu = (if min_mtu \<le> mtu \<and> mtu \<le> max_mtu then Inr () else Inl mtu)"

text \<open>\<open>char::is_whitespace\<close> up to U+00FF, and \<open>str::trim\<close>.\<close>

definition is_whitespace :: "char \<Rightarrow> bool" where
  "is_whitespace c \<longleftrightarrow> (9 \<le> code c \<and> code c \<le> 13) \<or> code c = 32 \<or> code c = 133 \<or> code c = 160"

definition trim :: "string \<Rightarrow> string" where
  "trim s = rev (dropWhile is_whitespace (rev (dropWhile is_whitespace s)))"

definition strip_suffix :: "char set \<Rightarrow> string \<Rightarrow> string option" where
  "strip_suffix cs s = (if s \<noteq> [] \<and> last s \<in> cs then Some (butlast s) else None)"

definition parse_speed :: "string \<Rightarrow> nat option" where
  "parse_speed word =
     (let w = trim word in
      case strip_suffix {CHR ''G'', CHR ''g''} w of
        Some digits \<Rightarrow>
          (case parse_uint u32_bound digits of
             None \<Rightarrow> None
           | Some n \<Rightarrow> if n * 1000 < u32_bound then Some (n * 1000) else None)
      | None \<Rightarrow>
          let digits = (case strip_suffix {CHR ''M'', CHR ''m''} w of Some d \<Rightarrow> d | None \<Rightarrow> w) in
          (case parse_uint u32_bound digits of
             None \<Rightarrow> None
           | Some mbps \<Rightarrow> if 0 < mbps then Some mbps else None))"

definition parse_mode :: "string \<Rightarrow> (nat \<times> duplex) option" where
  "parse_mode token =
     (case split_once (CHR ''/'') token of
        None \<Rightarrow> None
      | Some (speed, duplex) \<Rightarrow>
          (case parse_speed speed of
             None \<Rightarrow> None
           | Some s \<Rightarrow> (case duplex_parse duplex of None \<Rightarrow> None | Some d \<Rightarrow> Some (s, d))))"

definition format_speed :: "nat \<Rightarrow> string" where
  "format_speed speed_mbps =
     (if 1000 \<le> speed_mbps \<and> speed_mbps mod 1000 = 0 then show_nat (speed_mbps div 1000) @ ''G''
      else show_nat speed_mbps @ ''M'')"

definition format_mode :: "nat \<Rightarrow> duplex \<Rightarrow> string" where
  "format_mode speed_mbps d = format_speed speed_mbps @ CHR ''/'' # duplex_str d"

definition supported_speeds :: "string list \<Rightarrow> nat list" where
  "supported_speeds modes = sorted_list_of_set (set (map fst (List.map_filter parse_mode modes)))"

definition supported_duplexes :: "string list \<Rightarrow> duplex list" where
  "supported_duplexes modes =
     filter (\<lambda>d. list_ex (\<lambda>(_, d'). d' = d) (List.map_filter parse_mode modes)) [Full, Half]"

definition supports_auto :: "string list \<Rightarrow> bool" where
  "supports_auto modes = list_ex (\<lambda>m. map to_lower m = ''auto'') modes"

definition mode_supported :: "string list \<Rightarrow> nat \<Rightarrow> duplex \<Rightarrow> bool" where
  "mode_supported modes speed_mbps d =
     (list_all (\<lambda>m. map to_lower m = ''auto'') modes
      \<or> list_ex (\<lambda>(s, d'). s = speed_mbps \<and> d' = d) (List.map_filter parse_mode modes))"

section \<open>The mode tokens\<close>

lemma is_digit_not_whitespace: "is_digit c \<Longrightarrow> \<not> is_whitespace c"
  by (auto simp: is_digit_def is_whitespace_def)

lemma trim_show_nat:
  assumes "\<not> is_whitespace u"
  shows "trim (show_nat n @ [u]) = show_nat n @ [u]"
proof -
  have "dropWhile is_whitespace (show_nat n @ [u]) = show_nat n @ [u]"
    using hd_show_nat_digit [of n] is_digit_not_whitespace by (cases "show_nat n") auto
  with assms show ?thesis by (simp add: trim_def)
qed

lemma unit_not_whitespace [simp]: "\<not> is_whitespace (CHR ''G'')" "\<not> is_whitespace (CHR ''M'')"
  by (simp_all add: is_whitespace_def code_def)

lemma parse_format_speed:
  assumes "0 < s" and "s < u32_bound"
  shows "parse_speed (format_speed s) = Some s"
proof (cases "1000 \<le> s \<and> s mod 1000 = 0")
  case True
  then have s: "s div 1000 * 1000 = s" by auto
  have "s div 1000 < u32_bound" using assms(2) by (metis div_le_dividend le_less_trans)
  with True s assms show ?thesis
    by (simp add: format_speed_def parse_speed_def trim_show_nat strip_suffix_def parse_uint_show_nat)
next
  case False
  then have "format_speed s = show_nat s @ ''M''" by (auto simp: format_speed_def)
  with assms show ?thesis
    by (simp add: parse_speed_def trim_show_nat strip_suffix_def parse_uint_show_nat)
qed

lemma duplex_parse_str: "duplex_parse (duplex_str d) = Some d"
  by (cases d) (simp_all add: duplex_parse_def to_lower_def is_upper_def code_def)

lemma parse_format_mode:
  assumes "0 < s" and "s < u32_bound"
  shows "parse_mode (format_mode s d) = Some (s, d)"
proof -
  have "CHR ''/'' \<notin> set (format_speed s)"
    by (auto simp: format_speed_def dest: show_nat_digits)
  with assms show ?thesis
    by (simp add: parse_mode_def format_mode_def split_once_append parse_format_speed duplex_parse_str)
qed

interpretation mode_text: codec "\<lambda>(s, d). format_mode s d" parse_mode "\<lambda>(s, d). 0 < s \<and> s < u32_bound"
  by unfold_locales (auto simp: parse_format_mode)

lemma set_map_filter: "set (List.map_filter f xs) = {y. \<exists>x \<in> set xs. f x = Some y}"
  by (force simp: List.map_filter_def)

text \<open>A zero rate is refused in megabits but accepted in gigabits.\<close>

lemma zero_speed_accepted: "parse_speed ''0G'' = Some 0" "parse_speed ''0M'' = None" "parse_speed ''0'' = None"
  by (simp_all add: parse_speed_def trim_def is_whitespace_def strip_suffix_def text_eval u32_bound_def)

section \<open>Properties\<close>

text \<open>The mode tokens a platform declares are read back exactly, and what the pickers offer is what
  the check accepts: a forced mode is accepted on a port with some forced token exactly when one of
  the tokens denotes it, each accepted speed and duplex is then offered, and the speeds offered are
  in ascending order.\<close>

lemma link_modes_consistent:
  assumes "\<not> list_all (\<lambda>m. map to_lower m = ''auto'') modes" and "0 < s" and "s < u32_bound"
  shows "(mode_supported modes s d \<longleftrightarrow> (s, d) \<in> {p. \<exists>m \<in> set modes. parse_mode m = Some p})
    \<and> (mode_supported modes s d \<longrightarrow> s \<in> set (supported_speeds modes) \<and> d \<in> set (supported_duplexes modes))
    \<and> sorted_wrt (<) (supported_speeds modes) \<and> parse_mode (format_mode s d) = Some (s, d)"
proof -
  have iff: "mode_supported modes s d \<longleftrightarrow> (s, d) \<in> set (List.map_filter parse_mode modes)"
    using assms(1) by (auto simp: mode_supported_def list_ex_iff)
  have "d \<in> set (supported_duplexes modes)" if "(s, d) \<in> set (List.map_filter parse_mode modes)"
    using that by (cases d) (auto simp: supported_duplexes_def list_ex_iff)
  moreover have "s \<in> set (supported_speeds modes)" if "(s, d) \<in> set (List.map_filter parse_mode modes)"
    using that by (force simp: supported_speeds_def)
  moreover have "sorted_wrt (<) (supported_speeds modes)"
    by (simp add: supported_speeds_def)
  ultimately show ?thesis
    using iff parse_format_mode [OF assms(2,3)] by (simp add: set_map_filter)
qed

lemma link_modes_consistent_example:
  "parse_mode (format_mode 1000 Full) = Some (1000, Full)
   \<and> sorted_wrt (<) (supported_speeds [''auto'', ''1G/full''])"
proof -
  have "\<not> list_all (\<lambda>m. map to_lower m = ''auto'') [''auto'', ''1G/full'']" by code_simp
  moreover have "(0::nat) < 1000" "1000 < u32_bound" by (simp_all add: u32_bound_def)
  ultimately show ?thesis using link_modes_consistent by blast
qed

end
