(* ===== verification/Mgmt_Store.thy ===== *)
theory Mgmt_Store
  imports Hemlock_Prelude
begin

text \<open>
  The configuration store of the management daemon
  (\<^verbatim>\<open>src/src/hemlock-mgmtd/src/store.rs\<close>): running, candidate and the rollback ring, one
  file each. The disk is a map from paths to contents. Every operation that changes it may
  fail, in the order the code performs them, so that each \<open>?\<close> of the code is a branch: a
  failing write leaves the file torn, a failing rename leaves both files alone. The JSON text
  of the metadata is written and read by \<open>serde_json\<close>, which is a parameter.
\<close>

section \<open>The disk\<close>

datatype path = Running | RunningMeta | Candidate | RollbackConf nat | RollbackMeta nat

type_synonym disk = "path \<Rightarrow> string option"

text \<open>
  \<open>fail_in = Some k\<close>: the next \<open>k\<close> changes succeed and the one after them fails;
  \<open>torn\<close> is what a failing write leaves in its file.
\<close>

record fs =
  disk :: disk
  fail_in :: "nat option"
  torn :: string

type_synonym 'a io = "fs \<Rightarrow> 'a option \<times> fs"

definition io_return :: "'a \<Rightarrow> 'a io" where
  "io_return x s = (Some x, s)"

definition io_bind :: "'a io \<Rightarrow> ('a \<Rightarrow> 'b io) \<Rightarrow> 'b io" where
  "io_bind m f s = (case m s of (None, s') \<Rightarrow> (None, s') | (Some x, s') \<Rightarrow> f x s')"

definition io_then :: "unit io \<Rightarrow> 'b io \<Rightarrow> 'b io" where
  "io_then m n = io_bind m (\<lambda>_. n)"

text \<open>One change of the disk, or its failure.\<close>

definition change :: "(disk \<Rightarrow> disk) \<Rightarrow> (string \<Rightarrow> disk \<Rightarrow> disk) \<Rightarrow> unit io" where
  "change ok failed s =
     (case fail_in s of
        None \<Rightarrow> (Some (), s\<lparr>disk := ok (disk s)\<rparr>)
      | Some 0 \<Rightarrow> (None, s\<lparr>disk := failed (torn s) (disk s)\<rparr>)
      | Some (Suc k) \<Rightarrow> (Some (), s\<lparr>disk := ok (disk s), fail_in := Some k\<rparr>))"

definition fs_write :: "path \<Rightarrow> string \<Rightarrow> unit io" where
  "fs_write p t = change (\<lambda>d. d(p := Some t)) (\<lambda>garbage d. d(p := Some garbage))"

definition fs_rename :: "path \<Rightarrow> path \<Rightarrow> unit io" where
  "fs_rename p q = change (\<lambda>d. d(q := d p, p := None)) (\<lambda>_ d. d)"

definition exists_file :: "fs \<Rightarrow> path \<Rightarrow> bool" where
  "exists_file s p \<longleftrightarrow> disk s p \<noteq> None"

section \<open>The store\<close>

definition ring_size :: nat where
  "ring_size = 50"

record rollback_meta =
  committed_at :: string
  comment :: string
  meta_user :: string
  meta_client :: string

definition default_meta :: rollback_meta where
  "default_meta = \<lparr>committed_at = [], comment = [], meta_user = [], meta_client = []\<rparr>"

record json =
  to_json :: "rollback_meta \<Rightarrow> string"
  from_json :: "string \<Rightarrow> rollback_meta option"

definition read_meta :: "json \<Rightarrow> fs \<Rightarrow> path \<Rightarrow> rollback_meta" where
  "read_meta js s p =
     (case disk s p of
        None \<Rightarrow> default_meta
      | Some t \<Rightarrow> (case from_json js t of None \<Rightarrow> default_meta | Some m \<Rightarrow> m))"

definition running_meta :: "json \<Rightarrow> fs \<Rightarrow> rollback_meta" where
  "running_meta js s = read_meta js s RunningMeta"

definition read_or_empty :: "fs \<Rightarrow> path \<Rightarrow> string" where
  "read_or_empty s p = (case disk s p of None \<Rightarrow> [] | Some t \<Rightarrow> t)"

definition running :: "fs \<Rightarrow> string" where
  "running s = read_or_empty s Running"

definition candidate :: "fs \<Rightarrow> string" where
  "candidate s = (if exists_file s Candidate then read_or_empty s Candidate else running s)"

definition set_candidate :: "string \<Rightarrow> unit io" where
  "set_candidate t = fs_write Candidate t"

definition discard_candidate :: "unit io" where
  "discard_candidate s = set_candidate (running s) s"

text \<open>One turn of the rotation, and the rotation from \<open>n\<close> down to 1.\<close>

definition rotate_step :: "nat \<Rightarrow> unit io" where
  "rotate_step n s =
     (if exists_file s (RollbackConf n)
      then io_then (fs_rename (RollbackConf n) (RollbackConf (n + 1)))
             (\<lambda>s. if exists_file s (RollbackMeta n)
                   then fs_rename (RollbackMeta n) (RollbackMeta (n + 1)) s
                   else io_return () s) s
      else io_return () s)"

fun rotate :: "nat \<Rightarrow> unit io" where
  "rotate 0 = io_return ()"
| "rotate (Suc n) = io_then (rotate_step (Suc n)) (rotate n)"

definition store_commit :: "json \<Rightarrow> string \<Rightarrow> rollback_meta \<Rightarrow> unit io" where
  "store_commit js new_running meta =
     io_then (rotate (ring_size - 1))
       (io_then (\<lambda>s. fs_write (RollbackConf 1) (running s) s)
         (io_then (\<lambda>s. fs_write (RollbackMeta 1) (to_json js (running_meta js s)) s)
           (io_then (fs_write Running new_running)
             (io_then (fs_write RunningMeta (to_json js meta))
               (set_candidate new_running)))))"

definition rollback :: "fs \<Rightarrow> nat \<Rightarrow> string option" where
  "rollback s n =
     (if exists_file s (RollbackConf n) then Some (read_or_empty s (RollbackConf n)) else None)"

definition list_rollbacks :: "json \<Rightarrow> fs \<Rightarrow> (nat \<times> rollback_meta) list" where
  "list_rollbacks js s =
     map (\<lambda>n. (n, read_meta js s (RollbackMeta n)))
       (filter (\<lambda>n. exists_file s (RollbackConf n)) [1..<Suc ring_size])"

section \<open>Successful operations\<close>

text \<open>What a sequence of changes does to the disk when it reports success.\<close>

lemma change_Some: "change ok failed s = (Some u, s') \<Longrightarrow> disk s' = ok (disk s)"
  by (auto simp: change_def split: option.splits nat.splits)

lemma fs_write_Some: "fs_write p t s = (Some u, s') \<Longrightarrow> disk s' = (disk s)(p := Some t)"
  unfolding fs_write_def by (drule change_Some) simp

lemma fs_rename_Some: "fs_rename p q s = (Some u, s') \<Longrightarrow> disk s' = (disk s)(q := disk s p, p := None)"
  unfolding fs_rename_def by (drule change_Some) simp

lemma io_then_Some:
  assumes "io_then m n s = (Some x, s')"
  obtains s1 where "m s = (Some (), s1)" and "n s1 = (Some x, s')"
  using assms by (auto simp: io_then_def io_bind_def split: prod.splits option.splits)

definition rot_step :: "nat \<Rightarrow> disk \<Rightarrow> disk" where
  "rot_step n d =
     (if d (RollbackConf n) = None then d
      else let d1 = d(RollbackConf (n + 1) := d (RollbackConf n), RollbackConf n := None) in
           if d (RollbackMeta n) = None then d1
           else d1(RollbackMeta (n + 1) := d (RollbackMeta n), RollbackMeta n := None))"

fun rot :: "nat \<Rightarrow> disk \<Rightarrow> disk" where
  "rot 0 d = d"
| "rot (Suc n) d = rot n (rot_step (Suc n) d)"

lemma rotate_step_Some: "rotate_step n s = (Some u, s') \<Longrightarrow> disk s' = rot_step n (disk s)"
  unfolding rotate_step_def
  by (auto simp: rot_step_def exists_file_def io_return_def dest!: fs_rename_Some elim!: io_then_Some
      split: if_splits)

lemma rotate_Some: "rotate n s = (Some u, s') \<Longrightarrow> disk s' = rot n (disk s)"
  by (induction n arbitrary: s) (auto simp: io_return_def elim!: io_then_Some dest!: rotate_step_Some)

definition commit_disk :: "json \<Rightarrow> string \<Rightarrow> rollback_meta \<Rightarrow> disk \<Rightarrow> disk" where
  "commit_disk js t m d =
     (let d1 = rot (ring_size - 1) d in
      d1(RollbackConf 1 := Some (case d1 Running of None \<Rightarrow> [] | Some r \<Rightarrow> r),
         RollbackMeta 1 := Some (to_json js (case d1 RunningMeta of
             None \<Rightarrow> default_meta
           | Some x \<Rightarrow> (case from_json js x of None \<Rightarrow> default_meta | Some y \<Rightarrow> y))),
         Running := Some t,
         RunningMeta := Some (to_json js m),
         Candidate := Some t))"

lemma store_commit_Some:
  assumes "store_commit js t m s = (Some u, s')"
  shows "disk s' = commit_disk js t m (disk s)"
  using assms unfolding store_commit_def set_candidate_def
  by (elim io_then_Some)
    (auto simp: commit_disk_def Let_def running_def running_meta_def read_meta_def read_or_empty_def
      dest!: fs_write_Some rotate_Some)

section \<open>The rotation\<close>

lemma rot_step_other [simp]:
  "rot_step n d Running = d Running" "rot_step n d RunningMeta = d RunningMeta"
  "rot_step n d Candidate = d Candidate"
  by (simp_all add: rot_step_def Let_def)

lemma rot_other [simp]:
  "rot n d Running = d Running" "rot n d RunningMeta = d RunningMeta" "rot n d Candidate = d Candidate"
  by (induction n arbitrary: d) simp_all

text \<open>The entries up to \<open>n\<close> have no gap, and exactly they carry metadata.\<close>

definition gapless :: "nat \<Rightarrow> disk \<Rightarrow> bool" where
  "gapless n d \<longleftrightarrow>
     (\<forall>i. 1 \<le> i \<longrightarrow> i \<le> n \<longrightarrow> d (RollbackConf i) = None \<longrightarrow> d (RollbackConf (i + 1)) = None)
     \<and> (\<forall>i. 1 \<le> i \<longrightarrow> i \<le> n + 1 \<longrightarrow> (d (RollbackConf i) = None \<longleftrightarrow> d (RollbackMeta i) = None))"

lemma gapless_step: "gapless (Suc n) d \<Longrightarrow> gapless n (rot_step (Suc n) d)"
  by (auto simp: gapless_def rot_step_def Let_def)

definition shifted :: "nat \<Rightarrow> (nat \<Rightarrow> 'a option) \<Rightarrow> nat \<Rightarrow> 'a option" where
  "shifted n f i =
     (if i = 0 \<or> n + 1 < i then f i else if n = 0 then f i else if i = 1 then None else f (i - 1))"

lemma rot_entry:
  assumes "gapless n d"
  shows "rot n d (RollbackConf i) = shifted n (\<lambda>j. d (RollbackConf j)) i
    \<and> rot n d (RollbackMeta i) = shifted n (\<lambda>j. d (RollbackMeta j)) i"
  using assms
proof (induction n arbitrary: d)
  case (Suc n)
  note IH = Suc.IH [OF gapless_step [OF Suc.prems]]
  have "d (RollbackConf (Suc n)) = None \<Longrightarrow> d (RollbackConf (Suc (Suc n))) = None"
    "(d (RollbackConf (Suc n)) = None) = (d (RollbackMeta (Suc n)) = None)"
    "(d (RollbackConf (Suc (Suc n))) = None) = (d (RollbackMeta (Suc (Suc n))) = None)"
    using Suc.prems by (auto simp: gapless_def)
  then show ?case
    unfolding rot.simps IH [THEN conjunct1] IH [THEN conjunct2]
    by (cases "i = Suc (Suc n)") (auto simp: shifted_def rot_step_def Let_def)
qed (simp add: shifted_def)

section \<open>The ring as a bounded list\<close>

text \<open>
  What the store promises: a running and a candidate text, and the displaced configurations, newest
  first, of which the last \<open>ring_size\<close> are kept with the metadata of their own commit.
\<close>

record ring_store =
  cur :: string
  cur_meta :: rollback_meta
  cand :: string
  ring :: "(string \<times> rollback_meta) list"

definition ring_commit :: "string \<Rightarrow> rollback_meta \<Rightarrow> ring_store \<Rightarrow> ring_store" where
  "ring_commit t m r =
     \<lparr>cur = t, cur_meta = m, cand = t, ring = take ring_size ((cur r, cur_meta r) # ring r)\<rparr>"

definition ring_entry :: "json \<Rightarrow> fs \<Rightarrow> nat \<Rightarrow> string \<times> rollback_meta" where
  "ring_entry js s n = (read_or_empty s (RollbackConf n), read_meta js s (RollbackMeta n))"

definition store_abs :: "json \<Rightarrow> fs \<Rightarrow> ring_store" where
  "store_abs js s =
     \<lparr>cur = running s, cur_meta = running_meta js s, cand = candidate s,
      ring = map (ring_entry js s) (filter (\<lambda>n. exists_file s (RollbackConf n)) [1..<Suc ring_size])\<rparr>"

text \<open>The ring on disk holds the entries 1 to \<open>k\<close>, each with its metadata.\<close>

definition holds :: "nat \<Rightarrow> fs \<Rightarrow> bool" where
  "holds k s \<longleftrightarrow> k \<le> ring_size
     \<and> (\<forall>n. exists_file s (RollbackConf n) \<longleftrightarrow> 1 \<le> n \<and> n \<le> k)
     \<and> (\<forall>n. exists_file s (RollbackMeta n) \<longleftrightarrow> 1 \<le> n \<and> n \<le> k)"

definition ring_wf :: "fs \<Rightarrow> bool" where
  "ring_wf s \<longleftrightarrow> (\<exists>k. holds k s)"

lemma holds_gapless: "holds k s \<Longrightarrow> gapless n (disk s)"
  unfolding holds_def gapless_def exists_file_def by (metis One_nat_def Suc_eq_plus1 Suc_leD le_SucI)

lemma holds_ring:
  assumes "holds k s"
  shows "ring (store_abs js s) = map (ring_entry js s) [1..<Suc k]"
proof -
  have "filter (\<lambda>n. exists_file s (RollbackConf n)) [1..<Suc ring_size] = [1..<Suc k]"
  proof -
    have "[1..<Suc ring_size] = [1..<Suc k] @ [Suc k..<Suc ring_size]"
      using assms by (metis Suc_le_mono holds_def le_add1 le_add_diff_inverse plus_1_eq_Suc upt_add_eq_append)
    moreover have "filter (\<lambda>n. exists_file s (RollbackConf n)) [1..<Suc k] = [1..<Suc k]"
      using assms by (auto simp: holds_def intro!: filter_True)
    moreover have "filter (\<lambda>n. exists_file s (RollbackConf n)) [Suc k..<Suc ring_size] = []"
      using assms by (auto simp: holds_def filter_empty_conv)
    ultimately show ?thesis by simp
  qed
  then show ?thesis by (simp add: store_abs_def)
qed

lemma commit_entry:
  assumes "holds k s" and "store_commit js t m s = (Some u, s')"
  shows "disk s' (RollbackConf n) =
      (if n = 1 then Some (running s) else if 2 \<le> n \<and> n \<le> ring_size then disk s (RollbackConf (n - 1))
       else disk s (RollbackConf n))"
    and "disk s' (RollbackMeta n) =
      (if n = 1 then Some (to_json js (running_meta js s))
       else if 2 \<le> n \<and> n \<le> ring_size then disk s (RollbackMeta (n - 1)) else disk s (RollbackMeta n))"
  using rot_entry [OF holds_gapless [OF assms(1)], of "ring_size - 1" n]
  by (auto simp: store_commit_Some [OF assms(2)] commit_disk_def Let_def shifted_def ring_size_def
      running_def running_meta_def read_meta_def read_or_empty_def)

lemma holds_commit:
  assumes "holds k s" and "store_commit js t m s = (Some u, s')"
  shows "holds (min ring_size (k + 1)) s'"
proof -
  have c: "disk s (RollbackConf n) \<noteq> None \<longleftrightarrow> 1 \<le> n \<and> n \<le> k"
    "disk s (RollbackMeta n) \<noteq> None \<longleftrightarrow> 1 \<le> n \<and> n \<le> k" for n
    using assms(1) by (simp_all add: holds_def exists_file_def)
  have "k \<le> ring_size" "1 \<le> ring_size" using assms(1) by (simp_all add: holds_def ring_size_def)
  then show ?thesis
    using c unfolding holds_def exists_file_def commit_entry [OF assms] by auto
qed

text \<open>The code refines the bounded list, and keeps the ring well formed.\<close>

lemma commit_refines:
  assumes "holds k s" and "store_commit js t m s = (Some u, s')"
    and json: "\<And>x. from_json js (to_json js x) = Some x"
  shows "store_abs js s' = ring_commit t m (store_abs js s)"
proof -
  have k: "k \<le> ring_size" using assms(1) by (simp add: holds_def)
  have disk': "disk s' Running = Some t" "disk s' RunningMeta = Some (to_json js m)" "disk s' Candidate = Some t"
    using store_commit_Some [OF assms(2)] by (simp_all add: commit_disk_def Let_def)
  have first: "ring_entry js s' 1 = (running s, running_meta js s)"
    using commit_entry [OF assms(1,2), of 1]
    by (simp add: ring_entry_def read_or_empty_def read_meta_def json)
  have rest: "ring_entry js s' (Suc n) = ring_entry js s n" if "1 \<le> n" "Suc n \<le> ring_size" for n
    using commit_entry [OF assms(1,2), of "Suc n"] that
    by (simp add: ring_entry_def read_or_empty_def read_meta_def)
  let ?k = "min ring_size (k + 1)"
  have "1 \<le> ?k" by (simp add: ring_size_def)
  then have "[1..<Suc ?k] = 1 # [2..<Suc ?k]"
    using upt_conv_Cons [of 1 "Suc ?k"] by (simp add: numeral_2_eq_2 del: upt_Suc)
  then have "map (ring_entry js s') [1..<Suc ?k] = ring_entry js s' 1 # map (ring_entry js s') [2..<Suc ?k]"
    by (simp del: upt_Suc)
  also have "[2..<Suc ?k] = map Suc [1..<?k]"
    by (simp add: map_Suc_upt numeral_2_eq_2)
  also have "map (ring_entry js s') (map Suc [1..<?k]) = map (ring_entry js s) [1..<?k]"
    using rest by auto
  also have "[1..<?k] = take 49 [1..<Suc k]"
    using k by (cases "49 \<le> k") (simp_all add: take_upt ring_size_def min_def del: upt_Suc)
  also have "(ring_entry js s' 1 # map (ring_entry js s) (take 49 [1..<Suc k])) =
      take ring_size ((running s, running_meta js s) # map (ring_entry js s) [1..<Suc k])"
    unfolding first by (simp add: ring_size_def take_map del: upt_Suc)
  finally show ?thesis
    using holds_ring [OF holds_commit [OF assms(1,2)], of js] holds_ring [OF assms(1), of js]
    by (simp add: store_abs_def ring_commit_def running_def running_meta_def candidate_def read_or_empty_def
        read_meta_def exists_file_def disk' json)
qed

section \<open>Interrupted operations\<close>

lemma io_then_cases:
  assumes "io_then m n s = (r, s')"
  obtains (failed) "m s = (None, s')" and "r = None" | (ok) s1 where "m s = (Some (), s1)" and "n s1 = (r, s')"
  using assms by (auto simp: io_then_def io_bind_def split: prod.splits option.splits)

lemma change_cases:
  assumes "change ok failed s = (r, s')"
  shows "torn s' = torn s" and "disk s' = (if r = None then failed (torn s) (disk s) else ok (disk s))"
  using assms by (auto simp: change_def split: option.splits nat.splits)

lemma fs_write_cases:
  assumes "fs_write p t s = (r, s')"
  shows "torn s' = torn s" and "disk s' = (disk s)(p := Some (if r = None then torn s else t))"
  using change_cases [OF assms [unfolded fs_write_def]] by auto

lemma fs_rename_cases:
  assumes "fs_rename p q s = (r, s')"
  shows "torn s' = torn s" and "disk s' = (if r = None then disk s else (disk s)(q := disk s p, p := None))"
  using change_cases [OF assms [unfolded fs_rename_def]] by auto

text \<open>
  A rotation, finished or not, touches the ring only, and an entry below its end is either where it
  was or one place further.
\<close>

lemma rotate_step_cases:
  assumes "rotate_step n s = (r, s')"
  shows "torn s' = torn s \<and> disk s' Running = disk s Running \<and> disk s' RunningMeta = disk s RunningMeta
      \<and> disk s' Candidate = disk s Candidate"
    and "i \<noteq> n \<Longrightarrow> i \<noteq> n + 1 \<Longrightarrow> disk s' (RollbackConf i) = disk s (RollbackConf i)"
    and "disk s (RollbackConf n) = Some x \<Longrightarrow>
      (if r = None then disk s' (RollbackConf n) = Some x \<or> disk s' (RollbackConf (n + 1)) = Some x
       else disk s' (RollbackConf (n + 1)) = Some x)"
  using assms unfolding rotate_step_def
  by (auto simp: exists_file_def io_return_def fs_rename_cases elim!: io_then_cases split: if_splits)

lemma rotate_frame:
  assumes "rotate n s = (r, s')"
  shows "torn s' = torn s \<and> disk s' Running = disk s Running \<and> disk s' RunningMeta = disk s RunningMeta
    \<and> disk s' Candidate = disk s Candidate
    \<and> (\<forall>i. n + 1 < i \<longrightarrow> disk s' (RollbackConf i) = disk s (RollbackConf i))"
  using assms
proof (induction n arbitrary: s)
  case (Suc n)
  from Suc.prems show ?case unfolding rotate.simps
  proof (cases rule: io_then_cases)
    case failed
    then show ?thesis using rotate_step_cases(1,2) [OF failed(1)] by simp
  next
    case (ok s1)
    then show ?thesis using rotate_step_cases(1,2) [OF ok(1)] Suc.IH [OF ok(2)] by simp
  qed
qed (simp add: io_return_def)

lemma rotate_keeps:
  assumes "rotate n s = (r, s')" and "1 \<le> i" and "i \<le> n" and "disk s (RollbackConf i) = Some x"
  shows "disk s' (RollbackConf (i + 1)) = Some x \<or> r = None \<and> disk s' (RollbackConf i) = Some x"
  using assms
proof (induction n arbitrary: s)
  case (Suc n)
  from Suc.prems(1) show ?case unfolding rotate.simps
  proof (cases rule: io_then_cases)
    case failed
    then show ?thesis
      using rotate_step_cases(2,3) [OF failed(1)] Suc.prems(3,4) by (cases "i = Suc n") auto
  next
    case (ok s1)
    show ?thesis
    proof (cases "i = Suc n")
      case True
      then show ?thesis
        using rotate_step_cases(3) [OF ok(1)] rotate_frame [OF ok(2)] Suc.prems(4) by auto
    next
      case False
      then have "disk s1 (RollbackConf i) = Some x"
        using rotate_step_cases(2) [OF ok(1), of i] Suc.prems(3,4) by auto
      with False Suc.IH [OF ok(2)] Suc.prems(2,3) show ?thesis by auto
    qed
  qed
qed simp

text \<open>A predicate that every change of a sequence keeps holds after it, finished or not.\<close>

definition keeps :: "(fs \<Rightarrow> bool) \<Rightarrow> 'a io \<Rightarrow> bool" where
  "keeps P m \<longleftrightarrow> (\<forall>s r s'. m s = (r, s') \<longrightarrow> P s \<longrightarrow> P s')"

lemma keepsD: "keeps P m \<Longrightarrow> m s = (r, s') \<Longrightarrow> P s \<Longrightarrow> P s'"
  by (auto simp: keeps_def)

lemma keeps_then: "keeps P m \<Longrightarrow> keeps P n \<Longrightarrow> keeps P (io_then m n)"
  unfolding keeps_def by (metis io_then_cases)

lemma keeps_write: "p \<noteq> q \<Longrightarrow> keeps (\<lambda>z. disk z q = x) (\<lambda>s. fs_write p (f s) s)"
  by (auto simp: keeps_def fs_write_cases)

lemma commit_tail_keeps:
  assumes "io_then (\<lambda>s. fs_write (RollbackMeta 1) (f s) s)
         (io_then (fs_write Running t) (io_then (fs_write RunningMeta x) (set_candidate t))) s = (r, s')"
  shows "disk s' (RollbackConf n) = disk s (RollbackConf n)"
proof -
  let ?P = "\<lambda>z. disk z (RollbackConf n) = disk s (RollbackConf n)"
  have "keeps ?P (\<lambda>s. fs_write (RollbackMeta 1) (f s) s)" "keeps ?P (fs_write Running t)"
    "keeps ?P (fs_write RunningMeta x)" "keeps ?P (set_candidate t)"
    using keeps_write [of Running _ _ "\<lambda>_. t"] keeps_write [of RunningMeta _ _ "\<lambda>_. x"]
      keeps_write [of Candidate _ _ "\<lambda>_. t"] by (auto simp: set_candidate_def intro: keeps_write)
  then have "keeps ?P (io_then (\<lambda>s. fs_write (RollbackMeta 1) (f s) s)
      (io_then (fs_write Running t) (io_then (fs_write RunningMeta x) (set_candidate t))))"
    by (intro keeps_then)
  from keepsD [OF this assms] show ?thesis by simp
qed

lemma commit_after_rotation:
  assumes "io_then (\<lambda>s. fs_write (RollbackConf 1) (running s) s)
       (io_then (\<lambda>s. fs_write (RollbackMeta 1) (to_json js (running_meta js s)) s)
         (io_then (fs_write Running t) (io_then (fs_write RunningMeta (to_json js m)) (set_candidate t)))) s = (r, s')"
  shows "disk s' Running = disk s Running \<or> disk s' (RollbackConf 1) = Some (running s)"
    and "n \<noteq> 1 \<Longrightarrow> disk s' (RollbackConf n) = disk s (RollbackConf n)"
proof -
  show "disk s' Running = disk s Running \<or> disk s' (RollbackConf 1) = Some (running s)"
    using assms
  proof (cases rule: io_then_cases)
    case (ok s1)
    then show ?thesis using fs_write_cases(2) [OF ok(1)] commit_tail_keeps [OF ok(2), of 1] by simp
  qed (simp add: fs_write_cases)
  show "n \<noteq> 1 \<Longrightarrow> disk s' (RollbackConf n) = disk s (RollbackConf n)"
    using assms
  proof (cases rule: io_then_cases)
    case (ok s1)
    then show "n \<noteq> 1 \<Longrightarrow> ?thesis" using fs_write_cases(2) [OF ok(1)] commit_tail_keeps [OF ok(2), of n] by simp
  qed (simp add: fs_write_cases)
qed

lemma store_commit_keeps:
  assumes "store_commit js t m s = (r, s')"
  shows "running s' = running s \<or> rollback s' 1 = Some (running s)"
    and "1 \<le> n \<Longrightarrow> n < ring_size \<Longrightarrow> rollback s n = Some x \<Longrightarrow>
      rollback s' n = Some x \<or> rollback s' (n + 1) = Some x"
proof -
  have old: "rollback s n = Some x \<longleftrightarrow> disk s (RollbackConf n) = Some x" for s n x
    by (auto simp: rollback_def exists_file_def read_or_empty_def)
  have run: "running s' = running s" if "disk s' Running = disk s Running" for s s'
    using that by (simp add: running_def read_or_empty_def)
  from assms show "running s' = running s \<or> rollback s' 1 = Some (running s)"
    unfolding store_commit_def
  proof (cases rule: io_then_cases)
    case failed
    then show ?thesis using rotate_frame [OF failed(1)] run [of s' s] by simp
  next
    case (ok s1)
    from rotate_frame [OF ok(1)] have "disk s1 Running = disk s Running" by simp
    then have "running s1 = running s" by (rule run)
    with commit_after_rotation(1) [OF ok(2)] run [of s' s1] show ?thesis by (auto simp: old)
  qed
  assume n: "1 \<le> n" "n < ring_size" "rollback s n = Some x"
  from assms show "rollback s' n = Some x \<or> rollback s' (n + 1) = Some x"
    unfolding store_commit_def
  proof (cases rule: io_then_cases)
    case failed
    then show ?thesis using rotate_keeps [OF failed(1), of n x] n by (auto simp: old)
  next
    case (ok s1)
    then show ?thesis
      using rotate_keeps [OF ok(1), of n x] commit_after_rotation(2) [OF ok(2), of "n + 1"] n by (auto simp: old)
  qed
qed

section \<open>The contract\<close>

text \<open>
  What the commit engine relies on: a commit that succeeds makes its text current and pushes the
  text it displaces; loading a text changes the candidate only.
\<close>

fun run_commits :: "(string \<Rightarrow> 's \<Rightarrow> 's \<Rightarrow> bool) \<Rightarrow> string list \<Rightarrow> 's \<Rightarrow> 's \<Rightarrow> bool" where
  "run_commits c [] s s' \<longleftrightarrow> s' = s"
| "run_commits c (t # ts) s s' \<longleftrightarrow> (\<exists>s1. c t s s1 \<and> run_commits c ts s1 s')"

locale versioned_store =
  fixes inv :: "'s \<Rightarrow> bool"
    and current :: "'s \<Rightarrow> string"
    and pending :: "'s \<Rightarrow> string"
    and version :: "'s \<Rightarrow> nat \<Rightarrow> string option"
    and commits :: "string \<Rightarrow> 's \<Rightarrow> 's \<Rightarrow> bool"
    and loads :: "string \<Rightarrow> 's \<Rightarrow> 's \<Rightarrow> bool"
    and depth :: nat
  assumes commit_inv: "inv s \<Longrightarrow> commits t s s' \<Longrightarrow> inv s'"
    and commit_current: "commits t s s' \<Longrightarrow> current s' = t"
    and commit_pending: "commits t s s' \<Longrightarrow> pending s' = t"
    and commit_back: "inv s \<Longrightarrow> commits t s s' \<Longrightarrow> 1 \<le> n \<Longrightarrow> n \<le> depth \<Longrightarrow>
      version s' n = (if n = 1 then Some (current s) else version s (n - 1))"
    and load_inv: "inv s \<Longrightarrow> loads t s s' \<Longrightarrow> inv s'"
    and load_current: "loads t s s' \<Longrightarrow> current s' = current s"
    and load_pending: "loads t s s' \<Longrightarrow> pending s' = t"
    and load_back: "loads t s s' \<Longrightarrow> version s' n = version s n"
    and depth_pos: "1 \<le> depth"
begin

text \<open>Committing, loading the previous version and committing again undoes the first commit.\<close>

lemma undo:
  assumes "inv s" and "commits t s s1" and "version s1 1 = Some x" and "loads x s1 s2"
    and "commits (pending s2) s2 s3"
  shows "current s3 = current s" and "version s3 1 = Some t"
proof -
  from assms depth_pos have x: "x = current s"
    using commit_back [OF assms(1,2), of 1] by simp
  show "current s3 = current s"
    using commit_current [OF assms(5)] load_pending [OF assms(4)] x by simp
  have "inv s2" using assms(1,2,4) commit_inv load_inv by blast
  then show "version s3 1 = Some t"
    using commit_back [OF _ assms(5), of 1] depth_pos load_current [OF assms(4)] commit_current [OF assms(2)]
    by simp
qed

text \<open>After a series of commits the versions kept are the latest ones, newest first.\<close>

lemma history:
  assumes "inv s" and "run_commits commits ts s s'" and "n \<le> length ts" and "n \<le> depth"
  shows "(if n = 0 then Some (current s') else version s' n) = Some (rev (current s # ts) ! n)"
  using assms
proof (induction ts arbitrary: s)
  case (Cons t ts)
  then obtain s1 where s1: "commits t s s1" "run_commits commits ts s1 s'" by auto
  have inv: "inv s1" using Cons.prems(1) s1(1) commit_inv by blast
  show ?case
  proof (cases "n \<le> length ts")
    case True
    with Cons.IH [OF inv s1(2) _ Cons.prems(4)] commit_current [OF s1(1)] show ?thesis
      by (simp add: nth_append)
  next
    case False
    with Cons.prems(3) have n: "n = Suc (length ts)" by simp
    have "version s' (m + length ts) = version s1 m" if "1 \<le> m" "m + length ts \<le> depth" for m
      using inv s1(2) that
    proof (induction ts arbitrary: s1 m)
      case (Cons u us)
      then obtain s2 where s2: "commits u s1 s2" "run_commits commits us s2 s'" by auto
      with Cons.IH [of s2 "Suc m"] Cons.prems commit_inv commit_back [OF Cons.prems(1) s2(1), of "Suc m"]
      show ?case by auto
    qed simp
    from this [of 1] n Cons.prems(4) commit_back [OF Cons.prems(1) s1(1), of 1] depth_pos show ?thesis
      by (simp add: nth_append)
  qed
qed simp

end

definition commits_to :: "json \<Rightarrow> string \<Rightarrow> fs \<Rightarrow> fs \<Rightarrow> bool" where
  "commits_to js t s s' \<longleftrightarrow> (\<exists>m. store_commit js t m s = (Some (), s'))"

definition loads_to :: "string \<Rightarrow> fs \<Rightarrow> fs \<Rightarrow> bool" where
  "loads_to t s s' \<longleftrightarrow> set_candidate t s = (Some (), s')"

lemma commit_texts:
  assumes "store_commit js t m s = (Some u, s')"
  shows "running s' = t" and "candidate s' = t"
  using store_commit_Some [OF assms]
  by (simp_all add: running_def candidate_def exists_file_def read_or_empty_def commit_disk_def Let_def)

lemma commit_rollbacks:
  assumes "ring_wf s" and "store_commit js t m s = (Some u, s')" and "1 \<le> n" and "n \<le> ring_size"
  shows "rollback s' n = (if n = 1 then Some (running s) else rollback s (n - 1))"
proof -
  obtain k where "holds k s" using assms(1) by (auto simp: ring_wf_def)
  from commit_entry(1) [OF this assms(2), of n] assms(3,4) show ?thesis
    by (cases "n = 1") (simp_all add: rollback_def exists_file_def read_or_empty_def)
qed

lemma set_candidate_Some:
  assumes "set_candidate t s = (Some u, s')"
  shows "running s' = running s" and "candidate s' = t" and "rollback s' n = rollback s n"
    and "holds k s' = holds k s" and "read_meta js s' RunningMeta = read_meta js s RunningMeta"
  using fs_write_Some [OF assms [unfolded set_candidate_def]]
  by (simp_all add: running_def candidate_def exists_file_def read_or_empty_def rollback_def holds_def read_meta_def)

interpretation store: versioned_store ring_wf running candidate rollback "commits_to js" loads_to ring_size for js
proof
  show "ring_wf s \<Longrightarrow> commits_to js t s s' \<Longrightarrow> ring_wf s'" for s t s'
    using holds_commit by (fastforce simp: ring_wf_def commits_to_def)
  show "commits_to js t s s' \<Longrightarrow> running s' = t" "commits_to js t s s' \<Longrightarrow> candidate s' = t" for s t s'
    by (auto simp: commits_to_def commit_texts)
  show "ring_wf s \<Longrightarrow> commits_to js t s s' \<Longrightarrow> 1 \<le> n \<Longrightarrow> n \<le> ring_size \<Longrightarrow>
      rollback s' n = (if n = 1 then Some (running s) else rollback s (n - 1))" for s t s' n
    unfolding commits_to_def using commit_rollbacks by blast
  show "ring_wf s \<Longrightarrow> loads_to t s s' \<Longrightarrow> ring_wf s'" "loads_to t s s' \<Longrightarrow> running s' = running s"
    "loads_to t s s' \<Longrightarrow> candidate s' = t" "loads_to t s s' \<Longrightarrow> rollback s' n = rollback s n" for s t s' n
    by (auto simp: loads_to_def ring_wf_def set_candidate_Some)
qed (simp add: ring_size_def)

text \<open>A commit on a disk that does not fail succeeds.\<close>

definition sound :: "unit io \<Rightarrow> bool" where
  "sound m \<longleftrightarrow> (\<forall>s. fail_in s = None \<longrightarrow> (\<exists>s'. m s = (Some (), s') \<and> fail_in s' = None))"

lemma sound_then: "sound m \<Longrightarrow> sound n \<Longrightarrow> sound (io_then m n)"
  unfolding sound_def io_then_def io_bind_def by (metis (mono_tags, lifting) option.simps(5) prod.case)

lemma sound_write: "sound (\<lambda>s. fs_write p (f s) s)"
  by (simp add: sound_def fs_write_def change_def)

lemma sound_rename: "sound (fs_rename p q)"
  by (simp add: sound_def fs_rename_def change_def)

lemma sound_skip: "sound (io_return ())"
  by (simp add: sound_def io_return_def)

lemma sound_if: "sound m \<Longrightarrow> sound n \<Longrightarrow> sound (\<lambda>s. if b s then m s else n s)"
  by (auto simp: sound_def)

lemma sound_rotate: "sound (rotate n)"
proof (induction n)
  case (Suc n)
  have "sound (rotate_step (Suc n))"
    unfolding rotate_step_def by (intro sound_if sound_then sound_rename sound_skip)
  with Suc show ?case by (simp add: sound_then)
qed (simp add: sound_skip)

lemma sound_commit: "sound (store_commit js t m)"
  unfolding store_commit_def set_candidate_def
  by (intro sound_then sound_rotate sound_write sound_write [where f = "\<lambda>_. t"]
      sound_write [where f = "\<lambda>_. to_json js m"])

section \<open>Properties\<close>

text \<open>C1. A commit that succeeds implements the bounded rollback list: the new text becomes running and
  candidate, the displaced configuration is pushed in front with the metadata of its own commit, the
  older ones move one place back and only the newest fifty are kept. The ring on disk stays without
  gaps, and on a disk that does not fail the commit succeeds. The JSON library is assumed to read
  back what it wrote.\<close>

theorem store_commit_refines_ring:
  assumes "ring_wf s" and json: "\<And>x. from_json js (to_json js x) = Some x"
  shows "(store_commit js t m s = (Some (), s') \<longrightarrow>
      store_abs js s' = ring_commit t m (store_abs js s) \<and> ring_wf s')
    \<and> (fail_in s = None \<longrightarrow> fst (store_commit js t m s) = Some ())"
proof -
  obtain k where k: "holds k s" using assms(1) by (auto simp: ring_wf_def)
  have "store_abs js s' = ring_commit t m (store_abs js s) \<and> ring_wf s'"
    if "store_commit js t m s = (Some (), s')"
    using commit_refines [OF k that json] holds_commit [OF k that] by (auto simp: ring_wf_def)
  moreover have "fst (store_commit js t m s) = Some ()" if "fail_in s = None"
    using sound_commit [of js t m] that unfolding sound_def by (metis fst_conv)
  ultimately show ?thesis by blast
qed

definition quoted :: "string \<Rightarrow> string" where
  "quoted f = concat (map (\<lambda>c. [CHR ''.'', c]) f) @ '';''"

fun unquoted :: "string \<Rightarrow> (string \<times> string) option" where
  "unquoted [] = None"
| "unquoted [a] = (if a = CHR '';'' then Some ([], []) else None)"
| "unquoted (a # c # cs) =
     (if a = CHR '';'' then Some ([], c # cs)
      else case unquoted cs of None \<Rightarrow> None | Some (f, rest) \<Rightarrow> Some (c # f, rest))"

definition plain_json :: json where
  "plain_json =
     \<lparr>to_json = (\<lambda>m. quoted (committed_at m) @ quoted (comment m) @ quoted (meta_user m) @ quoted (meta_client m)),
      from_json = (\<lambda>t.
        Option.bind (unquoted t) (\<lambda>(a, t).
        Option.bind (unquoted t) (\<lambda>(b, t).
        Option.bind (unquoted t) (\<lambda>(c, t).
        Option.bind (unquoted t) (\<lambda>(d, t).
          Some \<lparr>committed_at = a, comment = b, meta_user = c, meta_client = d\<rparr>)))))\<rparr>"

lemma unquoted_quoted: "unquoted (quoted f @ rest) = Some (f, rest)"
proof (induction f)
  case Nil
  then show ?case by (cases rest) (simp_all add: quoted_def)
next
  case (Cons c f)
  then show ?case by (simp add: quoted_def)
qed

lemma plain_json_reads: "from_json plain_json (to_json plain_json x) = Some x"
  using unquoted_quoted [of _ "[]"] by (simp add: plain_json_def unquoted_quoted)

definition empty_fs :: fs where
  "empty_fs = \<lparr>disk = (\<lambda>_. None), fail_in = None, torn = []\<rparr>"

lemma empty_fs_wf: "ring_wf empty_fs"
  by (auto simp: ring_wf_def holds_def exists_file_def empty_fs_def intro!: exI [of _ 0])

theorem store_commit_refines_ring_witness:
  "ring (store_abs plain_json (snd (store_commit plain_json ''new'' default_meta empty_fs))) = [([], default_meta)]"
proof -
  let ?c = "store_commit plain_json ''new'' default_meta empty_fs"
  note refines = store_commit_refines_ring [OF empty_fs_wf, of plain_json, OF plain_json_reads]
  have "fst ?c = Some ()" using refines by (simp add: empty_fs_def)
  then have "?c = (Some (), snd ?c)" by (metis prod.collapse)
  with refines have "store_abs plain_json (snd ?c) = ring_commit ''new'' default_meta (store_abs plain_json empty_fs)"
    by blast
  then show ?thesis
    by (simp add: ring_commit_def store_abs_def empty_fs_def exists_file_def running_def read_or_empty_def
        running_meta_def read_meta_def ring_size_def)
qed

text \<open>C10. No configuration is lost when a commit is interrupted. Whatever file operation fails, and
  whatever a failed write leaves behind, the configuration that was running is afterwards still
  running or is the first rollback point, and every rollback point but the oldest is still there,
  in its place or one place further.\<close>

theorem interrupted_commit_keeps_configurations:
  assumes "store_commit js t m s = (r, s')"
  shows "(running s' = running s \<or> rollback s' 1 = Some (running s))
    \<and> (1 \<le> n \<and> n < ring_size \<and> rollback s n = Some x \<longrightarrow>
         rollback s' n = Some x \<or> rollback s' (n + 1) = Some x)"
  using store_commit_keeps [OF assms] by blast

definition failing_fs :: fs where
  "failing_fs = \<lparr>disk = (\<lambda>_. None)(Running := Some ''one'', RollbackConf 1 := Some ''zero''), fail_in = Some 3, torn = []\<rparr>"

theorem interrupted_commit_keeps_configurations_witness:
  "(let s' = snd (store_commit plain_json ''two'' default_meta failing_fs) in
     (running s' = ''one'' \<or> rollback s' 1 = Some ''one'')
     \<and> (rollback s' 1 = Some ''zero'' \<or> rollback s' 2 = Some ''zero''))"
proof -
  have "running failing_fs = ''one''" "rollback failing_fs 1 = Some ''zero''" "1 < ring_size"
    by (simp_all add: failing_fs_def running_def rollback_def read_or_empty_def exists_file_def ring_size_def)
  with interrupted_commit_keeps_configurations [of plain_json "''two''" default_meta failing_fs _ _ 1 "''zero''",
      OF prod.collapse [symmetric]]
  show ?thesis by (simp add: Let_def numeral_2_eq_2)
qed

text \<open>After a series of commits the running configuration is the last one committed and rollback
  point \<open>n\<close> is the configuration that was committed \<open>n\<close> commits earlier, back to the
  configuration before the series, for every \<open>n\<close> within the ring.\<close>

lemma rollback_history:
  assumes "ring_wf s" and "run_commits (commits_to js) ts s s'" and "n \<le> length ts" and "n \<le> ring_size"
  shows "(if n = 0 then Some (running s') else rollback s' n) = Some (rev (running s # ts) ! n)"
  using assms by (rule store.history)

lemma rollback_history_example:
  "\<exists>s'. run_commits (commits_to plain_json) [''a'', ''b''] empty_fs s'
     \<and> running s' = ''b'' \<and> rollback s' 1 = Some ''a'' \<and> rollback s' 2 = Some []"
proof -
  have "fail_in empty_fs = None" "running empty_fs = []"
    by (simp_all add: empty_fs_def running_def read_or_empty_def)
  then obtain s1 s2 where "store_commit plain_json ''a'' default_meta empty_fs = (Some (), s1)"
      "store_commit plain_json ''b'' default_meta s1 = (Some (), s2)"
    using sound_commit unfolding sound_def by metis
  then have run: "run_commits (commits_to plain_json) [''a'', ''b''] empty_fs s2"
    by (auto simp: commits_to_def)
  with rollback_history [OF empty_fs_wf run, of 0] rollback_history [OF empty_fs_wf run, of 1]
    rollback_history [OF empty_fs_wf run, of 2] \<open>running empty_fs = []\<close>
  show ?thesis by (auto simp: ring_size_def)
qed

end
