(* ===== verification/Mgmt_Sessions.thy ===== *)
theory Mgmt_Sessions
  imports Hemlock_Prelude
begin

text \<open>
  Login roles (\<^verbatim>\<open>src/src/hemlock-common/src/role.rs\<close>) and the table of live sessions
  (\<^verbatim>\<open>src/src/hemlock-mgmtd/src/sessions.rs\<close>). The clocks an operation reads are
  arguments: \<open>now\<close> for \<open>Instant::now()\<close>, \<open>wall\<close> for \<open>SystemTime::now()\<close>.
\<close>

section \<open>Roles\<close>

datatype role = Admin | Operator

fun role_str :: "role \<Rightarrow> string" where
  "role_str Admin = ''admin''"
| "role_str Operator = ''operator''"

definition role_parse :: "string \<Rightarrow> role option" where
  "role_parse t = (if t = ''admin'' then Some Admin else if t = ''operator'' then Some Operator else None)"

fun is_admin :: "role \<Rightarrow> bool" where
  "is_admin Admin = True"
| "is_admin Operator = False"

interpretation role_text: codec role_str role_parse "\<lambda>_. True"
proof
  show "role_parse (role_str r) = Some r" for r by (cases r) (simp_all add: role_parse_def)
qed

section \<open>Sessions\<close>

definition stale_after :: duration where
  "stale_after = from_secs (36 * 60 * 60)"

record session =
  s_user :: string
  s_role :: role
  s_client :: string
  s_from :: string
  login_time :: nat
  last_active :: instant

definition idle :: "session \<Rightarrow> instant \<Rightarrow> nat" where
  "idle s now = as_secs (since now (last_active s))"

record sessions =
  next_id :: u64
  live :: "(u64, session) btree"

definition new_sessions :: sessions where
  "new_sessions = \<lparr>next_id = 0, live = []\<rparr>"

definition reap :: "instant \<Rightarrow> sessions \<Rightarrow> sessions" where
  "reap now t = t\<lparr>live := bt_retain (\<lambda>_ s. since now (last_active s) < stale_after) (live t)\<rparr>"

definition open_session ::
  "string \<Rightarrow> role \<Rightarrow> string \<Rightarrow> string \<Rightarrow> instant \<Rightarrow> nat \<Rightarrow> instant \<Rightarrow> sessions \<Rightarrow> u64 \<times> sessions" where
  "open_session user r client from now wall now' t =
     (let t1 = reap now t; i = next_id t1 + 1 in
      (i, t1\<lparr>next_id := i,
             live := bt_insert i \<lparr>s_user = user, s_role = r, s_client = client, s_from = from,
                                  login_time = wall, last_active = now'\<rparr> (live t1)\<rparr>))"

definition touch :: "u64 \<Rightarrow> instant \<Rightarrow> sessions \<Rightarrow> bool \<times> sessions" where
  "touch i now t =
     (let t1 = reap now t in
      case bt_get (live t1) i of
        None \<Rightarrow> (False, t1)
      | Some _ \<Rightarrow> (True, t1\<lparr>live := bt_update i (\<lambda>s. s\<lparr>last_active := now\<rparr>) (live t1)\<rparr>))"

definition close_session :: "u64 \<Rightarrow> sessions \<Rightarrow> sessions" where
  "close_session i t = t\<lparr>live := bt_remove i (live t)\<rparr>"

definition list_sessions :: "instant \<Rightarrow> sessions \<Rightarrow> (u64 \<times> session) list \<times> sessions" where
  "list_sessions now t =
     (let t1 = reap now t in
      (sort_key (\<lambda>p. (login_time (snd p), fst p)) (live t1), t1))"

definition set_role :: "string \<Rightarrow> role \<Rightarrow> sessions \<Rightarrow> sessions" where
  "set_role user r t =
     t\<lparr>live := bt_map (\<lambda>_ s. if s_user s = user then s\<lparr>s_role := r\<rparr> else s) (live t)\<rparr>"

section \<open>The table stays well formed\<close>

definition sessions_wf :: "sessions \<Rightarrow> bool" where
  "sessions_wf t \<longleftrightarrow> bt_wf (live t) \<and> (\<forall>i. i \<in> set (bt_keys (live t)) \<longrightarrow> i \<le> next_id t)"

lemma set_keys_retain: "i \<in> set (bt_keys (bt_retain P m)) \<Longrightarrow> i \<in> set (bt_keys m)"
  by (auto simp: bt_retain_def)

lemma set_keys_remove: "i \<in> set (bt_keys (bt_remove k m)) \<Longrightarrow> i \<in> set (bt_keys m)"
  by (auto simp: bt_remove_def)

lemma reap_wf: "sessions_wf t \<Longrightarrow> sessions_wf (reap now t)"
  using set_keys_retain unfolding sessions_wf_def reap_def by fastforce

lemma next_id_reap [simp]: "next_id (reap now t) = next_id t"
  by (simp add: reap_def)

lemma word_less_Suc:
  fixes x :: "'a::len word"
  assumes "x \<noteq> - 1"
  shows "x < x + 1"
proof -
  have "1 + x \<noteq> 0" using assms by (metis add.commute add_eq_0_iff2)
  then show ?thesis by (simp add: word_less_nat_alt unatSuc add.commute [of x])
qed

lemma open_wf:
  assumes "sessions_wf t" and "next_id t \<noteq> - 1"
  shows "sessions_wf (snd (open_session u r c f now wall now' t))"
proof -
  have "i \<le> next_id t + 1" if "i \<in> set (bt_keys (live (reap now t)))" for i
    using that reap_wf [OF assms(1), of now] word_less_Suc [OF assms(2)]
    unfolding sessions_wf_def by (metis next_id_reap order.strict_implies_order order.trans)
  with reap_wf [OF assms(1), of now] show ?thesis
    by (auto simp: open_session_def sessions_wf_def Let_def)
qed

lemma touch_wf: "sessions_wf t \<Longrightarrow> sessions_wf (snd (touch i now t))"
  using reap_wf [of t now] by (simp add: touch_def sessions_wf_def Let_def del: set_map split: option.split)

lemma close_wf: "sessions_wf t \<Longrightarrow> sessions_wf (close_session i t)"
  using set_keys_remove unfolding close_session_def sessions_wf_def by fastforce

lemma set_role_wf: "sessions_wf t \<Longrightarrow> sessions_wf (set_role u r t)"
  by (simp add: set_role_def sessions_wf_def del: set_map)

lemmas sessions_wf_intros = reap_wf open_wf touch_wf close_wf set_role_wf

lemma get_reap:
  "sessions_wf t \<Longrightarrow> bt_get (live (reap now t)) i =
     (case bt_get (live t) i of
        None \<Rightarrow> None
      | Some s \<Rightarrow> if since now (last_active s) < stale_after then Some s else None)"
  by (simp add: reap_def sessions_wf_def bt_get_retain)

section \<open>Properties\<close>

text \<open>The session table answers for the live sessions only. In a well-formed table, registering a
  session gives it an id that no live session has and leaves every session that is not stale; a
  touch succeeds exactly on a session that was active within the last 36 hours; the listing holds
  exactly those sessions, by login time and id; and a change of role reaches all sessions of that
  user and no other.\<close>

lemma session_table_correct:
  assumes "sessions_wf t" and "next_id t \<noteq> - 1"
  shows "(let (i, t') = open_session u r c f now wall now' t in
      sessions_wf t' \<and> bt_get (live t) i = None \<and> map_option s_user (bt_get (live t') i) = Some u
      \<and> (\<forall>j. j \<noteq> i \<longrightarrow> bt_get (live t') j = bt_get (live (reap now t)) j))
    \<and> (fst (touch i now t) \<longleftrightarrow>
        (case bt_get (live t) i of None \<Rightarrow> False | Some s \<Rightarrow> since now (last_active s) < stale_after))
    \<and> (set (fst (list_sessions now t)) = {(j, s). bt_get (live t) j = Some s \<and> since now (last_active s) < stale_after})
    \<and> sorted (map (\<lambda>p. (login_time (snd p), fst p)) (fst (list_sessions now t)))
    \<and> bt_get (live (set_role u r t)) i =
        map_option (\<lambda>s. if s_user s = u then s\<lparr>s_role := r\<rparr> else s) (bt_get (live t) i)"
proof -
  have "\<not> next_id t + 1 \<le> next_id t" using word_less_Suc [OF assms(2)] by simp
  then have fresh: "bt_get (live t) (next_id t + 1) = None"
    using assms(1) unfolding sessions_wf_def by (metis map_of_eq_None_iff list.set_map)
  have wf: "bt_wf (live (reap now t))" using reap_wf [OF assms(1)] by (simp add: sessions_wf_def)
  have opened: "let (i, t') = open_session u r c f now wall now' t in
      sessions_wf t' \<and> bt_get (live t) i = None \<and> map_option s_user (bt_get (live t') i) = Some u
      \<and> (\<forall>j. j \<noteq> i \<longrightarrow> bt_get (live t') j = bt_get (live (reap now t)) j)"
    using open_wf [OF assms, of u r c f now wall now'] fresh
    by (simp add: open_session_def Let_def bt_get_insert)
  have touched: "fst (touch i now t) \<longleftrightarrow>
      (case bt_get (live t) i of None \<Rightarrow> False | Some s \<Rightarrow> since now (last_active s) < stale_after)"
    using get_reap [OF assms(1), of now i] by (auto simp: touch_def Let_def split: option.splits if_splits)
  have "(j, s) \<in> set (live (reap now t)) \<longleftrightarrow>
      bt_get (live t) j = Some s \<and> since now (last_active s) < stale_after" for j s
    unfolding bt_get_in_set [OF wf, symmetric] get_reap [OF assms(1)] by (auto split: option.split)
  then have "set (live (reap now t)) = {(j, s). bt_get (live t) j = Some s \<and> since now (last_active s) < stale_after}"
    by auto
  with opened touched show ?thesis
    by (simp add: list_sessions_def Let_def set_role_def bt_get_map)
qed

definition sample_sessions :: sessions where
  "sample_sessions = \<lparr>next_id = 7, live =
     [(7, \<lparr>s_user = ''ann'', s_role = Operator, s_client = ''cli'', s_from = ''console'', login_time = 3, last_active = 4\<rparr>)]\<rparr>"

lemma session_table_correct_example:
  "fst (touch 7 5 sample_sessions)
   \<and> map_option s_role (bt_get (live (set_role ''ann'' Admin sample_sessions)) 7) = Some Admin"
proof -
  have "sessions_wf sample_sessions" "next_id sample_sessions \<noteq> - 1"
    by (simp_all add: sessions_wf_def sample_sessions_def bt_wf_def)
  from session_table_correct [OF this, of "''ann''" Admin _ _ 5 _ _ 7] show ?thesis
    by (simp add: sample_sessions_def stale_after_def from_secs_def)
qed

end
