(* ===== verification/Mgmt_Commit.thy ===== *)
theory Mgmt_Commit
  imports Mgmt_Store Mgmt_Sessions
begin

text \<open>
  The commit engine (\<^verbatim>\<open>src/src/hemlock-mgmtd/src/service.rs\<close>): the RPC handlers that
  change the engine's state, run one at a time behind its mutex, and the tasks that wait for a
  commit to be confirmed. What lies outside the process or is not part of this development is a
  parameter or an outcome carried by the event: the verdict of the validation (\<open>vres\<close>), the
  result of pushing the difference to the other daemons (\<open>ares\<close>), the login users of a
  configuration text and the operating system's groups.
\<close>

section \<open>State\<close>

record user_intent =
  ui_role :: role
  ui_hash :: "string option"

text \<open>
  \<open>login\<close> and \<open>web_timeout\<close> are the login map and the effective console timeout of
  \<open>parse_intents\<close>, \<open>None\<close> when that fails.
\<close>

record mgmt_env =
  json_of :: json
  login :: "string \<Rightarrow> (string, user_intent) btree option"
  web_timeout :: "string \<Rightarrow> nat option"
  os_role :: "string \<Rightarrow> role"

text \<open>
  A confirm task: \<open>Sleeping\<close> inside \<open>select!\<close>, \<open>Expired\<close> once the sleep branch was taken and
  until it has the lock, \<open>Finished\<close> afterwards. \<open>cancelled\<close>: its channel was used or dropped.
\<close>

datatype phase = Sleeping | Expired | Finished

record timer =
  pre_commit :: string
  deadline :: instant
  phase :: phase
  cancelled :: bool

text \<open>The pending confirm holds the channel of one task, named by the task's number.\<close>

record engine =
  store :: fs
  commit_seq :: u64
  sessions_of :: sessions
  pending_confirm :: "nat option"
  timers :: "(nat, timer) btree"
  next_timer :: nat

datatype status =
    Internal
  | ApplyFailed string
  | FailedPrecondition string
  | NotFound nat
  | InvalidArgument

section \<open>Reading the configuration\<close>

definition login_map :: "mgmt_env \<Rightarrow> string \<Rightarrow> (string, user_intent) btree" where
  "login_map env text = (case login env text of None \<Rightarrow> [] | Some m \<Rightarrow> m)"

definition role_of :: "mgmt_env \<Rightarrow> engine \<Rightarrow> string \<Rightarrow> role \<times> bool" where
  "role_of env e user =
     (case bt_get (login_map env (running (store e))) user of
        Some configured \<Rightarrow> (ui_role configured, True)
      | None \<Rightarrow> (os_role env user, False))"

datatype warning = RemovesOwnAccount string | DemotesOwnAccount string | ChangesOwnPassword string

definition self_change_warnings :: "mgmt_env \<Rightarrow> engine \<Rightarrow> string \<Rightarrow> string \<Rightarrow> warning list" where
  "self_change_warnings env e user candidate_text =
     (if user = [] then []
      else case bt_get (login_map env (running (store e))) user of
          None \<Rightarrow> []
        | Some before \<Rightarrow>
            (case bt_get (login_map env candidate_text) user of
               None \<Rightarrow> [RemovesOwnAccount user]
             | Some after \<Rightarrow>
                 if is_admin (ui_role before) \<and> \<not> is_admin (ui_role after) then [DemotesOwnAccount user]
                 else if ui_hash before \<noteq> ui_hash after then [ChangesOwnPassword user]
                 else []))"

section \<open>Commit, confirm, roll back\<close>

text \<open>
  \<open>apply_and_persist\<close>: push the difference (its result is \<open>ares\<close>), then persist the text as
  running and count the commit.
\<close>

definition apply_and_persist ::
  "mgmt_env \<Rightarrow> string + string list \<Rightarrow> string \<Rightarrow> rollback_meta \<Rightarrow> engine \<Rightarrow> (status + string list) \<times> engine" where
  "apply_and_persist env ares new_text meta e =
     (case ares of
        Inl err \<Rightarrow> (Inl (ApplyFailed err), e)
      | Inr changes \<Rightarrow>
          (case store_commit (json_of env) new_text meta (store e) of
             (None, s') \<Rightarrow> (Inl Internal, e\<lparr>store := s'\<rparr>)
           | (Some _, s') \<Rightarrow> (Inr changes, e\<lparr>store := s', commit_seq := commit_seq e + 1\<rparr>)))"

text \<open>Take the pending confirm; using or dropping its channel ends the task's wait.\<close>

definition take_pending :: "engine \<Rightarrow> nat option \<times> engine" where
  "take_pending e =
     (case pending_confirm e of
        None \<Rightarrow> (None, e)
      | Some i \<Rightarrow>
          (Some i, e\<lparr>pending_confirm := None,
                     timers := bt_update i (\<lambda>t. t\<lparr>cancelled := True\<rparr>) (timers e)\<rparr>))"

record commit_request =
  req_comment :: string
  req_user :: string
  req_client :: string
  confirm_timeout_secs :: nat

definition commit_meta :: "string \<Rightarrow> commit_request \<Rightarrow> rollback_meta" where
  "commit_meta at req =
     \<lparr>committed_at = at, comment = req_comment req, meta_user = req_user req, meta_client = req_client req\<rparr>"

definition auto_rollback_meta :: "string \<Rightarrow> rollback_meta" where
  "auto_rollback_meta at =
     \<lparr>committed_at = at, comment = ''auto-rollback (commit-confirm expired)'', meta_user = [], meta_client = ''system''\<rparr>"

definition set_roles :: "mgmt_env \<Rightarrow> string \<Rightarrow> sessions \<Rightarrow> sessions" where
  "set_roles env text t =
     (case login env text of
        None \<Rightarrow> t
      | Some m \<Rightarrow> fold (\<lambda>(user, configured). set_role user (ui_role configured)) m t)"

definition start_timer :: "string \<Rightarrow> instant \<Rightarrow> engine \<Rightarrow> engine" where
  "start_timer pre at e =
     e\<lparr>pending_confirm := Some (next_timer e),
       timers := bt_insert (next_timer e) \<lparr>pre_commit = pre, deadline = at, phase = Sleeping, cancelled = False\<rparr> (timers e),
       next_timer := next_timer e + 1\<rparr>"

definition commit ::
  "mgmt_env \<Rightarrow> commit_request \<Rightarrow> string option \<Rightarrow> string + string list \<Rightarrow> string \<Rightarrow> instant \<Rightarrow> engine
    \<Rightarrow> (status + u64 \<times> string list \<times> warning list) \<times> engine" where
  "commit env req vres ares at now e =
     (let e0 = snd (take_pending e); text = candidate (store e0) in
      case vres of
        Some err \<Rightarrow> (Inl (FailedPrecondition err), e0)
      | None \<Rightarrow>
          (let pre_commit_running = running (store e0);
               warnings = self_change_warnings env e0 (req_user req) text in
           case apply_and_persist env ares text (commit_meta at req) e0 of
             (Inl st, e1) \<Rightarrow> (Inl st, e1)
           | (Inr changes, e1) \<Rightarrow>
               (let e2 = e1\<lparr>sessions_of := set_roles env text (sessions_of e1)\<rparr>;
                    e3 = (if 0 < confirm_timeout_secs req
                          then start_timer pre_commit_running (now + from_secs (confirm_timeout_secs req)) e2
                          else e2)
                in (Inr (commit_seq e2, changes, warnings), e3))))"

definition confirm_commit :: "engine \<Rightarrow> bool \<times> engine" where
  "confirm_commit e = (case take_pending e of (p, e') \<Rightarrow> (p \<noteq> None, e'))"

definition with_store :: "unit io \<Rightarrow> engine \<Rightarrow> bool \<times> engine" where
  "with_store m e = (case m (store e) of (r, s') \<Rightarrow> (r \<noteq> None, e\<lparr>store := s'\<rparr>))"

definition rollback_rpc :: "nat \<Rightarrow> engine \<Rightarrow> (status + string) \<times> engine" where
  "rollback_rpc n e =
     (case rollback (store e) n of
        None \<Rightarrow> (Inl (NotFound n), e)
      | Some text \<Rightarrow>
          (case with_store (set_candidate text) e of (ok, e') \<Rightarrow> (if ok then Inr text else Inl Internal, e')))"

definition set_candidate_rpc :: "string \<Rightarrow> string option \<Rightarrow> engine \<Rightarrow> (status + bool \<times> string list) \<times> engine" where
  "set_candidate_rpc text vres e =
     (case vres of
        Some err \<Rightarrow> (Inr (False, [err]), e)
      | None \<Rightarrow>
          (case with_store (set_candidate text) e of
             (ok, e') \<Rightarrow> (if ok then Inr (True, []) else Inl Internal, e')))"

definition discard_rpc :: "engine \<Rightarrow> (status + unit) \<times> engine" where
  "discard_rpc e =
     (case with_store discard_candidate e of (ok, e') \<Rightarrow> (if ok then Inr () else Inl Internal, e'))"

definition get_config :: "bool \<Rightarrow> engine \<Rightarrow> string" where
  "get_config want_candidate e = (if want_candidate then candidate (store e) else running (store e))"

definition list_rollbacks_rpc :: "mgmt_env \<Rightarrow> engine \<Rightarrow> (nat \<times> rollback_meta) list" where
  "list_rollbacks_rpc env e =
     (0, running_meta (json_of env) (store e)) # list_rollbacks (json_of env) (store e)"

section \<open>Sessions\<close>

definition web_session_timeout :: "mgmt_env \<Rightarrow> engine \<Rightarrow> nat" where
  "web_session_timeout env e = (case web_timeout env (running (store e)) of None \<Rightarrow> 30 | Some n \<Rightarrow> n)"

record who_response =
  who_user :: string
  who_role :: string
  who_session :: u64
  who_timeout :: nat
  who_managed :: bool

definition who_am_i ::
  "mgmt_env \<Rightarrow> string \<Rightarrow> string \<Rightarrow> string \<Rightarrow> instant \<Rightarrow> nat \<Rightarrow> instant \<Rightarrow> engine \<Rightarrow> (status + who_response) \<times> engine" where
  "who_am_i env user client from now wall now' e =
     (if user = [] then (Inl InvalidArgument, e)
      else let (r, config_managed) = role_of env e user;
               from' = (if from = [] then ''console'' else from);
               (i, t) = (if client = [] then (0, sessions_of e)
                         else open_session user r client from' now wall now' (sessions_of e))
           in (Inr \<lparr>who_user = user, who_role = role_str r, who_session = i,
                     who_timeout = web_session_timeout env e, who_managed = config_managed\<rparr>,
               e\<lparr>sessions_of := t\<rparr>))"

definition touch_session :: "u64 \<Rightarrow> instant \<Rightarrow> engine \<Rightarrow> bool \<times> engine" where
  "touch_session i now e = (case touch i now (sessions_of e) of (known, t) \<Rightarrow> (known, e\<lparr>sessions_of := t\<rparr>))"

definition close_session_rpc :: "u64 \<Rightarrow> engine \<Rightarrow> engine" where
  "close_session_rpc i e = e\<lparr>sessions_of := close_session i (sessions_of e)\<rparr>"

section \<open>The confirm tasks\<close>

definition set_phase :: "nat \<Rightarrow> phase \<Rightarrow> engine \<Rightarrow> engine" where
  "set_phase i ph e = e\<lparr>timers := bt_update i (\<lambda>t. t\<lparr>phase := ph\<rparr>) (timers e)\<rparr>"

text \<open>What a task whose sleep ended does once it has the lock.\<close>

definition fire :: "mgmt_env \<Rightarrow> nat \<Rightarrow> string + string list \<Rightarrow> string \<Rightarrow> engine \<Rightarrow> engine" where
  "fire env i ares at e =
     (case bt_get (timers e) i of
        None \<Rightarrow> e
      | Some t \<Rightarrow>
          (case take_pending e of
             (None, e1) \<Rightarrow> set_phase i Finished e1
           | (Some _, e1) \<Rightarrow>
               set_phase i Finished (snd (apply_and_persist env ares (pre_commit t) (auto_rollback_meta at) e1))))"

section \<open>Runs\<close>

datatype event =
    Commit commit_request "string option" "string + string list" string instant
  | Confirm
  | LoadRollback nat
  | SetCandidate string "string option"
  | Discard
  | WhoAmI string string string instant nat instant
  | Touch u64 instant
  | Close u64
  | Cancelled nat
  | Expire nat instant
  | Fire nat "string + string list" string

text \<open>
  The RPCs are always possible. A sleeping task may see its channel used, may reach its deadline,
  or both, in which case \<open>select!\<close> takes either branch; a task that took the sleep branch waits
  for the lock.
\<close>

inductive step :: "mgmt_env \<Rightarrow> engine \<Rightarrow> event \<Rightarrow> engine \<Rightarrow> bool" for env where
  Commit: "step env e (Commit req vres ares at now) (snd (commit env req vres ares at now e))"
| Confirm: "step env e Confirm (snd (confirm_commit e))"
| LoadRollback: "step env e (LoadRollback n) (snd (rollback_rpc n e))"
| SetCandidate: "step env e (SetCandidate text vres) (snd (set_candidate_rpc text vres e))"
| Discard: "step env e Discard (snd (discard_rpc e))"
| WhoAmI: "step env e (WhoAmI u c f now wall now') (snd (who_am_i env u c f now wall now' e))"
| Touch: "step env e (Touch i now) (snd (touch_session i now e))"
| Close: "step env e (Close i) (close_session_rpc i e)"
| Cancelled: "bt_get (timers e) i = Some t \<Longrightarrow> phase t = Sleeping \<Longrightarrow> cancelled t \<Longrightarrow>
    step env e (Cancelled i) (set_phase i Finished e)"
| Expire: "bt_get (timers e) i = Some t \<Longrightarrow> phase t = Sleeping \<Longrightarrow> deadline t \<le> now \<Longrightarrow>
    step env e (Expire i now) (set_phase i Expired e)"
| Fire: "bt_get (timers e) i = Some t \<Longrightarrow> phase t = Expired \<Longrightarrow> step env e (Fire i ares at) (fire env i ares at e)"

inductive_cases step_CommitE: "step env e (Commit req vres ares at now) e'"
inductive_cases step_FireE: "step env e (Fire i ares at) e'"

fun is_commit :: "event \<Rightarrow> bool" where
  "is_commit (Commit _ _ _ _ _) = True"
| "is_commit _ = False"

definition new_engine :: "fs \<Rightarrow> engine" where
  "new_engine s = \<lparr>store = s, commit_seq = 0, sessions_of = new_sessions, pending_confirm = None, timers = [], next_timer = 0\<rparr>"

section \<open>What the handlers leave alone\<close>

lemma take_pending_fields [simp]:
  "store (snd (take_pending e)) = store e" "commit_seq (snd (take_pending e)) = commit_seq e"
  "sessions_of (snd (take_pending e)) = sessions_of e" "next_timer (snd (take_pending e)) = next_timer e"
  "pending_confirm (snd (take_pending e)) = None" "fst (take_pending e) = pending_confirm e"
  by (simp_all add: take_pending_def split: option.split)

lemma running_set_candidate [simp]: "running (snd (set_candidate t s)) = running s"
proof -
  have "disk (snd (set_candidate t s)) Running = disk s Running"
    by (cases "set_candidate t s") (auto simp: set_candidate_def dest: fs_write_cases(2))
  then show ?thesis by (simp add: running_def read_or_empty_def)
qed

lemma running_discard [simp]: "running (snd (discard_candidate s)) = running s"
  by (simp add: discard_candidate_def)

lemma with_store_fields [simp]:
  "store (snd (with_store m e)) = snd (m (store e))" "commit_seq (snd (with_store m e)) = commit_seq e"
  "pending_confirm (snd (with_store m e)) = pending_confirm e" "timers (snd (with_store m e)) = timers e"
  "next_timer (snd (with_store m e)) = next_timer e" "sessions_of (snd (with_store m e)) = sessions_of e"
  by (simp_all add: with_store_def split: prod.split)

lemma apply_fields [simp]:
  "pending_confirm (snd (apply_and_persist env ares t m e)) = pending_confirm e"
  "timers (snd (apply_and_persist env ares t m e)) = timers e"
  "next_timer (snd (apply_and_persist env ares t m e)) = next_timer e"
  "sessions_of (snd (apply_and_persist env ares t m e)) = sessions_of e"
  by (simp_all add: apply_and_persist_def split: sum.split prod.split option.split)

lemma set_phase_fields [simp]:
  "store (set_phase i p e) = store e" "commit_seq (set_phase i p e) = commit_seq e"
  "pending_confirm (set_phase i p e) = pending_confirm e" "next_timer (set_phase i p e) = next_timer e"
  "sessions_of (set_phase i p e) = sessions_of e"
  by (simp_all add: set_phase_def)

lemma rpc_fields:
  "snd (rollback_rpc n e) = e \<or> (\<exists>t. snd (rollback_rpc n e) = snd (with_store (set_candidate t) e))"
  "snd (set_candidate_rpc t v e) = e \<or> snd (set_candidate_rpc t v e) = snd (with_store (set_candidate t) e)"
  "snd (discard_rpc e) = snd (with_store discard_candidate e)"
  by (auto simp: rollback_rpc_def set_candidate_rpc_def discard_rpc_def split: option.split prod.split)
    (metis snd_conv)

lemma who_am_i_fields [simp]:
  "store (snd (who_am_i env u c f now wall now' e)) = store e"
  "commit_seq (snd (who_am_i env u c f now wall now' e)) = commit_seq e"
  "pending_confirm (snd (who_am_i env u c f now wall now' e)) = pending_confirm e"
  "timers (snd (who_am_i env u c f now wall now' e)) = timers e"
  "next_timer (snd (who_am_i env u c f now wall now' e)) = next_timer e"
  by (simp_all add: who_am_i_def split: prod.split)

lemma session_rpc_fields [simp]:
  "store (snd (touch_session i now e)) = store e" "pending_confirm (snd (touch_session i now e)) = pending_confirm e"
  "commit_seq (snd (touch_session i now e)) = commit_seq e"
  "timers (snd (touch_session i now e)) = timers e" "next_timer (snd (touch_session i now e)) = next_timer e"
  "store (close_session_rpc k e) = store e" "pending_confirm (close_session_rpc k e) = pending_confirm e"
  "commit_seq (close_session_rpc k e) = commit_seq e"
  "timers (close_session_rpc k e) = timers e" "next_timer (close_session_rpc k e) = next_timer e"
  by (simp_all add: touch_session_def close_session_rpc_def split: prod.split)

section \<open>The tasks and the pending confirm\<close>

text \<open>
  The pending confirm, when there is one, belongs to a task that is still waiting and whose channel
  nobody has used; tasks keep the text they were started with.
\<close>

definition timers_wf :: "engine \<Rightarrow> bool" where
  "timers_wf e \<longleftrightarrow>
     (\<forall>i. next_timer e \<le> i \<longrightarrow> bt_get (timers e) i = None)
     \<and> (\<forall>i. pending_confirm e = Some i \<longrightarrow>
          (\<exists>t. bt_get (timers e) i = Some t \<and> \<not> cancelled t \<and> phase t \<noteq> Finished))"

lemma timers_wf_same:
  assumes "timers_wf e" and "timers e' = timers e" and "next_timer e' = next_timer e"
    and "pending_confirm e' = pending_confirm e"
  shows "timers_wf e'"
  using assms by (simp add: timers_wf_def)

lemma timers_wf_take: "timers_wf e \<Longrightarrow> timers_wf (snd (take_pending e))"
  by (auto simp: timers_wf_def take_pending_def bt_get_update split: option.splits)

lemma timers_wf_set_phase:
  assumes "timers_wf e" and "pending_confirm e = Some i \<Longrightarrow> ph \<noteq> Finished"
  shows "timers_wf (set_phase i ph e)"
  using assms by (fastforce simp: timers_wf_def set_phase_def bt_get_update)

lemma timers_wf_start: "timers_wf e \<Longrightarrow> timers_wf (start_timer pre at e)"
  by (auto simp: timers_wf_def start_timer_def bt_get_insert)

lemma timers_wf_commit:
  assumes "timers_wf e"
  shows "timers_wf (snd (commit env req vres ares at now e))"
proof (cases vres)
  case (Some err)
  then show ?thesis using timers_wf_take [OF assms] by (simp add: commit_def Let_def)
next
  case None
  let ?e0 = "snd (take_pending e)"
  obtain r e1 where a: "apply_and_persist env ares (candidate (store ?e0)) (commit_meta at req) ?e0 = (r, e1)"
    by force
  have "timers_wf e1"
    using timers_wf_same [OF timers_wf_take [OF assms], of e1] apply_fields [of env ares _ _ ?e0, unfolded a] a
    by (metis apply_fields snd_conv)
  then have "timers_wf (e1\<lparr>sessions_of := t\<rparr>)" for t
    by (rule timers_wf_same) simp_all
  with None a \<open>timers_wf e1\<close> show ?thesis
    by (auto simp: commit_def Let_def timers_wf_start split: sum.split)
qed

lemma timers_wf_fire:
  assumes "timers_wf e"
  shows "timers_wf (fire env i ares at e)"
proof -
  have "timers_wf (set_phase i Finished (snd (take_pending e)))"
    by (rule timers_wf_set_phase) (use timers_wf_take [OF assms] in simp_all)
  moreover have "timers_wf (set_phase i Finished (snd (apply_and_persist env ares t m (snd (take_pending e)))))" for t m
    by (rule timers_wf_set_phase)
      (use timers_wf_same [OF timers_wf_take [OF assms]] in simp_all)
  ultimately show ?thesis
    using assms by (auto simp: fire_def split: option.split prod.split)
qed

lemma timers_wf_with_store: "timers_wf e \<Longrightarrow> timers_wf (snd (with_store m e))"
  by (erule timers_wf_same) simp_all

lemma timers_wf_rpcs:
  assumes "timers_wf e"
  shows "timers_wf (snd (rollback_rpc n e))" "timers_wf (snd (set_candidate_rpc t v e))"
    "timers_wf (snd (discard_rpc e))" "timers_wf (snd (confirm_commit e))"
    "timers_wf (snd (who_am_i env u c f now wall now' e))" "timers_wf (snd (touch_session k now e))"
    "timers_wf (close_session_rpc k e)"
proof -
  show "timers_wf (snd (rollback_rpc n e))" "timers_wf (snd (set_candidate_rpc t v e))"
    "timers_wf (snd (discard_rpc e))"
    using rpc_fields(1) [of n e] rpc_fields(2) [of t v e] rpc_fields(3) [of e] timers_wf_with_store [OF assms] assms
    by metis+
  show "timers_wf (snd (confirm_commit e))"
    using timers_wf_take [OF assms] by (simp add: confirm_commit_def split_beta)
qed (rule timers_wf_same [OF assms]; simp)+

lemma timers_wf_step:
  assumes "timers_wf e" and "step env e ev e'"
  shows "timers_wf e'"
  using assms(2)
proof cases
  case (Cancelled i t)
  with assms(1) have "pending_confirm e \<noteq> Some i" by (auto simp: timers_wf_def)
  with Cancelled assms(1) show ?thesis using timers_wf_set_phase [of e i Finished] by simp
next
  case (Expire i t now)
  with assms(1) show ?thesis by (simp add: timers_wf_set_phase)
qed (use assms(1) in \<open>simp_all add: timers_wf_commit timers_wf_fire timers_wf_rpcs\<close>)

interpretation engine: machine "step env" timers_wf for env
  by unfold_locales (rule timers_wf_step)

section \<open>Nothing pending\<close>

text \<open>Without a pending confirm, only a commit changes the running configuration.\<close>

definition settled :: "string \<Rightarrow> u64 \<Rightarrow> engine \<Rightarrow> bool" where
  "settled text n e \<longleftrightarrow> pending_confirm e = None \<and> running (store e) = text \<and> commit_seq e = n"

lemma settled_with_store:
  "settled text n e \<Longrightarrow> settled text n (snd (with_store (set_candidate t) e))"
  "settled text n e \<Longrightarrow> settled text n (snd (with_store discard_candidate e))"
  by (simp_all add: settled_def)

lemma settled_step:
  assumes "settled text n e" and "\<not> is_commit ev" and "step env e ev e'"
  shows "settled text n e'"
  using assms(3)
proof cases
  case (LoadRollback k)
  with assms(1) rpc_fields(1) [of k e] settled_with_store(1) show ?thesis by metis
next
  case (SetCandidate t v)
  with assms(1) rpc_fields(2) [of t v e] settled_with_store(1) show ?thesis by metis
next
  case Discard
  with assms(1) rpc_fields(3) [of e] settled_with_store(2) show ?thesis by metis
next
  case (Fire i t ares at)
  moreover have "take_pending e = (None, e)" using assms(1) by (simp add: settled_def take_pending_def)
  ultimately show ?thesis using assms(1) by (simp add: fire_def settled_def)
qed (use assms(1,2) in \<open>auto simp: settled_def confirm_commit_def split_beta\<close>)

lemma settled_run:
  assumes "run (step env) e evs e'" and "settled text n e" and "list_all (\<lambda>ev. \<not> is_commit ev) evs"
  shows "settled text n e'"
  using assms by (rule run_keeps) (rule settled_step)

section \<open>A window that closes\<close>

lemma fire_rolls_back:
  assumes "bt_get (timers e) i = Some t" and "pending_confirm e = Some j" and "fail_in (store e) = None"
  shows "running (store (fire env i (Inr ch) at e)) = pre_commit t"
    and "pending_confirm (fire env i (Inr ch) at e) = None"
proof -
  obtain e1 where take: "take_pending e = (Some j, e1)" and e1: "store e1 = store e" "pending_confirm e1 = None"
    using assms(2) by (simp add: take_pending_def)
  obtain s' where s': "store_commit (json_of env) (pre_commit t) (auto_rollback_meta at) (store e) = (Some (), s')"
    using sound_commit assms(3) unfolding sound_def by blast
  show "running (store (fire env i (Inr ch) at e)) = pre_commit t"
    "pending_confirm (fire env i (Inr ch) at e) = None"
    using commit_texts(1) [OF s'] assms(1) s' by (simp_all add: fire_def take e1 apply_and_persist_def)
qed

text \<open>The tasks keep the text to restore while the other steps run.\<close>

fun keeps_pending :: "event \<Rightarrow> bool" where
  "keeps_pending (Commit _ _ _ _ _) = False"
| "keeps_pending Confirm = False"
| "keeps_pending (Fire _ _ _) = False"
| "keeps_pending _ = True"

definition waiting :: "nat \<Rightarrow> instant \<Rightarrow> string \<Rightarrow> string \<Rightarrow> engine \<Rightarrow> bool" where
  "waiting i till pre text e \<longleftrightarrow> pending_confirm e = Some i \<and> running (store e) = text
     \<and> map_option (\<lambda>t. (pre_commit t, deadline t)) (bt_get (timers e) i) = Some (pre, till)"

lemma waiting_with_store:
  "waiting i till pre text e \<Longrightarrow> waiting i till pre text (snd (with_store (set_candidate t) e))"
  "waiting i till pre text e \<Longrightarrow> waiting i till pre text (snd (with_store discard_candidate e))"
  by (simp_all add: waiting_def)

lemma waiting_step:
  assumes "waiting i till pre text e" and "keeps_pending ev" and "step env e ev e'"
  shows "waiting i till pre text e'"
  using assms(3)
proof cases
  case (LoadRollback k)
  with assms(1) rpc_fields(1) [of k e] waiting_with_store(1) show ?thesis by metis
next
  case (SetCandidate t v)
  with assms(1) rpc_fields(2) [of t v e] waiting_with_store(1) show ?thesis by metis
next
  case Discard
  with assms(1) rpc_fields(3) [of e] waiting_with_store(2) show ?thesis by metis
qed (use assms(1,2) in \<open>auto simp: waiting_def set_phase_def bt_get_update\<close>)

lemma commit_waiting:
  assumes "commit env req vres ares at now e = (Inr resp, e1)" and "0 < confirm_timeout_secs req"
  shows "waiting (next_timer e) (now + from_secs (confirm_timeout_secs req)) (running (store e)) (candidate (store e)) e1"
proof -
  let ?e0 = "snd (take_pending e)"
  from assms obtain ch s' where "ares = Inr ch"
      "store_commit (json_of env) (candidate (store e)) (commit_meta at req) (store e) = (Some (), s')"
    by (auto simp: commit_def apply_and_persist_def Let_def split: option.splits sum.splits prod.splits)
  with assms show ?thesis
    by (auto simp: commit_def apply_and_persist_def Let_def waiting_def start_timer_def bt_get_insert commit_texts(1)
        split: option.splits)
qed

text \<open>The waiting task can always run to its end, whatever the push answers then.\<close>

lemma waiting_can_fire:
  assumes "timers_wf e" and "waiting i till pre text e"
  shows "\<exists>ds e'. run (step env) e (map (Expire i) ds @ [Fire i ares at]) e'"
proof -
  from assms obtain t where t: "bt_get (timers e) i = Some t" "phase t \<noteq> Finished"
    by (auto simp: timers_wf_def waiting_def)
  show ?thesis
  proof (cases "phase t")
    case Sleeping
    let ?e1 = "set_phase i Expired e"
    have "bt_get (timers ?e1) i = Some (t\<lparr>phase := Expired\<rparr>)"
      using t(1) by (simp add: set_phase_def bt_get_update)
    then have "step env ?e1 (Fire i ares at) (fire env i ares at ?e1)" by (rule step.Fire) simp
    moreover have "step env e (Expire i (deadline t)) ?e1" using t(1) Sleeping by (rule step.Expire) simp
    ultimately have "run (step env) e (map (Expire i) [deadline t] @ [Fire i ares at]) (fire env i ares at ?e1)"
      by (auto intro: run.intros)
    then show ?thesis by blast
  next
    case Expired
    then have "run (step env) e (map (Expire i) [] @ [Fire i ares at]) (fire env i ares at e)"
      using t(1) by (auto intro: run.intros step.Fire)
    then show ?thesis by blast
  qed (use t(2) in simp)
qed

text \<open>What its end leaves behind: the old text, or the new one when the push fails.\<close>

lemma waiting_fires:
  assumes "waiting i till pre text e" and "step env e (Fire i ares at) e'"
  shows "pending_confirm e' = None \<and> (case ares of
      Inl _ \<Rightarrow> running (store e') = text
    | Inr _ \<Rightarrow> fail_in (store e) = None \<longrightarrow> running (store e') = pre)"
proof -
  obtain t where t: "bt_get (timers e) i = Some t" "pre_commit t = pre" "pending_confirm e = Some i" "running (store e) = text"
    using assms(1) by (auto simp: waiting_def)
  have e': "e' = fire env i ares at e" using assms(2) by (rule step_FireE)
  obtain e1 where take: "take_pending e = (Some i, e1)" and e1: "store e1 = store e" "pending_confirm e1 = None"
    using t(3) by (simp add: take_pending_def)
  have "pending_confirm e' = None"
    unfolding e' using t(1) take e1
    by (auto simp: fire_def apply_and_persist_def split: sum.split option.split prod.split)
  moreover have "running (store e') = text" if "ares = Inl err" for err
    unfolding e' that using t(1,4) take e1 by (simp add: fire_def apply_and_persist_def)
  moreover have "running (store e') = pre" if "ares = Inr ch" "fail_in (store e) = None" for ch
    unfolding e' that(1) using fire_rolls_back(1) [OF t(1,3) that(2)] t(2) by simp
  ultimately show ?thesis by (auto split: sum.split)
qed

lemma waiting_not_early:
  assumes "waiting i till pre text e" and "step env e (Expire i d) e'"
  shows "till \<le> d"
  using assms(2) assms(1) by cases (auto simp: waiting_def)

text \<open>A commit on a disk that does not fail.\<close>

lemma commit_succeeds:
  assumes "fail_in (store e) = None" and "0 < confirm_timeout_secs req"
  obtains s' resp where "commit env req None (Inr ch) at now e =
      (Inr resp, start_timer (running (store e)) (now + from_secs (confirm_timeout_secs req))
        ((snd (take_pending e))\<lparr>store := s', commit_seq := commit_seq e + 1,
            sessions_of := set_roles env (candidate (store e)) (sessions_of e)\<rparr>))"
    and "fail_in s' = None" and "running s' = candidate (store e)"
proof -
  obtain s' where s': "store_commit (json_of env) (candidate (store e)) (commit_meta at req) (store e) = (Some (), s')"
      "fail_in s' = None"
    using sound_commit assms(1) unfolding sound_def by blast
  show thesis
    using assms(2) s' commit_texts(1) [OF s'(1)]
    by (intro that [of "(commit_seq e + 1, ch, self_change_warnings env (snd (take_pending e)) (req_user req) (candidate (store e)))" s'])
      (simp_all add: commit_def apply_and_persist_def Let_def)
qed

section \<open>Properties\<close>

text \<open>C4. The confirm window. While neither a commit, a confirmation nor an expired task intervenes, the
  committed text stays running and the confirm stays pending. The window does not close before its time: its task can
  stop sleeping only at the deadline or later. From any such moment it can run to its end, whatever the push of the
  rollback answers then. However it ends, nothing is pending afterwards; when the push succeeds and the disk does
  not fail, the configuration from before the commit is running again, and when the push fails the rollback
  is given up and the unconfirmed configuration stays.\<close>

theorem unconfirmed_commit_is_rolled_back:
  assumes "timers_wf e" and "commit env req vres ares at now e = (Inr resp, e1)" and "0 < confirm_timeout_secs req"
    and "run (step env) e1 evs e2" and "list_all keeps_pending evs" and "i = next_timer e"
  shows "running (store e2) = candidate (store e) \<and> pending_confirm e2 = Some i
    \<and> (\<forall>d e3. step env e2 (Expire i d) e3 \<longrightarrow> now + from_secs (confirm_timeout_secs req) \<le> d)
    \<and> (\<forall>ares' at'. \<exists>ds e3. run (step env) e2 (map (Expire i) ds @ [Fire i ares' at']) e3)
    \<and> (\<forall>ares' at' e3. step env e2 (Fire i ares' at') e3 \<longrightarrow> pending_confirm e3 = None \<and> (case ares' of
          Inl _ \<Rightarrow> running (store e3) = candidate (store e)
        | Inr _ \<Rightarrow> fail_in (store e2) = None \<longrightarrow> running (store e3) = running (store e)))"
proof -
  have "timers_wf e1" using timers_wf_commit [OF assms(1)] assms(2) by (metis snd_conv)
  then have wf: "timers_wf e2" by (rule engine.run_inv [OF assms(4)])
  have w: "waiting i (now + from_secs (confirm_timeout_secs req)) (running (store e)) (candidate (store e)) e2"
    unfolding assms(6) using assms(4) commit_waiting [OF assms(2,3)] assms(5) by (rule run_keeps) (rule waiting_step)
  then have "running (store e2) = candidate (store e)" "pending_confirm e2 = Some i" by (simp_all add: waiting_def)
  with waiting_not_early [OF w] waiting_can_fire [OF wf w] waiting_fires [OF w] show ?thesis by blast
qed

definition plain_env :: mgmt_env where
  "plain_env = \<lparr>json_of = plain_json, login = (\<lambda>_. None), web_timeout = (\<lambda>_. None), os_role = (\<lambda>_. Operator)\<rparr>"

definition plain_request :: commit_request where
  "plain_request = \<lparr>req_comment = [], req_user = ''ann'', req_client = ''cli'', confirm_timeout_secs = 60\<rparr>"

lemma new_engine_wf: "timers_wf (new_engine s)"
  by (simp add: timers_wf_def new_engine_def)

theorem unconfirmed_commit_is_rolled_back_witness:
  "\<exists>resp e1. commit plain_env plain_request None (Inr []) [] 0 (new_engine empty_fs) = (Inr resp, e1)
    \<and> pending_confirm e1 = Some 0 \<and> (\<exists>ds e2. run (step plain_env) e1 (map (Expire 0) ds @ [Fire 0 (Inr []) []]) e2)
    \<and> (\<forall>e2. step plain_env e1 (Fire 0 (Inr []) []) e2 \<longrightarrow> running (store e2) = running empty_fs)"
proof -
  let ?e = "new_engine empty_fs"
  have ok: "fail_in (store ?e) = None" "0 < confirm_timeout_secs plain_request"
    by (simp_all add: new_engine_def empty_fs_def plain_request_def)
  obtain resp e1 where c: "commit plain_env plain_request None (Inr []) [] 0 ?e = (Inr resp, e1)"
      and e1: "fail_in (store e1) = None"
    by (rule commit_succeeds [OF ok, of plain_env "[]" "[]" 0]) (auto simp: start_timer_def)
  have n: "0 = next_timer ?e" "running (store ?e) = running empty_fs" by (simp_all add: new_engine_def)
  note facts = unconfirmed_commit_is_rolled_back [OF new_engine_wf c ok(2) run_Nil _ n(1), simplified n(2)]
  have "running (store e2) = running empty_fs" if "step plain_env e1 (Fire 0 (Inr []) []) e2" for e2
    using facts that e1 by fastforce
  with facts c show ?thesis by (intro exI [of _ resp] exI [of _ e1]) simp
qed

text \<open>C9. A confirmed commit is final: after a confirmation, or after anything else that leaves no
  confirm pending, no task can change the running configuration or count a commit, whatever the
  order of the remaining steps, until the next commit.\<close>

theorem confirmed_commit_is_final:
  assumes "run (step env) (snd (confirm_commit e)) evs e'" and "list_all (\<lambda>ev. \<not> is_commit ev) evs"
  shows "running (store e') = running (store e) \<and> commit_seq e' = commit_seq e \<and> pending_confirm e' = None"
proof -
  have "settled (running (store e)) (commit_seq e) (snd (confirm_commit e))"
    by (simp add: settled_def confirm_commit_def split_beta)
  from settled_run [OF assms(1) this assms(2)] show ?thesis by (simp add: settled_def)
qed

theorem confirmed_commit_is_final_witness:
  "\<exists>e'. run (step plain_env) (snd (confirm_commit (new_engine empty_fs))) [Discard] e'
    \<and> running (store e') = running empty_fs"
proof -
  let ?e = "snd (confirm_commit (new_engine empty_fs))"
  have r: "run (step plain_env) ?e [Discard] (snd (discard_rpc ?e))"
    by (blast intro: run.intros step.Discard)
  from confirmed_commit_is_final [OF r] r show ?thesis by (auto simp: new_engine_def)
qed

text \<open>C37. A superseded window can undo its successor. When the task of a pending confirm has reached its
  deadline but not the lock, a new commit with its own window replaces the pending confirm; the old
  task then takes that pending confirm for its own, rolls the running configuration back to the text
  from before the first commit, and the new window is closed although none of its time has passed.\<close>

theorem superseded_window_undoes_new_commit:
  assumes "timers_wf e" and "pending_confirm e = Some i" and "bt_get (timers e) i = Some t" and "phase t = Sleeping"
    and "deadline t \<le> now" and "fail_in (store e) = None" and "0 < confirm_timeout_secs req"
  shows "\<exists>e2 e3. run (step env) e [Expire i now, Commit req None (Inr ch) at now] e2
    \<and> running (store e2) = candidate (store e) \<and> pending_confirm e2 = Some (next_timer e)
    \<and> step env e2 (Fire i (Inr ch') at') e3
    \<and> running (store e3) = pre_commit t \<and> pending_confirm e3 = None"
proof -
  let ?e1 = "set_phase i Expired e"
  have e1: "step env e (Expire i now) ?e1" using assms(3-5) by (rule step.Expire)
  have "fail_in (store ?e1) = None" using assms(6) by simp
  then obtain s' resp where c: "commit env req None (Inr ch) at now ?e1 =
      (Inr resp, start_timer (running (store ?e1)) (now + from_secs (confirm_timeout_secs req))
        ((snd (take_pending ?e1))\<lparr>store := s', commit_seq := commit_seq ?e1 + 1,
            sessions_of := set_roles env (candidate (store ?e1)) (sessions_of ?e1)\<rparr>))" (is "_ = (_, ?e2)")
      and s': "fail_in s' = None" "running s' = candidate (store ?e1)"
    using assms(7) by (rule commit_succeeds)
  have e2: "step env ?e1 (Commit req None (Inr ch) at now) ?e2"
    using step.Commit [of env ?e1 req None "Inr ch" at now] c by simp
  have "i \<noteq> next_timer e" using assms(1,3) by (auto simp: timers_wf_def)
  then have t2: "bt_get (timers ?e2) i = Some (t\<lparr>phase := Expired, cancelled := True\<rparr>)"
    using assms(2,3) by (simp add: start_timer_def bt_get_insert take_pending_def set_phase_def bt_get_update)
  have p2: "pending_confirm ?e2 = Some (next_timer e)" "fail_in (store ?e2) = None"
    "running (store ?e2) = candidate (store e)"
    using s' by (simp_all add: start_timer_def)
  have "step env ?e2 (Fire i (Inr ch') at') (fire env i (Inr ch') at' ?e2)"
    using t2 by (rule step.Fire) simp
  with e1 e2 p2 fire_rolls_back [OF t2 p2(1,2), of env ch' at'] show ?thesis
    by (intro exI [of _ ?e2] exI [of _ "fire env i (Inr ch') at' ?e2"]) (auto intro: run.intros)
qed

definition expiring_engine :: engine where
  "expiring_engine = (new_engine empty_fs)\<lparr>pending_confirm := Some 0, next_timer := 1,
     timers := [(0, \<lparr>pre_commit = ''first'', deadline = 5, phase = Sleeping, cancelled = False\<rparr>)]\<rparr>"

theorem superseded_window_undoes_new_commit_witness:
  "\<exists>e2 e3. run (step plain_env) expiring_engine [Expire 0 5, Commit plain_request None (Inr []) [] 5] e2
    \<and> step plain_env e2 (Fire 0 (Inr []) []) e3 \<and> running (store e3) = ''first''"
proof -
  have "timers_wf expiring_engine" "fail_in (store expiring_engine) = None"
    by (auto simp: expiring_engine_def timers_wf_def new_engine_def empty_fs_def)
  moreover have "0 < confirm_timeout_secs plain_request" by (simp add: plain_request_def)
  ultimately show ?thesis
    using superseded_window_undoes_new_commit [of expiring_engine 0
        "\<lparr>pre_commit = ''first'', deadline = 5, phase = Sleeping, cancelled = False\<rparr>" 5 plain_request plain_env "[]" "[]" "[]" "[]"]
    by (auto simp: expiring_engine_def)
qed

text \<open>C38. A commit that is refused still cancels the pending confirm. When the validation or the push of
  a new commit fails, the running configuration is the unconfirmed one, and it stays: no later step
  but another commit can restore the configuration from before it.\<close>

theorem refused_commit_drops_rollback:
  assumes "commit env req vres ares at now e = (r, e1)" and "vres \<noteq> None \<or> (\<exists>err. ares = Inl err)"
    and "run (step env) e1 evs e'" and "list_all (\<lambda>ev. \<not> is_commit ev) evs"
  shows "isl r \<and> running (store e') = running (store e) \<and> pending_confirm e' = None"
proof -
  have "isl r \<and> settled (running (store e)) (commit_seq e) e1"
    using assms(1,2)
    by (auto simp: commit_def apply_and_persist_def settled_def Let_def split: option.splits sum.splits)
  with settled_run [OF assms(3) _ assms(4)] show ?thesis by (auto simp: settled_def)
qed

theorem refused_commit_drops_rollback_witness:
  "\<exists>r e1. commit plain_env plain_request (Some ''bad'') (Inr []) [] 3 expiring_engine = (r, e1)
    \<and> pending_confirm expiring_engine = Some 0 \<and> pending_confirm e1 = None \<and> running (store e1) = running empty_fs"
proof -
  obtain r e1 where c: "commit plain_env plain_request (Some ''bad'') (Inr []) [] 3 expiring_engine = (r, e1)"
    by force
  from refused_commit_drops_rollback [OF c _ run_Nil] c show ?thesis
    by (auto simp: expiring_engine_def new_engine_def)
qed

section \<open>On a disk that does not fail\<close>

lemma sound_set_candidate: "sound (set_candidate t)"
  unfolding set_candidate_def by (rule sound_write)

lemma set_candidate_rpc_succeeds:
  assumes "fail_in (store e) = None"
  obtains s' where "set_candidate_rpc t None e = (Inr (True, []), e\<lparr>store := s'\<rparr>)" and "fail_in s' = None"
    and "running s' = running (store e)" and "candidate s' = t" and "ring_wf s' = ring_wf (store e)"
proof -
  obtain s' where s': "set_candidate t (store e) = (Some (), s')" "fail_in s' = None"
    using sound_set_candidate assms unfolding sound_def by blast
  show thesis
    using s' set_candidate_Some [OF s'(1)]
    by (intro that [of s']) (simp_all add: set_candidate_rpc_def with_store_def ring_wf_def)
qed

lemma commit_store_succeeds:
  assumes "fail_in (store e) = None"
  obtains resp e' where "commit env req None (Inr ch) at now e = (Inr resp, e')"
    and "store_commit (json_of env) (candidate (store e)) (commit_meta at req) (store e) = (Some (), store e')"
proof -
  obtain s' where s': "store_commit (json_of env) (candidate (store e)) (commit_meta at req) (store e) = (Some (), s')"
    using sound_commit assms unfolding sound_def by blast
  obtain resp e' where c: "commit env req None (Inr ch) at now e = (Inr resp, e')" and "store e' = s'"
    using s' by (auto simp: commit_def apply_and_persist_def Let_def start_timer_def split: if_splits)
  with s' show thesis by (intro that [of resp e']) simp_all
qed

end
