(* ===== verification/Orch_Lacp.thy ===== *)
theory Orch_Lacp
  imports Hemlock_Prelude
begin

text \<open>
  The link-aggregation engine (\<^verbatim>\<open>src/src/hemlock-orch/src/lacp.rs\<close>): the state behind its
  mutex, the configuration push, the two kinds of input of its task, and the evaluation pass that
  follows every input. What it sends is a list of outputs: frames for the transport and gate
  updates for the pusher. \<open>Instant::now()\<close> is an argument. A poisoned mutex, which only a
  panic inside the engine could leave behind, is not modelled.
\<close>

section \<open>Frames\<close>

definition lacp_dst :: mac where
  "lacp_dst = [0x01, 0x80, 0xc2, 0x00, 0x00, 0x02]"

definition lacp_ethertype :: u16 where
  "lacp_ethertype = 0x8809"

definition ACTIVITY :: u8 where "ACTIVITY = 0x01"
definition TIMEOUT :: u8 where "TIMEOUT = 0x02"
definition AGGREGATION :: u8 where "AGGREGATION = 0x04"
definition SYNC :: u8 where "SYNC = 0x08"
definition COLLECTING :: u8 where "COLLECTING = 0x10"
definition DISTRIBUTING :: u8 where "DISTRIBUTING = 0x20"
definition DEFAULTED :: u8 where "DEFAULTED = 0x40"
definition EXPIRED :: u8 where "EXPIRED = 0x80"

lemmas state_bits = ACTIVITY_def TIMEOUT_def AGGREGATION_def SYNC_def COLLECTING_def DISTRIBUTING_def
  DEFAULTED_def EXPIRED_def

record partner =
  p_system_priority :: u16
  p_system :: mac
  p_key :: u16
  p_port_priority :: u16
  p_port :: u16
  p_state :: u8

definition partner_tlv :: "partner \<Rightarrow> bytes" where
  "partner_tlv p = to_be 2 (p_system_priority p) @ p_system p @ to_be 2 (p_key p)
     @ to_be 2 (p_port_priority p) @ to_be 2 (p_port p) @ [p_state p, 0, 0, 0]"

definition resize :: "nat \<Rightarrow> bytes \<Rightarrow> bytes" where
  "resize n bs = take n bs @ replicate (n - length bs) 0"

definition encode_pdu ::
  "mac \<Rightarrow> u16 \<Rightarrow> mac \<Rightarrow> u16 \<Rightarrow> u16 \<Rightarrow> u16 \<Rightarrow> u8 \<Rightarrow> partner option \<Rightarrow> bytes" where
  "encode_pdu src_mac system_priority system_mac key port_priority port actor_state p =
     resize (14 + 110)
       (lacp_dst @ src_mac @ to_be 2 lacp_ethertype @ [0x01, 0x01]
        @ [0x01, 20] @ to_be 2 system_priority @ system_mac @ to_be 2 key @ to_be 2 port_priority @ to_be 2 port
        @ [actor_state, 0, 0, 0]
        @ [0x02, 20] @ (case p of Some q \<Rightarrow> partner_tlv q | None \<Rightarrow> replicate 18 0)
        @ [0x03, 16] @ replicate 14 0 @ [0x00, 0x00])"

definition decode_pdu :: "bytes \<Rightarrow> partner option" where
  "decode_pdu frame =
     (if length frame < 14 + 2 + 20 then None
      else if take 2 (drop 12 frame) \<noteq> to_be 2 lacp_ethertype \<or> frame ! 14 \<noteq> 0x01 then None
      else let tlv = drop 16 frame; be16 = (\<lambda>a. from_be [tlv ! a, tlv ! (a + 1)]) in
        if tlv ! 0 \<noteq> 0x01 \<or> tlv ! 1 \<noteq> 20 then None
        else Some \<lparr>p_system_priority = be16 2, p_system = take 6 (drop 4 tlv), p_key = be16 10,
                   p_port_priority = be16 12, p_port = be16 14, p_state = tlv ! 16\<rparr>)"

section \<open>State\<close>

datatype lacp_mode = Active | Passive | On
datatype fallback = Static | Individual

record member_config =
  mc_mode :: lacp_mode
  rate_fast :: bool
  port_priority :: u16

record lag_config =
  lc_group :: u16
  min_links :: u8
  lc_fallback :: "fallback option"
  fallback_timeout :: duration
  lc_members :: "(string, member_config) btree"

record member =
  m_config :: member_config
  port_number :: u16
  link_up :: bool
  m_partner :: "partner option"
  last_rx :: "instant option"
  last_tx :: "instant option"
  bundled :: bool
  individual :: bool
  pdus_rx :: u64
  pdus_tx :: u64
  churn :: u32

record lag =
  l_config :: lag_config
  members :: "(string, member) btree"
  partnerless_since :: instant
  fallback_active :: bool
  last_gates :: "(string \<times> bool) list option"

record lacp =
  system_priority :: u16
  system_mac :: mac
  lags :: "(u16, lag) btree"
  port_to_lag :: "(string, u16) btree"
  link_states :: "(string, bool) btree"

definition spawn_lacp :: "mac \<Rightarrow> lacp" where
  "spawn_lacp mac = \<lparr>system_priority = 32768, system_mac = mac, lags = [], port_to_lag = [], link_states = []\<rparr>"

definition new_member :: "member_config \<Rightarrow> u16 \<Rightarrow> member" where
  "new_member config number =
     \<lparr>m_config = config, port_number = number, link_up = False, m_partner = None, last_rx = None, last_tx = None,
      bundled = False, individual = False, pdus_rx = 0, pdus_tx = 0, churn = 0\<rparr>"

definition partner_current :: "member \<Rightarrow> instant \<Rightarrow> bool" where
  "partner_current m now =
     (case last_rx m of
        None \<Rightarrow> False
      | Some at \<Rightarrow> since now at < from_secs (if rate_fast (m_config m) then 3 else 90))"

definition port_number_of :: "string \<Rightarrow> u16" where
  "port_number_of name =
     (case parse_uint 65536 (takeWhile is_digit (dropWhile (\<lambda>c. \<not> is_digit c) name)) of
        None \<Rightarrow> 0
      | Some n \<Rightarrow> of_nat n)"

section \<open>Configuration\<close>

definition joining_member :: "(string, bool) btree \<Rightarrow> string \<Rightarrow> member_config \<Rightarrow> member" where
  "joining_member links name config =
     (new_member config (port_number_of name))\<lparr>link_up := (case bt_get links name of None \<Rightarrow> False | Some up \<Rightarrow> up)\<rparr>"

definition update_members ::
  "(string, bool) btree \<Rightarrow> lag_config \<Rightarrow> (string, member) btree \<Rightarrow> (string, member) btree" where
  "update_members links config ms =
     fold (\<lambda>(name, mc) ms.
         case bt_get ms name of
           Some _ \<Rightarrow> bt_update name (\<lambda>m. m\<lparr>m_config := mc\<rparr>) ms
         | None \<Rightarrow> bt_insert name (joining_member links name mc) ms)
       (lc_members config) (bt_retain (\<lambda>name _. bt_contains (lc_members config) name) ms)"

definition configure_lag :: "(string, bool) btree \<Rightarrow> instant \<Rightarrow> lag_config \<Rightarrow> (u16, lag) btree \<Rightarrow> (u16, lag) btree" where
  "configure_lag links now config ls =
     (case bt_get ls (lc_group config) of
        Some _ \<Rightarrow>
          bt_update (lc_group config)
            (\<lambda>l. l\<lparr>members := update_members links config (members l), l_config := config\<rparr>) ls
      | None \<Rightarrow>
          bt_insert (lc_group config)
            \<lparr>l_config = config,
             members = fold (\<lambda>(name, mc). bt_insert name (joining_member links name mc)) (lc_members config) [],
             partnerless_since = now, fallback_active = False, last_gates = None\<rparr> ls)"

definition set_configs :: "u16 \<Rightarrow> lag_config list \<Rightarrow> instant \<Rightarrow> lacp \<Rightarrow> lacp" where
  "set_configs priority configs now e =
     (let wanted = map lc_group configs;
          ls = fold (configure_lag (link_states e) now) configs (bt_retain (\<lambda>g _. g \<in> set wanted) (lags e))
      in e\<lparr>system_priority := priority, lags := ls,
           port_to_lag := bt_collect (concat (map (\<lambda>(g, l). map (\<lambda>name. (name, g)) (bt_keys (members l))) ls))\<rparr>)"

section \<open>Inputs\<close>

definition update_member :: "string \<Rightarrow> (member \<Rightarrow> member) \<Rightarrow> lacp \<Rightarrow> lacp" where
  "update_member port f e =
     (case bt_get (port_to_lag e) port of
        None \<Rightarrow> e
      | Some g \<Rightarrow> e\<lparr>lags := bt_update g (\<lambda>l. l\<lparr>members := bt_update port f (members l)\<rparr>) (lags e)\<rparr>)"

definition link_event :: "string \<Rightarrow> bool \<Rightarrow> lacp \<Rightarrow> lacp" where
  "link_event port up e =
     update_member port
       (\<lambda>m. if up then m\<lparr>link_up := True\<rparr> else m\<lparr>link_up := False, m_partner := None, last_rx := None\<rparr>)
       (e\<lparr>link_states := bt_insert port up (link_states e)\<rparr>)"

definition pdu_event :: "string \<Rightarrow> bytes \<Rightarrow> instant \<Rightarrow> lacp \<Rightarrow> lacp" where
  "pdu_event port frame now e =
     (case decode_pdu frame of
        None \<Rightarrow> e
      | Some p \<Rightarrow>
          update_member port (\<lambda>m. m\<lparr>m_partner := Some p, last_rx := Some now, pdus_rx := pdus_rx m + 1\<rparr>) e)"

section \<open>The evaluation pass\<close>

definition actor_state_bits :: "member \<Rightarrow> bool \<Rightarrow> u8" where
  "actor_state_bits m current =
     AGGREGATION
     OR (if mc_mode (m_config m) = Active then ACTIVITY else 0)
     OR (if rate_fast (m_config m) then TIMEOUT else 0)
     OR (if link_up m \<and> (current \<or> mc_mode (m_config m) = On) then SYNC else 0)
     OR (if bundled m then COLLECTING OR DISTRIBUTING else 0)
     OR (if current then 0 else DEFAULTED OR (if m_partner m \<noteq> None then EXPIRED else 0))"

definition runs_lacp :: "lag_config \<Rightarrow> bool" where
  "runs_lacp c = (case lc_members c of [] \<Rightarrow> True | (_, m) # _ \<Rightarrow> mc_mode m \<noteq> On)"

definition partner_synced :: "member \<Rightarrow> bool" where
  "partner_synced m = (case m_partner m of None \<Rightarrow> False | Some p \<Rightarrow> p_state p AND SYNC \<noteq> 0)"

definition chosen_member :: "(string, member) btree \<Rightarrow> string option" where
  "chosen_member ms =
     map_option fst (min_by_key (\<lambda>(_, m). (port_priority (m_config m), port_number m))
       (filter (\<lambda>(_, m). link_up m) ms))"

text \<open>The wanted gate of every member, and whether it forwards individually.\<close>

definition wanted_gates :: "lag \<Rightarrow> bool \<Rightarrow> bool \<Rightarrow> instant \<Rightarrow> (string, bool \<times> bool) btree" where
  "wanted_gates l lacp_on fallback_armed now =
     (if \<not> lacp_on then bt_map (\<lambda>_ m. (link_up m, False)) (members l)
      else if fallback_armed then
        (case lc_fallback (l_config l) of
           Some Static \<Rightarrow> bt_map (\<lambda>_ m. (link_up m, False)) (members l)
         | Some Individual \<Rightarrow>
             bt_map (\<lambda>name _. (Some name = chosen_member (members l), Some name = chosen_member (members l))) (members l)
         | None \<Rightarrow> [])
      else bt_map (\<lambda>_ m. (link_up m \<and> partner_current m now \<and> partner_synced m, False)) (members l))"

definition bundle_size :: "(string, bool \<times> bool) btree \<Rightarrow> nat" where
  "bundle_size wanted = length (filter (\<lambda>(_, gate, indiv). gate \<and> \<not> indiv) wanted)"

definition apply_min_links :: "u8 \<Rightarrow> (string, bool \<times> bool) btree \<Rightarrow> (string, bool \<times> bool) btree" where
  "apply_min_links n wanted =
     (if 0 < n \<and> bundle_size wanted < unat n
      then bt_map (\<lambda>_ (gate, indiv). (if indiv then gate else False, indiv)) wanted
      else wanted)"

definition apply_gate :: "(string, bool \<times> bool) btree \<Rightarrow> string \<Rightarrow> member \<Rightarrow> member" where
  "apply_gate wanted name m =
     (let (gate, indiv) = (case bt_get wanted name of None \<Rightarrow> (False, False) | Some w \<Rightarrow> w);
          m' = (if bundled m \<noteq> gate then m\<lparr>bundled := gate, churn := churn m + 1\<rparr> else m)
      in m'\<lparr>individual := indiv\<rparr>)"

definition gate_list :: "lag \<Rightarrow> (string \<times> bool) list" where
  "gate_list l = map (\<lambda>(name, m). (name, bundled m)) (members l)"

definition armed :: "lag \<Rightarrow> instant \<Rightarrow> bool" where
  "armed l now \<longleftrightarrow> runs_lacp (l_config l) \<and> lc_fallback (l_config l) \<noteq> None
     \<and> \<not> list_ex (\<lambda>(_, m). partner_current m now) (members l)
     \<and> fallback_timeout (l_config l) \<le> since now (partnerless_since l)"

text \<open>Arm the fallback, select the gates, apply them.\<close>

definition evaluate :: "instant \<Rightarrow> lag \<Rightarrow> lag" where
  "evaluate now l =
     (let l1 = (if list_ex (\<lambda>(_, m). partner_current m now) (members l) then l\<lparr>partnerless_since := now\<rparr> else l);
          wanted = apply_min_links (min_links (l_config l))
                     (wanted_gates l1 (runs_lacp (l_config l)) (armed l1 now) now)
      in l1\<lparr>fallback_active := armed l1 now, members := bt_map (apply_gate wanted) (members l1)\<rparr>)"

text \<open>Send the gates when they differ from those sent last.\<close>

definition push_gates :: "lag \<Rightarrow> lag \<times> (u16 \<times> (string \<times> bool) list) list" where
  "push_gates l =
     (if last_gates l = Some (gate_list l) then (l, [])
      else (l\<lparr>last_gates := Some (gate_list l)\<rparr>, [(lc_group (l_config l), gate_list l)]))"

definition tx_interval :: "member \<Rightarrow> bool \<Rightarrow> duration" where
  "tx_interval m current =
     from_secs (if (case (if current then m_partner m else None) of
                      Some p \<Rightarrow> p_state p AND TIMEOUT \<noteq> 0
                    | None \<Rightarrow> rate_fast (m_config m)) then 1 else 30)"

definition transmit :: "u16 \<Rightarrow> mac \<Rightarrow> u16 \<Rightarrow> instant \<Rightarrow> string \<times> member \<Rightarrow> (string \<times> member) \<times> (string \<times> bytes) list" where
  "transmit priority mac grp now nm =
     (let (name, m) = nm; current = partner_current m now in
      if \<not> link_up m \<or> (mc_mode (m_config m) \<noteq> Active \<and> \<not> current)
         \<or> (case last_tx m of None \<Rightarrow> False | Some at \<Rightarrow> since now at < tx_interval m current)
      then (nm, [])
      else ((name, m\<lparr>last_tx := Some now, pdus_tx := pdus_tx m + 1\<rparr>),
            [(name, encode_pdu mac priority mac grp (port_priority (m_config m)) (port_number m)
                      (actor_state_bits m current) (if current then m_partner m else None))]))"

definition step_lag ::
  "u16 \<Rightarrow> mac \<Rightarrow> instant \<Rightarrow> lag \<Rightarrow> lag \<times> (u16 \<times> (string \<times> bool) list) list \<times> (string \<times> bytes) list" where
  "step_lag priority mac now l =
     (let (l1, gates) = push_gates (evaluate now l) in
      if runs_lacp (l_config l)
      then let txs = map (transmit priority mac (lc_group (l_config l)) now) (members l1)
           in (l1\<lparr>members := map fst txs\<rparr>, gates, concat (map snd txs))
      else (l1, gates, []))"

definition lacp_step ::
  "instant \<Rightarrow> lacp \<Rightarrow> lacp \<times> (u16 \<times> (string \<times> bool) list) list \<times> (string \<times> bytes) list" where
  "lacp_step now e =
     (let rs = map (\<lambda>(g, l). (g, step_lag (system_priority e) (system_mac e) now l)) (lags e)
      in (e\<lparr>lags := map (\<lambda>(g, r). (g, fst r)) rs\<rparr>,
          concat (map (\<lambda>(_, r). fst (snd r)) rs),
          concat (map (\<lambda>(_, r). snd (snd r)) rs)))"

datatype lacp_input = Tick | Link string bool | Pdu string bytes | SetConfigs u16 "lag_config list"

text \<open>
  One turn of the task: an input, then the pass. A configuration push only changes the state; the
  wake-up it sends to the task is a later tick. The handler of the input and the pass read the clock one after
  the other; both reads give the instant of the turn.
\<close>

definition lacp_turn ::
  "lacp \<Rightarrow> lacp_input \<times> instant \<Rightarrow> lacp \<times> (u16 \<times> (string \<times> bool) list) list \<times> (string \<times> bytes) list" where
  "lacp_turn e ev =
     (let now = snd ev in
      case fst ev of
        Tick \<Rightarrow> lacp_step now e
      | Link port up \<Rightarrow> lacp_step now (link_event port up e)
      | Pdu port frame \<Rightarrow> lacp_step now (pdu_event port frame now e)
      | SetConfigs priority configs \<Rightarrow> (set_configs priority configs now e, [], []))"

section \<open>Snapshot\<close>

record member_snapshot =
  sn_port :: string
  sn_status :: string
  sn_rate_fast :: bool
  sn_actor_state :: u8
  sn_partner_state :: u8
  sn_partner_system :: "(u16 \<times> mac) option"
  sn_partner_port :: u16
  sn_partner_key :: u16
  sn_partner_priority :: u16
  sn_pdus_rx :: u64
  sn_pdus_tx :: u64
  sn_churn :: u32

record lag_snapshot =
  sn_group :: u16
  sn_lacp :: bool
  sn_active_mode :: bool
  sn_bundled :: nat
  sn_total :: nat
  sn_up :: bool
  sn_min_links :: u8
  sn_fallback :: "fallback option"
  sn_fallback_timeout :: duration
  sn_fallback_active :: bool
  sn_members :: "member_snapshot list"

definition member_status :: "member \<Rightarrow> string" where
  "member_status m =
     (if individual m then ''individual'' else if bundled m then ''bundled''
      else if link_up m then ''standby'' else ''down'')"

definition snapshot_member :: "instant \<Rightarrow> string \<times> member \<Rightarrow> member_snapshot" where
  "snapshot_member now nm =
     (let (name, m) = nm; current = partner_current m now;
          of_partner = (\<lambda>f. case m_partner m of None \<Rightarrow> 0 | Some p \<Rightarrow> f p) in
      \<lparr>sn_port = name, sn_status = member_status m, sn_rate_fast = rate_fast (m_config m),
       sn_actor_state = actor_state_bits m current,
       sn_partner_state = (case m_partner m of None \<Rightarrow> 0 | Some p \<Rightarrow> p_state p),
       sn_partner_system = (if current then map_option (\<lambda>p. (p_system_priority p, p_system p)) (m_partner m) else None),
       sn_partner_port = of_partner p_port, sn_partner_key = of_partner p_key,
       sn_partner_priority = of_partner p_port_priority,
       sn_pdus_rx = pdus_rx m, sn_pdus_tx = pdus_tx m, sn_churn = churn m\<rparr>)"

definition snapshot_lag :: "instant \<Rightarrow> lag \<Rightarrow> lag_snapshot" where
  "snapshot_lag now l =
     (let n = length (filter (\<lambda>(_, m). bundled m \<and> \<not> individual m) (members l)) in
      \<lparr>sn_group = lc_group (l_config l), sn_lacp = runs_lacp (l_config l),
       sn_active_mode = (case lc_members (l_config l) of [] \<Rightarrow> False | (_, m) # _ \<Rightarrow> mc_mode m = Active),
       sn_bundled = n, sn_total = length (members l),
       sn_up = (0 < n \<or> list_ex (\<lambda>(_, m). bundled m \<and> individual m) (members l)),
       sn_min_links = min_links (l_config l), sn_fallback = lc_fallback (l_config l),
       sn_fallback_timeout = fallback_timeout (l_config l), sn_fallback_active = fallback_active l,
       sn_members = map (snapshot_member now) (members l)\<rparr>)"

definition lacp_snapshot :: "instant \<Rightarrow> lacp \<Rightarrow> u16 \<times> mac \<times> lag_snapshot list" where
  "lacp_snapshot now e = (system_priority e, system_mac e, map (\<lambda>(_, l). snapshot_lag now l) (lags e))"

section \<open>The frame format\<close>

lemma length_resize [simp]: "length (resize n bs) = n"
  by (simp add: resize_def)

lemma resize_append: "length xs \<le> n \<Longrightarrow> resize n (xs @ ys) = xs @ resize (n - length xs) ys"
  by (simp add: resize_def)

lemma decode_encode_pdu:
  assumes "length src = 6" and "length mac = 6"
  shows "decode_pdu (encode_pdu src prio mac key pprio port st p) =
    Some \<lparr>p_system_priority = prio, p_system = mac, p_key = key, p_port_priority = pprio, p_port = port, p_state = st\<rparr>"
proof -
  obtain s1 s2 s3 s4 s5 s6 where src: "src = [s1, s2, s3, s4, s5, s6]" using assms(1) by (rule mac_cases)
  obtain m1 m2 m3 m4 m5 m6 where mac: "mac = [m1, m2, m3, m4, m5, m6]" using assms(2) by (rule mac_cases)
  obtain a1 a2 where a: "to_be 2 prio = [a1, a2]" "from_be [a1, a2] = prio" by (rule to_be_2_cases)
  obtain b1 b2 where b: "to_be 2 key = [b1, b2]" "from_be [b1, b2] = key" by (rule to_be_2_cases)
  obtain c1 c2 where c: "to_be 2 pprio = [c1, c2]" "from_be [c1, c2] = pprio" by (rule to_be_2_cases)
  obtain d1 d2 where d: "to_be 2 port = [d1, d2]" "from_be [d1, d2] = port" by (rule to_be_2_cases)
  obtain e1 e2 where e: "to_be 2 lacp_ethertype = [e1, e2]" by (rule to_be_2_cases)
  let ?head = "lacp_dst @ src @ [e1, e2] @ [0x01, 0x01] @ [0x01, 20] @ [a1, a2] @ mac @ [b1, b2] @ [c1, c2]
    @ [d1, d2] @ [st, 0, 0, 0]"
  obtain rest where "encode_pdu src prio mac key pprio port st p = ?head @ rest"
    using resize_append [of ?head "14 + 110"]
    by (auto simp: encode_pdu_def a(1) b(1) c(1) d(1) e src mac lacp_dst_def)
  then show ?thesis
    by (simp add: decode_pdu_def e src mac lacp_dst_def a(2) b(2) c(2) d(2) Let_def)
qed

lemma length_encode_pdu [simp]: "length (encode_pdu src prio mac key pprio port st p) = 124"
  by (simp add: encode_pdu_def)

section \<open>The gates a pass selects\<close>

text \<open>The choice for one member, in the cases that occur.\<close>

definition gate_choice :: "lag \<Rightarrow> instant \<Rightarrow> string \<Rightarrow> member \<Rightarrow> bool \<times> bool" where
  "gate_choice l now name m =
     (if \<not> runs_lacp (l_config l) \<or> armed l now \<and> lc_fallback (l_config l) = Some Static then (link_up m, False)
      else if armed l now then (Some name = chosen_member (members l), Some name = chosen_member (members l))
      else (link_up m \<and> partner_current m now \<and> partner_synced m, False))"

lemma wanted_gates_choice:
  "wanted_gates l (runs_lacp (l_config l)) (armed l now) now = bt_map (gate_choice l now) (members l)"
  by (auto simp: wanted_gates_def gate_choice_def armed_def bt_map_def split: option.split fallback.split)

definition closed_by_min_links :: "lag \<Rightarrow> instant \<Rightarrow> bool" where
  "closed_by_min_links l now \<longleftrightarrow> 0 < min_links (l_config l)
     \<and> bundle_size (bt_map (gate_choice l now) (members l)) < unat (min_links (l_config l))"

definition final_gate :: "lag \<Rightarrow> instant \<Rightarrow> string \<Rightarrow> member \<Rightarrow> bool \<times> bool" where
  "final_gate l now name m =
     (case gate_choice l now name m of (gate, indiv) \<Rightarrow>
        (if closed_by_min_links l now \<and> \<not> indiv then False else gate, indiv))"

lemma apply_min_links_final:
  "apply_min_links (min_links (l_config l)) (bt_map (gate_choice l now) (members l)) =
     bt_map (final_gate l now) (members l)"
  by (auto simp: apply_min_links_def closed_by_min_links_def final_gate_def bt_map_map split: prod.split
      intro!: bt_map_cong)

text \<open>The lag as the selection sees it: the fallback clock restarts when a partner is heard.\<close>

definition heard :: "instant \<Rightarrow> lag \<Rightarrow> lag" where
  "heard now l =
     (if list_ex (\<lambda>(_, m). partner_current m now) (members l) then l\<lparr>partnerless_since := now\<rparr> else l)"

lemma heard_fields [simp]: "members (heard now l) = members l" "l_config (heard now l) = l_config l"
  "last_gates (heard now l) = last_gates l"
  by (simp_all add: heard_def)

lemma evaluate_final:
  assumes "bt_wf (members l)"
  shows "members (evaluate now l) =
    bt_map (\<lambda>name m. apply_gate (bt_map (final_gate (heard now l) now) (members l)) name m) (members l)"
    and "l_config (evaluate now l) = l_config l" and "last_gates (evaluate now l) = last_gates l"
    and "fallback_active (evaluate now l) = armed (heard now l) now"
  using apply_min_links_final [of "heard now l" now] wanted_gates_choice [of "heard now l" now]
  by (simp_all add: evaluate_def Let_def flip: heard_def)

lemma apply_gate_fields [simp]:
  "m_config (apply_gate w n m) = m_config m" "port_number (apply_gate w n m) = port_number m"
  "link_up (apply_gate w n m) = link_up m" "m_partner (apply_gate w n m) = m_partner m"
  "last_rx (apply_gate w n m) = last_rx m" "last_tx (apply_gate w n m) = last_tx m"
  by (simp_all add: apply_gate_def Let_def split: prod.split option.split)

lemma partner_current_gate [simp]: "partner_current (apply_gate w n m) now = partner_current m now"
  by (simp add: partner_current_def)

lemma partner_synced_gate [simp]: "partner_synced (apply_gate w n m) = partner_synced m"
  by (simp add: partner_synced_def)

lemma apply_gate_bundled:
  "bt_get w n = Some (g, i) \<Longrightarrow> bundled (apply_gate w n m) = g \<and> individual (apply_gate w n m) = i"
  by (simp add: apply_gate_def Let_def)

lemma evaluate_member:
  assumes "bt_wf (members l)" and "(name, m') \<in> set (members (evaluate now l))"
  obtains m where "(name, m) \<in> set (members l)" and "link_up m' = link_up m" and "m_partner m' = m_partner m"
    and "partner_current m' now = partner_current m now" and "partner_synced m' = partner_synced m"
    and "m_config m' = m_config m" and "port_number m' = port_number m"
    and "(bundled m', individual m') = final_gate (heard now l) now name m"
proof -
  let ?w = "bt_map (final_gate (heard now l) now) (members l)"
  from assms obtain m where m: "(name, m) \<in> set (members l)" "m' = apply_gate ?w name m"
    by (auto simp: evaluate_final(1) bt_map_set)
  have "bt_get ?w name = Some (final_gate (heard now l) now name m)"
    using m(1) by (simp add: bt_get_map bt_get_in_set [OF assms(1), THEN iffD2])
  then have "(bundled m', individual m') = final_gate (heard now l) now name m"
    by (cases "final_gate (heard now l) now name m") (simp add: m(2) apply_gate_bundled)
  with m show thesis by (intro that [of m]) simp_all
qed

lemma chosen_member_least:
  assumes "chosen_member ms = Some name"
  obtains m where "(name, m) \<in> set ms" and "link_up m"
    and "\<And>n' m'. (n', m') \<in> set ms \<Longrightarrow> link_up m' \<Longrightarrow>
      (port_priority (m_config m), port_number m) \<le> (port_priority (m_config m'), port_number m')"
proof -
  from assms obtain m where
    "min_by_key (\<lambda>(_, m). (port_priority (m_config m), port_number m)) (filter (\<lambda>(_, m). link_up m) ms) = Some (name, m)"
    by (auto simp: chosen_member_def)
  from min_by_key_in [OF this] min_by_key_le [OF this] show thesis
    by (intro that [of m]) (fastforce simp del: less_eq_prod_simp)+
qed

lemma evaluate_gate_open:
  assumes "bt_wf (members l)" and "(name, m) \<in> set (members (evaluate now l))" and "bundled m"
  shows "link_up m" and "runs_lacp (l_config l) \<Longrightarrow> \<not> fallback_active (evaluate now l) \<Longrightarrow>
    partner_current m now \<and> partner_synced m"
proof -
  from assms(1,2) obtain m0 where m0: "(name, m0) \<in> set (members l)" "link_up m = link_up m0"
      "partner_current m now = partner_current m0 now" "partner_synced m = partner_synced m0"
      "(bundled m, individual m) = final_gate (heard now l) now name m0"
    by (rule evaluate_member)
  have gate: "fst (gate_choice (heard now l) now name m0)"
    using m0(5) assms(3) by (auto simp: final_gate_def split: prod.splits if_splits)
  have "link_up m0" if "Some name = chosen_member (members l)"
  proof -
    from that obtain m1 where "(name, m1) \<in> set (members l)" "link_up m1"
      by (elim chosen_member_least [OF sym])
    with m0(1) show ?thesis
      using bt_get_in_set [OF assms(1), of name] by (metis option.inject)
  qed
  with gate show "link_up m" by (auto simp: m0(2) gate_choice_def split: if_splits)
  show "runs_lacp (l_config l) \<Longrightarrow> \<not> fallback_active (evaluate now l) \<Longrightarrow> partner_current m now \<and> partner_synced m"
    using gate assms(1) by (auto simp: m0(3,4) gate_choice_def evaluate_final(4) split: if_splits)
qed

text \<open>The aggregate has no member or at least \<open>min_links\<close> of them.\<close>

definition aggregate_size :: "lag \<Rightarrow> nat" where
  "aggregate_size l = length (filter (\<lambda>(_, m). bundled m \<and> \<not> individual m) (members l))"

lemma aggregate_size_evaluate:
  assumes "bt_wf (members l)"
  shows "aggregate_size (evaluate now l) = bundle_size (bt_map (final_gate (heard now l) now) (members l))"
proof -
  let ?f = "final_gate (heard now l) now" and ?w = "bt_map (final_gate (heard now l) now) (members l)"
  have "(bundled (apply_gate ?w n m) \<and> \<not> individual (apply_gate ?w n m)) = (fst (?f n m) \<and> \<not> snd (?f n m))"
    if "(n, m) \<in> set (members l)" for n m
  proof -
    have "bt_get ?w n = Some (?f n m)"
      using that by (simp add: bt_get_map bt_get_in_set [OF assms, THEN iffD2])
    then show ?thesis using apply_gate_bundled [of ?w n "fst (?f n m)" "snd (?f n m)" m] by simp
  qed
  then have "filter (\<lambda>p. bundled (apply_gate ?w (fst p) (snd p)) \<and> \<not> individual (apply_gate ?w (fst p) (snd p))) (members l)
      = filter (\<lambda>p. fst (?f (fst p) (snd p)) \<and> \<not> snd (?f (fst p) (snd p))) (members l)"
    by (intro filter_cong) auto
  then show ?thesis
    by (simp add: aggregate_size_def bundle_size_def evaluate_final(1) [OF assms])
      (simp add: bt_map_def filter_map comp_def split_beta)
qed

lemma min_links_respected:
  assumes "bt_wf (members l)"
  shows "aggregate_size (evaluate now l) = 0 \<or> unat (min_links (l_config l)) \<le> aggregate_size (evaluate now l)"
proof (cases "closed_by_min_links (heard now l) now")
  case True
  then have "bundle_size (bt_map (final_gate (heard now l) now) (members l)) = 0"
    by (auto simp: bundle_size_def final_gate_def bt_map_def filter_empty_conv split: prod.splits)
  then show ?thesis by (simp add: aggregate_size_evaluate [OF assms])
next
  case False
  then have "final_gate (heard now l) now = gate_choice (heard now l) now"
    by (auto simp: fun_eq_iff final_gate_def split: prod.split)
  with False show ?thesis
    by (auto simp: aggregate_size_evaluate [OF assms] closed_by_min_links_def word_greater_zero_iff)
qed

lemma synced_member_bundled:
  assumes "bt_wf (members l)" and "bt_get (members l) name = Some m" and "runs_lacp (l_config l)" and "min_links (l_config l) \<le> 1"
    and "link_up m" and "partner_current m now" and "partner_synced m"
  shows "\<exists>m'. bt_get (members (evaluate now l)) name = Some m' \<and> bundled m'" and "\<not> fallback_active (evaluate now l)"
proof -
  let ?h = "heard now l"
  have in_set: "(name, m) \<in> set (members l)" using assms(1,2) by (simp add: bt_get_in_set)
  then have "\<not> armed ?h now" using assms(6) by (auto simp: armed_def list_ex_iff)
  then show "\<not> fallback_active (evaluate now l)" by (simp add: evaluate_final [OF assms(1)])
  have choice: "gate_choice ?h now name m = (True, False)"
    using \<open>\<not> armed ?h now\<close> assms(3,5-7) by (simp add: gate_choice_def)
  let ?open = "filter (\<lambda>(_, gate, indiv). gate \<and> \<not> indiv) (bt_map (gate_choice ?h now) (members l))"
  have "(name, True, False) \<in> set ?open"
    using in_set choice by (force simp: bt_map_set)
  then have "1 \<le> bundle_size (bt_map (gate_choice ?h now) (members l))"
    unfolding bundle_size_def by (cases ?open) auto
  moreover have "unat (min_links (l_config l)) \<le> 1" using assms(4) by (simp add: word_le_nat_alt)
  ultimately have "\<not> closed_by_min_links ?h now" by (simp add: closed_by_min_links_def)
  with choice have "final_gate ?h now name m = (True, False)" by (simp add: final_gate_def)
  with assms(2) show "\<exists>m'. bt_get (members (evaluate now l)) name = Some m' \<and> bundled m'"
    using apply_gate_bundled [of "bt_map (final_gate ?h now) (members l)" name True False m]
    by (simp add: evaluate_final(1) [OF assms(1)] bt_simps)
qed

section \<open>The invariant\<close>

definition lag_wf :: "u16 \<Rightarrow> lag \<Rightarrow> bool" where
  "lag_wf g l \<longleftrightarrow> lc_group (l_config l) = g \<and> bt_wf (members l)"

definition lacp_wf :: "lacp \<Rightarrow> bool" where
  "lacp_wf e \<longleftrightarrow> bt_wf (lags e) \<and> list_all (\<lambda>(g, l). lag_wf g l) (lags e)"

lemma lacp_wf_spawn [simp]: "lacp_wf (spawn_lacp mac)"
  by (simp add: lacp_wf_def spawn_lacp_def)

lemma update_member_wf:
  assumes "lacp_wf e"
  shows "lacp_wf (update_member port f e)"
  using assms
  by (auto simp: lacp_wf_def update_member_def lag_wf_def split: option.split intro!: list_all_bt_update)

lemma link_event_wf: "lacp_wf e \<Longrightarrow> lacp_wf (link_event port up e)"
  unfolding link_event_def by (rule update_member_wf) (simp add: lacp_wf_def)

lemma pdu_event_wf: "lacp_wf e \<Longrightarrow> lacp_wf (pdu_event port frame now e)"
  by (simp add: pdu_event_def update_member_wf split: option.split)

lemma update_members_wf: "bt_wf ms \<Longrightarrow> bt_wf (update_members links config ms)"
  unfolding update_members_def by (rule fold_keeps) (auto split: option.split)

lemma configure_lag_wf:
  assumes "bt_wf ls" and "list_all (\<lambda>(g, l). lag_wf g l) ls"
  shows "bt_wf (configure_lag links now config ls) \<and> list_all (\<lambda>(g, l). lag_wf g l) (configure_lag links now config ls)"
proof -
  have "bt_wf (fold (\<lambda>(name, mc). bt_insert name (joining_member links name mc)) (lc_members config) [])"
    by (rule fold_keeps) auto
  then show ?thesis
    using assms by (auto simp: configure_lag_def lag_wf_def update_members_wf split: option.split
      intro!: list_all_bt_update list_all_bt_insert)
qed

lemma set_configs_wf:
  assumes "lacp_wf e"
  shows "lacp_wf (set_configs priority configs now e)"
proof -
  let ?P = "\<lambda>ls. bt_wf ls \<and> list_all (\<lambda>(g, l). lag_wf g l) ls"
  let ?kept = "bt_retain (\<lambda>g _. g \<in> lc_group ` set configs) (lags e)"
  have "?P ?kept"
    using assms by (auto simp: lacp_wf_def bt_retain_def bt_wf_filter list_all_iff)
  then have "?P (fold (configure_lag (link_states e) now) configs ?kept)"
    by (rule fold_keeps) (use configure_lag_wf in blast)
  then show ?thesis by (simp add: lacp_wf_def set_configs_def Let_def)
qed

lemma transmit_member [simp]:
  "fst (fst (transmit priority mac grp now nm)) = fst nm"
  "bundled (snd (fst (transmit priority mac grp now nm))) = bundled (snd nm)"
  "individual (snd (fst (transmit priority mac grp now nm))) = individual (snd nm)"
  "link_up (snd (fst (transmit priority mac grp now nm))) = link_up (snd nm)"
  "m_config (snd (fst (transmit priority mac grp now nm))) = m_config (snd nm)"
  "port_number (snd (fst (transmit priority mac grp now nm))) = port_number (snd nm)"
  "last_rx (snd (fst (transmit priority mac grp now nm))) = last_rx (snd nm)"
  "m_partner (snd (fst (transmit priority mac grp now nm))) = m_partner (snd nm)"
  by (simp_all add: transmit_def Let_def split_beta)

lemma push_gates_fields [simp]:
  "members (fst (push_gates l)) = members l" "l_config (fst (push_gates l)) = l_config l"
  "last_gates (fst (push_gates l)) = Some (gate_list l)" "fallback_active (fst (push_gates l)) = fallback_active l"
  by (simp_all add: push_gates_def)

lemma evaluate_keys: "bt_keys (members (evaluate now l)) = bt_keys (members l)"
  by (simp add: evaluate_def Let_def)

lemma step_lag_fields:
  assumes "bt_wf (members l)"
  shows "l_config (fst (step_lag priority mac now l)) = l_config l"
    and "bt_keys (members (fst (step_lag priority mac now l))) = bt_keys (members l)"
    and "last_gates (fst (step_lag priority mac now l)) = Some (gate_list (evaluate now l))"
    and "gate_list (fst (step_lag priority mac now l)) = gate_list (evaluate now l)"
    and "fallback_active (fst (step_lag priority mac now l)) = fallback_active (evaluate now l)"
    and "fst (snd (step_lag priority mac now l)) = snd (push_gates (evaluate now l))"
  using evaluate_keys [of now l] evaluate_final(2) [OF assms]
  by (simp_all add: step_lag_def Let_def split_beta gate_list_def comp_def)

lemma step_lag_wf: "lag_wf g l \<Longrightarrow> lag_wf g (fst (step_lag priority mac now l))"
  by (simp add: lag_wf_def step_lag_fields bt_wf_def)

lemma lags_step: "lags (fst (lacp_step now e)) = bt_map (\<lambda>_ l. fst (step_lag (system_priority e) (system_mac e) now l)) (lags e)"
  by (simp add: lacp_step_def Let_def bt_map_def split_beta comp_def)

lemma lacp_step_wf: "lacp_wf e \<Longrightarrow> lacp_wf (fst (lacp_step now e))"
  by (fastforce simp: lacp_wf_def lags_step list_all_iff bt_map_set intro: step_lag_wf)

definition lacp_push :: "lacp \<Rightarrow> lacp_input \<times> instant \<Rightarrow> lacp \<times> (u16 \<times> (string \<times> bool) list) list" where
  "lacp_push e ev = (fst (lacp_turn e ev), fst (snd (lacp_turn e ev)))"

lemma lacp_turn_wf: "lacp_wf e \<Longrightarrow> lacp_wf (fst (lacp_turn e ev))"
  by (simp add: lacp_turn_def Let_def lacp_step_wf link_event_wf pdu_event_wf set_configs_wf split: lacp_input.split)

section \<open>The gate updates\<close>

definition pushed_gates :: "lacp \<Rightarrow> u16 \<Rightarrow> (string \<times> bool) list option" where
  "pushed_gates e g = (case bt_get (lags e) g of None \<Rightarrow> None | Some l \<Rightarrow> last_gates l)"

lemma pushed_update_member [simp]: "pushed_gates (update_member port f e) = pushed_gates e"
  by (auto simp: pushed_gates_def update_member_def bt_simps fun_eq_iff split: option.split)

lemma pushed_link_event [simp]: "pushed_gates (link_event port up e) = pushed_gates e"
  unfolding link_event_def pushed_update_member by (simp add: pushed_gates_def fun_eq_iff)

lemma pushed_pdu_event [simp]: "pushed_gates (pdu_event port frame now e) = pushed_gates e"
  by (simp add: pdu_event_def split: option.split)

lemma lags_set_configs:
  "lags (set_configs priority configs now e) =
     fold (configure_lag (link_states e) now) configs (bt_retain (\<lambda>g _. g \<in> lc_group ` set configs) (lags e))"
  by (simp add: set_configs_def Let_def)

lemma configure_lag_last_gates:
  "bt_get (configure_lag links now config ls) g = Some l \<Longrightarrow> last_gates l = Some v \<Longrightarrow>
     \<exists>l0. bt_get ls g = Some l0 \<and> last_gates l0 = Some v"
  by (auto simp: configure_lag_def bt_simps split: option.splits if_splits)

lemma pushed_set_configs:
  assumes "lacp_wf e" and "pushed_gates (set_configs priority configs now e) g = Some v"
  shows "pushed_gates e g = Some v"
proof -
  let ?P = "\<lambda>ls. \<forall>l v. bt_get ls g = Some l \<and> last_gates l = Some v \<longrightarrow> pushed_gates e g = Some v"
  let ?kept = "bt_retain (\<lambda>g _. g \<in> lc_group ` set configs) (lags e)"
  have "?P ?kept"
    using assms(1) by (auto simp: lacp_wf_def bt_get_retain pushed_gates_def split: option.splits if_splits)
  then have "?P (fold (configure_lag (link_states e) now) configs ?kept)"
    by (rule fold_keeps) (blast dest: configure_lag_last_gates)
  with assms(2) show ?thesis
    by (simp add: pushed_gates_def [of "set_configs priority configs now e"] lags_set_configs split: option.splits)
qed

lemma push_gates_key: "lag_wf g l \<Longrightarrow> fst ` set (snd (push_gates l)) \<subseteq> {g}"
  by (auto simp: push_gates_def lag_wf_def)

lemma push_gates_updates:
  assumes "lag_wf g l" and "\<And>v. last_gates l = Some v \<Longrightarrow> m g = Some v"
  shows "apply_updates (snd (push_gates l)) m g = Some (gate_list l)"
  using assms by (auto simp: push_gates_def lag_wf_def)

lemma step_pushes:
  assumes "lacp_wf e" and "\<And>g v. pushed_gates e g = Some v \<Longrightarrow> m g = Some v"
    and "bt_get (lags e) g = Some l"
  shows "apply_updates (fst (snd (lacp_step now e))) m g = Some (gate_list (evaluate now l))"
proof -
  let ?us = "\<lambda>l. snd (push_gates (evaluate now l))"
  have wf: "lag_wf g' (evaluate now l')" if "(g', l') \<in> set (lags e)" for g' l'
    using assms(1) that evaluate_keys [of now l']
    by (auto simp: lacp_wf_def list_all_iff lag_wf_def evaluate_final(2) bt_wf_def)
  have sent: "fst (snd (step_lag p mac now l')) = ?us l'" if "(g', l') \<in> set (lags e)" for g' l' p mac
    using assms(1) that by (auto simp: lacp_wf_def list_all_iff lag_wf_def step_lag_fields(6))
  have gl: "(g, l) \<in> set (lags e)"
    using assms(1,3) by (simp add: lacp_wf_def bt_get_in_set)
  have "fst (snd (lacp_step now e)) = concat (map snd (bt_map (\<lambda>_ l. ?us l) (lags e)))"
    by (auto simp: lacp_step_def Let_def bt_map_def split_beta comp_def sent intro!: arg_cong [where f = concat])
  moreover have "apply_updates (concat (map snd (bt_map (\<lambda>_ l. ?us l) (lags e)))) m g = apply_updates (?us l) m g"
  proof (rule apply_updates_concat)
    show "distinct (map fst (bt_map (\<lambda>_ l. ?us l) (lags e)))"
      using assms(1) bt_wf_distinct [of "lags e"] by (simp add: lacp_wf_def)
    show "fst ` set us \<subseteq> {k}" if "(k, us) \<in> set (bt_map (\<lambda>_ l. ?us l) (lags e))" for k us
      using that push_gates_key [OF wf] by (auto simp: bt_map_set)
    show "(g, ?us l) \<in> set (bt_map (\<lambda>_ l. ?us l) (lags e))"
      using gl by (auto simp: bt_map_set)
  qed
  moreover have "last_gates (evaluate now l) = Some v \<Longrightarrow> m g = Some v" for v
    using assms gl by (intro assms(2)) (auto simp: pushed_gates_def lacp_wf_def list_all_iff lag_wf_def evaluate_final(3))
  then have "apply_updates (?us l) m g = Some (gate_list (evaluate now l))"
    by (rule push_gates_updates [OF wf [OF gl]])
  ultimately show ?thesis by simp
qed

lemma pushed_step:
  assumes "lacp_wf e"
  shows "pushed_gates (fst (lacp_step now e)) g = map_option (\<lambda>l. gate_list (evaluate now l)) (bt_get (lags e) g)"
proof (cases "bt_get (lags e) g")
  case (Some l)
  with assms have "bt_wf (members l)"
    by (auto simp: lacp_wf_def list_all_iff lag_wf_def bt_get_in_set)
  with Some show ?thesis by (simp add: pushed_gates_def lags_step bt_simps step_lag_fields(3))
qed (simp add: pushed_gates_def lags_step bt_simps)

lemma step_mirror:
  assumes "lacp_wf e" and "p = pushed_gates e" and "pushed_gates (fst (lacp_step now e)) g = Some v"
  shows "apply_updates (fst (snd (lacp_step now e))) (\<lambda>k. if p k = None then m k else p k) g = Some v"
proof -
  from assms obtain l where l: "bt_get (lags e) g = Some l" "v = gate_list (evaluate now l)"
    by (auto simp: pushed_step)
  show ?thesis unfolding l(2) by (rule step_pushes [OF assms(1) _ l(1)]) (simp add: assms(2))
qed

interpretation gates: mirror lacp_push pushed_gates lacp_wf
proof
  fix e ev e' us k v and m :: "u16 \<Rightarrow> (string \<times> bool) list option"
  show "lacp_wf e \<Longrightarrow> lacp_wf (fst (lacp_push e ev))"
    by (simp add: lacp_push_def lacp_turn_wf)
  assume a: "lacp_wf e" "lacp_push e ev = (e', us)" "pushed_gates e' k = Some v"
  show "apply_updates us (\<lambda>k. if pushed_gates e k = None then m k else pushed_gates e k) k = Some v"
  proof (cases "fst ev")
    case Tick
    with a show ?thesis by (auto simp: lacp_push_def lacp_turn_def intro: step_mirror)
  next
    case (Link port up)
    with a show ?thesis by (auto simp: lacp_push_def lacp_turn_def intro: step_mirror link_event_wf)
  next
    case (Pdu port frame)
    with a show ?thesis by (auto simp: lacp_push_def lacp_turn_def Let_def intro: step_mirror pdu_event_wf)
  next
    case (SetConfigs priority configs)
    with a show ?thesis using pushed_set_configs [OF a(1)] by (auto simp: lacp_push_def lacp_turn_def)
  qed
qed

definition lacp_moves :: "lacp \<Rightarrow> lacp_input \<times> instant \<Rightarrow> lacp \<Rightarrow> bool" where
  "lacp_moves e ev e' \<longleftrightarrow> e' = fst (lacp_turn e ev)"

interpretation lacp_engine: machine lacp_moves lacp_wf
  by unfold_locales (simp add: lacp_moves_def lacp_turn_wf)

section \<open>Properties\<close>

text \<open>The inputs after which the task runs the evaluation pass.\<close>

definition runs_pass :: "lacp_input \<Rightarrow> bool" where
  "runs_pass i = (case i of SetConfigs _ _ \<Rightarrow> False | _ \<Rightarrow> True)"

lemma turn_is_pass:
  assumes "runs_pass (fst ev)" and "lacp_wf e"
  obtains e1 where "lacp_wf e1" and "lacp_turn e ev = lacp_step (snd ev) e1"
  using assms that
  by (cases "fst ev") (auto simp: runs_pass_def lacp_turn_def Let_def intro: link_event_wf pdu_event_wf)

lemma turn_lag:
  assumes "runs_pass (fst ev)" and "lacp_wf e" and "(g, l) \<in> set (lags (fst (lacp_turn e ev)))"
  obtains l0 p mac where "bt_wf (members l0)" and "l = fst (step_lag p mac (snd ev) l0)"
proof -
  from assms(1,2) obtain e1 where e1: "lacp_wf e1" "lacp_turn e ev = lacp_step (snd ev) e1" by (rule turn_is_pass)
  from assms(3) obtain l0 where "(g, l0) \<in> set (lags e1)" "l = fst (step_lag (system_priority e1) (system_mac e1) (snd ev) l0)"
    by (auto simp: e1(2) lags_step bt_map_set)
  with e1(1) show thesis by (intro that [of l0]) (auto simp: lacp_wf_def list_all_iff lag_wf_def)
qed

lemma step_lag_member:
  assumes "(name, m) \<in> set (members (fst (step_lag p mac now l)))"
  obtains m0 where "(name, m0) \<in> set (members (evaluate now l))" and "bundled m = bundled m0"
    and "individual m = individual m0" and "link_up m = link_up m0" and "m_config m = m_config m0"
    and "port_number m = port_number m0" and "last_rx m = last_rx m0" and "m_partner m = m_partner m0"
proof (cases "runs_lacp (l_config l)")
  case True
  with assms obtain nm where nm: "nm \<in> set (members (evaluate now l))" "(name, m) = fst (transmit p mac (lc_group (l_config l)) now nm)"
    by (auto simp: step_lag_def Let_def split_beta)
  then have "fst nm = name" by (metis fst_conv transmit_member(1))
  with nm show thesis
    by (intro that [of "snd nm"]) (metis prod.collapse snd_conv transmit_member)+
qed (use assms that [of m] in \<open>simp add: step_lag_def Let_def split_beta\<close>)

lemma partner_current_cong:
  "last_rx m = last_rx m0 \<Longrightarrow> m_config m = m_config m0 \<Longrightarrow> partner_current m now = partner_current m0 now"
  by (simp add: partner_current_def)

lemma partner_synced_cong: "m_partner m = m_partner m0 \<Longrightarrow> partner_synced m = partner_synced m0"
  by (simp add: partner_synced_def)

text \<open>
  C7. After every turn of the engine's task, whatever sequence of configuration pushes, link events
  and frames led to it, a member whose gate is open has its link up; and in a LAG that runs LACP and is not
  in fallback, its partner has been heard within the timeout and says it is in sync.
\<close>

theorem lacp_bundle_safe:
  assumes "run lacp_moves (spawn_lacp mac) evs e" and "runs_pass (fst ev)"
    and "(g, l) \<in> set (lags (fst (lacp_turn e ev)))" and "(name, m) \<in> set (members l)" and "bundled m"
  shows "link_up m
    \<and> (runs_lacp (l_config l) \<and> \<not> fallback_active l \<longrightarrow> partner_current m (snd ev) \<and> partner_synced m)"
proof -
  have "lacp_wf e" using lacp_engine.run_inv [OF assms(1)] by simp
  with assms(2,3) obtain l0 p mac where l0: "bt_wf (members l0)" "l = fst (step_lag p mac (snd ev) l0)"
    by (elim turn_lag)
  from assms(4) [unfolded l0(2)] obtain m0 where m0: "(name, m0) \<in> set (members (evaluate (snd ev) l0))"
      "bundled m = bundled m0" "link_up m = link_up m0" "m_config m = m_config m0" "last_rx m = last_rx m0" "m_partner m = m_partner m0"
    by (rule step_lag_member)
  note open0 = evaluate_gate_open [OF l0(1) m0(1)]
  show ?thesis
    using open0 assms(5) m0 partner_current_cong [OF m0(5,4)] partner_synced_cong [OF m0(6)]
    by (simp add: l0 step_lag_fields)
qed

text \<open>A LAG of two ports with a partner heard on one of them, to run the engine on.\<close>

definition lacp_run :: "lacp \<Rightarrow> (lacp_input \<times> instant) list \<Rightarrow> lacp" where
  "lacp_run = foldl (\<lambda>e ev. fst (lacp_turn e ev))"

lemma run_lacp_run: "run lacp_moves e evs (lacp_run e evs)"
  by (induction evs arbitrary: e) (auto simp: lacp_run_def lacp_moves_def intro: run.intros)

definition demo_mac :: mac where
  "demo_mac = [2, 0, 0, 0, 0, 1]"

definition demo_lag :: "fallback option \<Rightarrow> lag_config" where
  "demo_lag fb = \<lparr>lc_group = 7, min_links = 1, lc_fallback = fb, fallback_timeout = 0,
     lc_members = [(''lan'', \<lparr>mc_mode = Active, rate_fast = True, port_priority = 9\<rparr>),
                   (''wan'', \<lparr>mc_mode = Active, rate_fast = True, port_priority = 5\<rparr>)]\<rparr>"

definition demo_frame :: bytes where
  "demo_frame = encode_pdu demo_mac 1 demo_mac 7 9 1 (SYNC OR AGGREGATION) None"

definition demo_inputs :: "fallback option \<Rightarrow> (lacp_input \<times> instant) list" where
  "demo_inputs fb = [(Link ''lan'' True, 0), (Link ''wan'' True, 0), (SetConfigs 1 [demo_lag fb], 0)]"

lemma decode_demo_frame:
  "decode_pdu demo_frame = Some \<lparr>p_system_priority = 1, p_system = demo_mac, p_key = 7, p_port_priority = 9,
     p_port = 1, p_state = SYNC OR AGGREGATION\<rparr>"
  unfolding demo_frame_def by (rule decode_encode_pdu) (simp_all add: demo_mac_def)

definition demo_engine :: "fallback option \<Rightarrow> lacp" where
  "demo_engine fb = lacp_run (spawn_lacp demo_mac) (demo_inputs fb)"

definition demo_member :: "u16 \<Rightarrow> member" where
  "demo_member priority = (new_member \<lparr>mc_mode = Active, rate_fast = True, port_priority = priority\<rparr> 0)\<lparr>link_up := True\<rparr>"

definition demo_state :: "fallback option \<Rightarrow> lag" where
  "demo_state fb = \<lparr>l_config = demo_lag fb, members = [(''lan'', demo_member 9), (''wan'', demo_member 5)],
     partnerless_since = 0, fallback_active = False, last_gates = None\<rparr>"

lemma demo_engine_eval:
  "demo_engine fb =
     \<lparr>system_priority = 1, system_mac = demo_mac,
      lags = [(7, demo_state fb)],
      port_to_lag = [(''lan'', 7), (''wan'', 7)], link_states = [(''lan'', True), (''wan'', True)]\<rparr>"
  by (simp add: demo_engine_def demo_state_def demo_member_def lacp_run_def demo_inputs_def demo_lag_def lacp_turn_def set_configs_def
      spawn_lacp_def configure_lag_def joining_member_def new_member_def bt_retain_def bt_collect_def text_eval
      link_event_def update_member_def lacp_step_def port_number_of_def parse_uint_def)

lemma bt_get_transmit:
  "bt_get (map (\<lambda>nm. fst (transmit p mac grp now nm)) ms) name =
     map_option (\<lambda>m. snd (fst (transmit p mac grp now (name, m)))) (bt_get ms name)"
proof (induction ms)
  case (Cons nm ms)
  then show ?case
    using transmit_member(1) [of p mac grp now nm] by (cases "fst (transmit p mac grp now nm)") (auto simp: prod_eq_iff)
qed simp

lemma step_lag_get:
  assumes "bt_get (members (evaluate now l)) name = Some m" and "bundled m"
  shows "\<exists>m'. bt_get (members (fst (step_lag p mac now l))) name = Some m' \<and> bundled m'"
  using assms by (auto simp: step_lag_def Let_def split_beta comp_def bt_get_transmit)

lemma sync_frame_bundles:
  assumes "lacp_wf e" and "bt_get (port_to_lag e) port = Some g" and "bt_get (lags e) g = Some l"
    and "bt_get (members l) port = Some m" and "link_up m" and "runs_lacp (l_config l)" and "min_links (l_config l) \<le> 1"
    and "decode_pdu frame = Some p" and "p_state p AND SYNC \<noteq> 0"
  shows "\<exists>l' m'. bt_get (lags (fst (lacp_turn e (Pdu port frame, now)))) g = Some l' \<and> l_config l' = l_config l
    \<and> bt_get (members l') port = Some m' \<and> bundled m' \<and> \<not> fallback_active l'"
proof -
  let ?f = "\<lambda>m. m\<lparr>m_partner := Some p, last_rx := Some now, pdus_rx := pdus_rx m + 1\<rparr>"
  let ?l = "l\<lparr>members := bt_update port ?f (members l)\<rparr>"
  have wf: "bt_wf (members ?l)" using assms(1,3) by (auto simp: lacp_wf_def list_all_iff lag_wf_def bt_get_in_set)
  have lags: "bt_get (lags (pdu_event port frame now e)) g = Some ?l"
    using assms(2,3,8) by (simp add: pdu_event_def update_member_def bt_simps)
  have m: "bt_get (members ?l) port = Some (?f m)"
    using assms(4) by (simp add: bt_simps)
  have "partner_current (?f m) now" "partner_synced (?f m)" "link_up (?f m)" "runs_lacp (l_config ?l)"
    "min_links (l_config ?l) \<le> 1"
    using assms(5-7,9) by (simp_all add: partner_current_def partner_synced_def from_secs_def)
  note b = synced_member_bundled [OF wf m this(4,5,3,1,2)]
  with step_lag_get show ?thesis
    using lags wf by (fastforce simp: lacp_turn_def Let_def lags_step bt_simps step_lag_fields)
qed

lemma demo_bundled:
  obtains l m where "(7, l) \<in> set (lags (fst (lacp_turn (demo_engine None) (Pdu ''lan'' demo_frame, 0))))"
    and "(''lan'', m) \<in> set (members l)" and "bundled m" and "runs_lacp (l_config l)" and "\<not> fallback_active l"
proof -
  have wf: "lacp_wf (demo_engine None)"
    unfolding demo_engine_def by (rule lacp_engine.run_inv [OF run_lacp_run]) simp
  have get: "bt_get (port_to_lag (demo_engine None)) ''lan'' = Some 7" "bt_get (lags (demo_engine None)) 7 = Some (demo_state None)"
    "bt_get (members (demo_state None)) ''lan'' = Some (demo_member 9)" "link_up (demo_member 9)"
    "runs_lacp (l_config (demo_state None))" "min_links (l_config (demo_state None)) \<le> 1"
    by (simp_all add: demo_engine_eval demo_state_def demo_member_def demo_lag_def runs_lacp_def)
  have "p_state p AND SYNC \<noteq> 0" if "decode_pdu demo_frame = Some p" for p
    using that by (auto simp: decode_demo_frame state_bits)
  then obtain l m where
    "bt_get (lags (fst (lacp_turn (demo_engine None) (Pdu ''lan'' demo_frame, 0)))) 7 = Some l" "l_config l = l_config (demo_state None)"
    "bt_get (members l) ''lan'' = Some m" "bundled m" "\<not> fallback_active l"
    using sync_frame_bundles [OF wf get decode_demo_frame] decode_demo_frame by blast
  moreover from this(2) have "runs_lacp (l_config l)" using get(5) by simp
  ultimately show thesis by (intro that [of l m]) (auto dest: map_of_SomeD)
qed

theorem lacp_bundle_safe_witness:
  "\<exists>l m. (7, l) \<in> set (lags (fst (lacp_turn (demo_engine None) (Pdu ''lan'' demo_frame, 0))))
     \<and> (''lan'', m) \<in> set (members l) \<and> bundled m \<and> link_up m \<and> partner_current m 0 \<and> partner_synced m"
proof -
  obtain l m where lm: "(7, l) \<in> set (lags (fst (lacp_turn (demo_engine None) (Pdu ''lan'' demo_frame, 0))))"
    "(''lan'', m) \<in> set (members l)" "bundled m" "runs_lacp (l_config l)" "\<not> fallback_active l"
    by (rule demo_bundled)
  then show ?thesis
    using lacp_bundle_safe [OF run_lacp_run [of "spawn_lacp demo_mac" "demo_inputs None"], of "(Pdu ''lan'' demo_frame, 0)" 7 l "''lan''" m]
    by (auto simp: demo_engine_def runs_pass_def)
qed

lemma step_lag_filter:
  assumes "\<And>nm nm'. fst nm = fst nm' \<Longrightarrow> bundled (snd nm) = bundled (snd nm') \<Longrightarrow> individual (snd nm) = individual (snd nm') \<Longrightarrow>
      link_up (snd nm) = link_up (snd nm') \<Longrightarrow> P nm = P nm'"
  shows "map fst (filter P (members (fst (step_lag p mac now l)))) = map fst (filter P (members (evaluate now l)))"
proof -
  have "P (fst (transmit p mac grp now nm)) = P nm" for grp nm
    by (rule assms) simp_all
  then show ?thesis
    by (simp add: step_lag_def Let_def split_beta filter_map comp_def)
qed

lemma aggregate_size_step: "aggregate_size (fst (step_lag p mac now l)) = aggregate_size (evaluate now l)"
  using step_lag_filter [of "\<lambda>(_, m). bundled m \<and> \<not> individual m" p mac now l]
  by (auto simp: aggregate_size_def split_beta dest: arg_cong [where f = length])

text \<open>
  After every turn of the engine's task, the number of aggregated members of a LAG is zero or at least its
  \<open>min_links\<close>.
\<close>

lemma lacp_min_links:
  assumes "run lacp_moves (spawn_lacp mac) evs e" and "runs_pass (fst ev)"
    and "(g, l) \<in> set (lags (fst (lacp_turn e ev)))"
  shows "aggregate_size l = 0 \<or> unat (min_links (l_config l)) \<le> aggregate_size l"
proof -
  have "lacp_wf e" using lacp_engine.run_inv [OF assms(1)] by simp
  with assms(2,3) obtain l0 p mac where l0: "bt_wf (members l0)" "l = fst (step_lag p mac (snd ev) l0)"
    by (elim turn_lag)
  with min_links_respected [OF l0(1)] show ?thesis by (simp add: aggregate_size_step step_lag_fields)
qed

lemma lacp_min_links_example:
  "\<exists>l. (7, l) \<in> set (lags (fst (lacp_turn (demo_engine None) (Pdu ''lan'' demo_frame, 0))))
     \<and> (aggregate_size l = 0 \<or> unat (min_links (l_config l)) \<le> aggregate_size l)"
proof -
  obtain l m where lm: "(7, l) \<in> set (lags (fst (lacp_turn (demo_engine None) (Pdu ''lan'' demo_frame, 0))))"
    by (rule demo_bundled)
  then show ?thesis
    using lacp_min_links [OF run_lacp_run [of "spawn_lacp demo_mac" "demo_inputs None"], of "(Pdu ''lan'' demo_frame, 0)" 7 l]
    by (auto simp: demo_engine_def runs_pass_def)
qed

text \<open>
  After any run of the engine from its start, the gates the pusher last received for a LAG
  are those of its members as the latest pass left them: updates are sent only on a change and none is missing.
\<close>

lemma lacp_gates_delivered:
  assumes "pushes lacp_push (spawn_lacp mac) evs e us" and "runs_pass (fst ev)"
    and "(g, l) \<in> set (lags (fst (lacp_push e ev)))"
  shows "apply_updates (us @ snd (lacp_push e ev)) (\<lambda>_. None) g = Some (gate_list l)"
proof (rule gates.receiver_agrees [OF pushes_snoc [OF assms(1)]])
  have "lacp_wf e" using gates.pushes_inv [OF assms(1)] by simp
  with assms(2) obtain e1 where e1: "lacp_wf e1" "lacp_turn e ev = lacp_step (snd ev) e1" by (rule turn_is_pass)
  with assms(3) obtain l0 where l0: "bt_get (lags e1) g = Some l0" "bt_wf (members l0)"
      "l = fst (step_lag (system_priority e1) (system_mac e1) (snd ev) l0)"
    by (auto simp: lacp_push_def lags_step bt_map_set lacp_wf_def list_all_iff lag_wf_def bt_get_in_set)
  then show "pushed_gates (fst (lacp_push e ev)) g = Some (gate_list l)"
    by (simp add: lacp_push_def e1 pushed_step step_lag_fields(4))
qed (simp, simp add: pushed_gates_def spawn_lacp_def)

lemma pushes_lacp_run: "\<exists>us. pushes lacp_push e evs (lacp_run e evs) us"
proof (induction evs arbitrary: e)
  case (Cons ev evs)
  then obtain us where "pushes lacp_push (fst (lacp_turn e ev)) evs (lacp_run (fst (lacp_turn e ev)) evs) us" by blast
  moreover have "lacp_push e ev = (fst (lacp_turn e ev), fst (snd (lacp_turn e ev)))" by (rule lacp_push_def)
  ultimately show ?case unfolding lacp_run_def foldl_Cons by (blast intro: pushes_Cons)
qed (auto simp: lacp_run_def intro: pushes_Nil)

lemma lacp_gates_delivered_example:
  "\<exists>us l. pushes lacp_push (spawn_lacp demo_mac) (demo_inputs None) (demo_engine None) us
     \<and> (7, l) \<in> set (lags (fst (lacp_push (demo_engine None) (Pdu ''lan'' demo_frame, 0))))
     \<and> apply_updates (us @ snd (lacp_push (demo_engine None) (Pdu ''lan'' demo_frame, 0))) (\<lambda>_. None) 7 = Some (gate_list l)"
proof -
  obtain us where us: "pushes lacp_push (spawn_lacp demo_mac) (demo_inputs None) (demo_engine None) us"
    using pushes_lacp_run by (auto simp: demo_engine_def)
  obtain l m where l: "(7, l) \<in> set (lags (fst (lacp_push (demo_engine None) (Pdu ''lan'' demo_frame, 0))))"
    by (rule demo_bundled) (simp add: lacp_push_def)
  from lacp_gates_delivered [OF us _ l] us l show ?thesis
    by (auto simp: runs_pass_def)
qed

text \<open>
  A frame that says its sender is in sync, arriving at an up port of a LAG that runs LACP and asks
  for at most one link, leaves that port bundled at the end of the same turn, from any
  reachable state.
\<close>

lemma lacp_sync_bundles:
  assumes "run lacp_moves (spawn_lacp mac) evs e"
    and "bt_get (port_to_lag e) port = Some g" and "bt_get (lags e) g = Some l"
    and "bt_get (members l) port = Some m" and "link_up m" and "runs_lacp (l_config l)" and "min_links (l_config l) \<le> 1"
    and "decode_pdu frame = Some p" and "p_state p AND SYNC \<noteq> 0"
  shows "\<exists>l' m'. bt_get (lags (fst (lacp_turn e (Pdu port frame, now)))) g = Some l' \<and> l_config l' = l_config l
    \<and> bt_get (members l') port = Some m' \<and> bundled m' \<and> \<not> fallback_active l'"
proof (rule sync_frame_bundles [OF _ assms(2-)])
  show "lacp_wf e" using lacp_engine.run_inv [OF assms(1)] by simp
qed

lemma lacp_sync_bundles_example:
  "\<exists>l' m'. bt_get (lags (fst (lacp_turn (demo_engine None) (Pdu ''wan'' demo_frame, 5)))) 7 = Some l' \<and> l_config l' = demo_lag None
    \<and> bt_get (members l') ''wan'' = Some m' \<and> bundled m' \<and> \<not> fallback_active l'"
  using lacp_sync_bundles [OF run_lacp_run [of "spawn_lacp demo_mac" "demo_inputs None"] _ _ _ _ _ _ decode_demo_frame,
      of "''wan''" 7 "demo_state None" "demo_member 5" 5]
  by (simp add: demo_engine_eval demo_state_def demo_member_def demo_lag_def runs_lacp_def state_bits flip: demo_engine_def)

section \<open>Frames between two switches\<close>

lemma system_mac_events [simp]:
  "system_mac (link_event port up e) = system_mac e" "system_mac (pdu_event port frame now e) = system_mac e"
  "system_mac (set_configs priority configs now e) = system_mac e" "system_mac (fst (lacp_step now e)) = system_mac e"
  by (simp_all add: link_event_def pdu_event_def update_member_def set_configs_def lacp_step_def Let_def split: option.split)

lemma system_mac_turn [simp]: "system_mac (fst (lacp_turn e ev)) = system_mac e"
  by (simp add: lacp_turn_def Let_def split: lacp_input.split)

lemma system_mac_run: "run lacp_moves (spawn_lacp mac) evs e \<Longrightarrow> system_mac e = mac"
  by (erule run_keeps [where P = "\<lambda>e. system_mac e = mac" and ok = "\<lambda>_. True"])
    (auto simp: spawn_lacp_def lacp_moves_def list_all_iff)

lemma transmitted_decodes:
  assumes "length mac = 6" and "(port, frame) \<in> set (snd (transmit priority mac grp now nm))"
  shows "\<exists>p. decode_pdu frame = Some p \<and> p_system p = mac"
  using assms by (auto simp: transmit_def decode_encode_pdu Let_def split: prod.splits if_splits)

lemma sent_decodes:
  assumes "length (system_mac e) = 6" and "(port, frame) \<in> set (snd (snd (lacp_turn e ev)))"
  shows "\<exists>p. decode_pdu frame = Some p \<and> p_system p = system_mac e"
proof -
  have step: "\<exists>p. decode_pdu frame = Some p \<and> p_system p = system_mac d"
    if "length (system_mac d) = 6" and "(port, frame) \<in> set (snd (snd (lacp_step now d)))" for d now
    using that
    by (auto simp: lacp_step_def step_lag_def Let_def split_beta split: if_splits intro: transmitted_decodes)
  show ?thesis
    using assms by (cases "fst ev") (auto simp: lacp_turn_def Let_def dest!: step [rotated])
qed

text \<open>
  A frame from the partner is answered in the same turn when the port may transmit, and the answer
  says in sync.
\<close>

definition may_transmit :: "member \<Rightarrow> instant \<Rightarrow> bool" where
  "may_transmit m now = (case last_tx m of None \<Rightarrow> True | Some at \<Rightarrow> from_secs 30 \<le> since now at)"

lemma transmit_in_sync:
  assumes "length mac = 6" and "link_up m" and "partner_current m now" and "may_transmit m now"
  obtains frame p where "(name, frame) \<in> set (snd (transmit priority mac grp now (name, m)))"
    and "decode_pdu frame = Some p" and "p_state p AND SYNC \<noteq> 0"
proof -
  have "\<not> (case last_tx m of None \<Rightarrow> False | Some at \<Rightarrow> since now at < tx_interval m True)"
    using assms(4) by (auto simp: may_transmit_def tx_interval_def from_secs_def split: option.splits)
  moreover have "actor_state_bits m True AND SYNC = SYNC"
    using assms(2) by (intro bit_word_eqI) (auto simp: actor_state_bits_def bit_simps)
  then have "actor_state_bits m True AND SYNC \<noteq> 0" by (simp add: state_bits)
  ultimately show thesis
    using assms(1-3) by (intro that) (auto simp: transmit_def decode_encode_pdu)
qed

lemma step_lag_in_sync:
  assumes "length mac = 6" and "runs_lacp (l_config l)" and "(name, m) \<in> set (members l)"
    and "link_up m" and "partner_current m now" and "may_transmit m now"
  obtains frame p where "(name, frame) \<in> set (snd (snd (step_lag priority mac now l)))"
    and "decode_pdu frame = Some p" and "p_state p AND SYNC \<noteq> 0"
proof -
  define w where "w = apply_min_links (min_links (l_config l))
    (wanted_gates (heard now l) (runs_lacp (l_config l)) (armed (heard now l) now) now)"
  have w: "members (evaluate now l) = bt_map (apply_gate w) (members l)"
    by (simp add: evaluate_def Let_def w_def flip: heard_def)
  let ?m = "apply_gate w name m"
  have "link_up ?m" "partner_current ?m now" "may_transmit ?m now" using assms(4-6) by (simp_all add: may_transmit_def)
  then obtain frame p where f: "(name, frame) \<in> set (snd (transmit priority mac (lc_group (l_config l)) now (name, ?m)))"
      "decode_pdu frame = Some p" "p_state p AND SYNC \<noteq> 0"
    using transmit_in_sync [OF assms(1)] by metis
  have "(name, ?m) \<in> set (members (evaluate now l))" using assms(3) by (force simp: w bt_map_set)
  with f(1) assms(2) have "(name, frame) \<in> set (snd (snd (step_lag priority mac now l)))"
    by (force simp: step_lag_def Let_def split_beta)
  with f(2,3) show thesis by (intro that)
qed

lemma frame_answered_in_sync:
  assumes "length (system_mac e) = 6" and "bt_get (port_to_lag e) port = Some g" and "bt_get (lags e) g = Some l"
    and "bt_get (members l) port = Some m" and "link_up m" and "runs_lacp (l_config l)" and "may_transmit m now"
    and "decode_pdu frame = Some q"
  obtains reply p where "(port, reply) \<in> set (snd (snd (lacp_turn e (Pdu port frame, now))))"
    and "decode_pdu reply = Some p" and "p_state p AND SYNC \<noteq> 0"
proof -
  let ?f = "\<lambda>m. m\<lparr>m_partner := Some q, last_rx := Some now, pdus_rx := pdus_rx m + 1\<rparr>"
  let ?e = "pdu_event port frame now e" and ?l = "l\<lparr>members := bt_update port ?f (members l)\<rparr>"
  have "bt_get (lags ?e) g = Some ?l" and mac: "system_mac ?e = system_mac e"
    using assms(2,3,8) by (simp_all add: pdu_event_def update_member_def bt_simps)
  then have lag: "(g, ?l) \<in> set (lags ?e)" by (auto dest: map_of_SomeD)
  have "bt_get (members ?l) port = Some (?f m)" using assms(4) by (simp add: bt_simps)
  then have m: "(port, ?f m) \<in> set (members ?l)" by (auto dest: map_of_SomeD)
  have f: "link_up (?f m)" "partner_current (?f m) now" "may_transmit (?f m) now" "runs_lacp (l_config ?l)"
    using assms(5-7) by (simp_all add: partner_current_def may_transmit_def from_secs_def)
  obtain reply p where
    r: "(port, reply) \<in> set (snd (snd (step_lag (system_priority ?e) (system_mac e) now ?l)))"
      "decode_pdu reply = Some p" "p_state p AND SYNC \<noteq> 0"
    by (rule step_lag_in_sync [OF assms(1) f(4) m f(1-3)])
  have "(port, reply) \<in> set (snd (snd (lacp_step now ?e)))"
    using r(1) lag unfolding lacp_step_def Let_def mac by (auto simp: split_beta intro!: bexI [OF _ lag])
  with r(2,3) show thesis by (intro that [of reply p]) (simp_all add: lacp_turn_def)
qed

section \<open>Individual fallback\<close>

abbreviation (input) fallback_rank :: "string \<Rightarrow> member \<Rightarrow> (u16 \<times> u16) \<times> string" where
  "fallback_rank name m \<equiv> ((port_priority (m_config m), port_number m), name)"

lemma chosen_member_iff:
  assumes "bt_wf ms" and "(name, m) \<in> set ms"
  shows "chosen_member ms = Some name \<longleftrightarrow>
    link_up m \<and> (\<forall>(n', m') \<in> set ms. link_up m' \<longrightarrow> fallback_rank name m \<le> fallback_rank n' m')"
proof -
  let ?key = "\<lambda>(n::string, m). (port_priority (m_config m), port_number m)" and ?live = "filter (\<lambda>(_, m). link_up m) ms"
  have sorted: "sorted_wrt (<) (map fst ?live)"
    using bt_wf_filter [OF assms(1)] by (simp add: bt_wf_def)
  show ?thesis
  proof (cases "min_by_key ?key ?live")
    case None
    then have "\<not> link_up m" using assms(2) by (auto simp: filter_empty_conv)
    with None show ?thesis by (simp add: chosen_member_def)
  next
    case (Some x)
    obtain n1 m1 where x: "x = (n1, m1)" by (cases x)
    from min_by_key_in [OF Some] x have m1: "(n1, m1) \<in> set ms" "link_up m1" by auto
    have least: "fallback_rank n1 m1 \<le> fallback_rank n' m'" if "(n', m') \<in> set ms" "link_up m'" for n' m'
      using min_by_key_sorted [OF sorted Some, of "(n', m')"] that x by simp
    have "chosen_member ms = Some n1" using Some x by (simp add: chosen_member_def)
    moreover have "m1 = m" if "n1 = name" using that m1(1) assms by (metis bt_get_in_set option.inject)
    moreover have "n1 = name" if "link_up m" "fallback_rank name m \<le> fallback_rank n1 m1"
      using least [OF assms(2) that(1)] that(2) by (metis antisym prod.inject)
    ultimately show ?thesis using least m1 by fastforce
  qed
qed

text \<open>What the choice depends on.\<close>

definition member_view :: "string \<times> member \<Rightarrow> string \<times> bool \<times> member_config \<times> u16" where
  "member_view nm = (fst nm, link_up (snd nm), m_config (snd nm), port_number (snd nm))"

lemma chosen_member_cong:
  assumes "map member_view ms = map member_view ms'"
  shows "chosen_member ms = chosen_member ms'"
proof -
  have "chosen_member xs = map_option fst
      (min_by_key (\<lambda>(_, _, c, k). (port_priority c, k)) (filter (\<lambda>(_, u, _). u) (map member_view xs)))" for xs
    by (simp add: chosen_member_def filter_map min_by_key_map comp_def member_view_def option.map_comp case_prod_beta')
  with assms show ?thesis by simp
qed

lemma step_lag_view:
  assumes "bt_wf (members l)"
  shows "map member_view (members (fst (step_lag p mac now l))) = map member_view (members l)"
  using assms
  by (simp add: step_lag_def Let_def split_beta evaluate_final(1) bt_map_def member_view_def comp_def)

text \<open>
  While a LAG is in individual fallback, the open gate is that of the live member with the
  least port priority, ties broken by port number and then by name, and of no other.
\<close>

lemma lacp_individual_fallback:
  assumes "run lacp_moves (spawn_lacp mac) evs e" and "runs_pass (fst ev)"
    and "(g, l) \<in> set (lags (fst (lacp_turn e ev)))" and "(name, m) \<in> set (members l)"
    and "fallback_active l" and "lc_fallback (l_config l) = Some Individual"
  shows "bundled m \<longleftrightarrow> link_up m \<and> (\<forall>(n', m') \<in> set (members l). link_up m' \<longrightarrow>
    ((port_priority (m_config m), port_number m), name) \<le> ((port_priority (m_config m'), port_number m'), n'))"
proof -
  have "lacp_wf e" using lacp_engine.run_inv [OF assms(1)] by simp
  with assms(2,3) obtain l0 p mac where l0: "bt_wf (members l0)" "l = fst (step_lag p mac (snd ev) l0)"
    by (elim turn_lag)
  then have wf: "bt_wf (members l)" by (simp add: bt_wf_def step_lag_fields(2))
  have chosen: "chosen_member (members l) = chosen_member (members l0)"
    unfolding l0(2) by (rule chosen_member_cong [OF step_lag_view [OF l0(1)]])
  from assms(4) [unfolded l0(2)] obtain m1 where m1: "(name, m1) \<in> set (members (evaluate (snd ev) l0))" "bundled m = bundled m1"
    by (rule step_lag_member)
  from l0(1) m1(1) obtain m0 where "(bundled m1, individual m1) = final_gate (heard (snd ev) l0) (snd ev) name m0"
    by (rule evaluate_member)
  moreover have "armed (heard (snd ev) l0) (snd ev)" "lc_fallback (l_config l0) = Some Individual"
    using assms(5,6) l0 by (simp_all add: step_lag_fields evaluate_final)
  ultimately have "bundled m1 \<longleftrightarrow> chosen_member (members l0) = Some name"
    by (auto simp: final_gate_def gate_choice_def armed_def split: if_splits)
  with chosen_member_iff [OF wf assms(4)] chosen m1(2) show ?thesis by simp
qed

lemma lacp_individual_fallback_example:
  "\<exists>l m. (7, l) \<in> set (lags (fst (lacp_turn (demo_engine (Some Individual)) (Tick, 0)))) \<and> fallback_active l
     \<and> (''wan'', m) \<in> set (members l) \<and> bundled m"
proof -
  let ?e = "demo_engine (Some Individual)" and ?s = "demo_state (Some Individual)"
  let ?l = "fst (step_lag 1 demo_mac 0 ?s)"
  have wf: "bt_wf (members ?s)" by (simp add: demo_state_def bt_wf_def)
  have "map member_view (members ?l) =
      [(''lan'', True, \<lparr>mc_mode = Active, rate_fast = True, port_priority = 9\<rparr>, 0),
       (''wan'', True, \<lparr>mc_mode = Active, rate_fast = True, port_priority = 5\<rparr>, 0)]"
    by (simp add: step_lag_view [OF wf]) (simp add: demo_state_def demo_member_def new_member_def member_view_def)
  then obtain a b where ms: "members ?l = [(''lan'', a), (''wan'', b)]" "link_up a" "link_up b"
      "port_priority (m_config a) = 9" "port_priority (m_config b) = 5" "port_number a = 0" "port_number b = 0"
    by (auto simp: member_view_def map_eq_Cons_conv)
  have l: "(7, ?l) \<in> set (lags (fst (lacp_turn ?e (Tick, 0))))"
    by (simp add: lacp_turn_def lags_step demo_engine_eval bt_map_def)
  have fb: "fallback_active ?l" "lc_fallback (l_config ?l) = Some Individual"
    using wf by (simp_all add: step_lag_fields evaluate_final armed_def heard_def)
      (simp_all add: demo_state_def demo_lag_def demo_member_def new_member_def runs_lacp_def partner_current_def)
  have "bundled b"
    using lacp_individual_fallback [OF run_lacp_run [of "spawn_lacp demo_mac" "demo_inputs (Some Individual)"], of "(Tick, 0)" 7 ?l "''wan''" b]
      l fb ms by (simp add: runs_pass_def flip: demo_engine_def)
  with l fb ms show ?thesis by auto
qed

end
