(* ===== verification/Orch_Stp.thy ===== *)
theory Orch_Stp
  imports Hemlock_Prelude
begin

text \<open>
  The spanning-tree engine (\<^verbatim>\<open>src/src/hemlock-orch/src/stp.rs\<close>): bridge and port state, the
  configuration push, link events and received BPDUs, and the evaluation pass with the election of
  the root, the port roles, the timed state progression, the BPDUs due and the state updates.
  As in the aggregation engine, outputs are lists and \<open>Instant::now()\<close> is an argument.
\<close>

section \<open>Types\<close>

datatype stp_mode = Mstp | Rstp | ModeNone

record port_config =
  portfast :: bool
  bpduguard :: bool
  pc_cost :: "u32 option"
  pc_priority :: u8

definition default_port_config :: port_config where
  "default_port_config = \<lparr>portfast = False, bpduguard = False, pc_cost = None, pc_priority = 0\<rparr>"

record stp_config =
  sc_mode :: stp_mode
  sc_priority :: u16
  hello_time :: u8
  max_age :: u8
  forward_time :: u8
  mst_name :: string
  mst_revision :: u16
  instances :: "(u8, u16 list) btree"
  sc_ports :: "(string, port_config) btree"

datatype port_role = Designated | Root | Alternate | Disabled
datatype port_state = Discarding | Learning | Forwarding

fun mode_word :: "stp_mode \<Rightarrow> string" where
  "mode_word Mstp = ''mstp''"
| "mode_word Rstp = ''rstp''"
| "mode_word ModeNone = ''none''"

fun port_role_word :: "port_role \<Rightarrow> string" where
  "port_role_word Designated = ''designated''"
| "port_role_word Root = ''root''"
| "port_role_word Alternate = ''alternate''"
| "port_role_word Disabled = ''disabled''"

fun port_state_word :: "port_state \<Rightarrow> string" where
  "port_state_word Discarding = ''discarding''"
| "port_state_word Learning = ''learning''"
| "port_state_word Forwarding = ''forwarding''"

text \<open>Bridge identifiers, in the order the derived comparison and the wire encoding give.\<close>

datatype bridge_id = BridgeId (bi_priority: u16) (bi_mac: mac)

instantiation bridge_id :: linorder
begin

definition less_eq_bridge_id :: "bridge_id \<Rightarrow> bridge_id \<Rightarrow> bool" where
  "less_eq_bridge_id a b \<longleftrightarrow> (bi_priority a, bi_mac a) \<le> (bi_priority b, bi_mac b)"

definition less_bridge_id :: "bridge_id \<Rightarrow> bridge_id \<Rightarrow> bool" where
  "less_bridge_id a b \<longleftrightarrow> (bi_priority a, bi_mac a) < (bi_priority b, bi_mac b)"

instance
  by standard (auto simp: less_eq_bridge_id_def less_bridge_id_def bridge_id.expand)

end

record priority_vector =
  pv_root :: bridge_id
  pv_cost :: u32
  pv_bridge :: bridge_id
  pv_port_id :: u16

record port =
  po_config :: port_config
  po_number :: u16
  po_link_up :: bool
  speed_mbps :: u32
  received :: "priority_vector option"
  po_last_rx :: "instant option"
  po_role :: port_role
  po_state :: port_state
  state_since :: instant
  bpdus_rx :: u64
  bpdus_tx :: u64
  po_last_tx :: "instant option"
  errdisabled :: bool

record stp =
  st_config :: stp_config
  bridge_mac :: mac
  ports :: "(string, port) btree"
  topology_changes :: u32
  last_tc :: "(instant \<times> string) option"
  last_states :: "(string, port_state) btree"

text \<open>A path cost as 802.1D-2004 derives it from the speed, unless one is configured.\<close>

definition path_cost :: "port \<Rightarrow> u32" where
  "path_cost p =
     (case pc_cost (po_config p) of
        Some cost \<Rightarrow> cost
      | None \<Rightarrow>
          if speed_mbps p = 0 then 20000000
          else ucast (max (20000000000 div (ucast (speed_mbps p) * 1000) :: u64) 1))"

definition bridge_id_of :: "stp \<Rightarrow> bridge_id" where
  "bridge_id_of e = BridgeId (sc_priority (st_config e)) (bridge_mac e)"

definition spawn_stp :: "mac \<Rightarrow> stp" where
  "spawn_stp mac =
     \<lparr>st_config = \<lparr>sc_mode = Mstp, sc_priority = 32768, hello_time = 2, max_age = 20, forward_time = 15,
                   mst_name = [], mst_revision = 0, instances = [], sc_ports = []\<rparr>,
      bridge_mac = mac, ports = [], topology_changes = 0, last_tc = None, last_states = []\<rparr>"

section \<open>Configuration\<close>

definition default_priority :: "port_config \<Rightarrow> port_config" where
  "default_priority c = (if pc_priority c = 0 then c\<lparr>pc_priority := 128\<rparr> else c)"

definition config_of_port :: "stp_config \<Rightarrow> string \<Rightarrow> port_config" where
  "config_of_port c name = (case bt_get (sc_ports c) name of None \<Rightarrow> default_port_config | Some pc \<Rightarrow> pc)"

definition configure_port :: "stp_config \<Rightarrow> string \<Rightarrow> port \<Rightarrow> port" where
  "configure_port c name p =
     (let pc = default_priority (config_of_port c name)
      in p\<lparr>po_config := pc, errdisabled := (if errdisabled p \<and> \<not> bpduguard pc then False else errdisabled p)\<rparr>)"

definition default_timers :: "stp_config \<Rightarrow> stp_config" where
  "default_timers c =
     c\<lparr>sc_priority := (if sc_priority c = 0 then 32768 else sc_priority c),
       hello_time := (if hello_time c = 0 then 2 else hello_time c),
       max_age := (if max_age c = 0 then 20 else max_age c),
       forward_time := (if forward_time c = 0 then 15 else forward_time c)\<rparr>"

definition set_config :: "stp_config \<Rightarrow> stp \<Rightarrow> stp" where
  "set_config c e = e\<lparr>ports := bt_map (configure_port c) (ports e), st_config := default_timers c\<rparr>"

section \<open>The election\<close>

definition fresh :: "duration \<Rightarrow> instant \<Rightarrow> port \<Rightarrow> bool" where
  "fresh age now p = (case po_last_rx p of None \<Rightarrow> False | Some at \<Rightarrow> since now at < age)"

abbreviation (input) secs :: "u8 \<Rightarrow> duration" where
  "secs s \<equiv> from_secs (unat s)"

definition root_candidate :: "stp \<Rightarrow> instant \<Rightarrow> port \<Rightarrow> (priority_vector \<times> u32) option" where
  "root_candidate e now p =
     (if \<not> po_link_up p \<or> errdisabled p then None
      else case received p of
        None \<Rightarrow> None
      | Some info \<Rightarrow>
          if \<not> fresh (secs (max_age (st_config e))) now p then None
          else if bridge_id_of e \<le> pv_root info then None
          else Some (info, sat_add32 (pv_cost info) (path_cost p)))"

definition root_key :: "priority_vector \<times> u32 \<times> string \<Rightarrow> bridge_id \<times> u32 \<times> bridge_id \<times> u16" where
  "root_key c = (case c of (info, cost, _) \<Rightarrow> (pv_root info, cost, pv_bridge info, pv_port_id info))"

definition better_root ::
  "stp \<Rightarrow> instant \<Rightarrow> string \<times> port \<Rightarrow> (priority_vector \<times> u32 \<times> string) option
     \<Rightarrow> (priority_vector \<times> u32 \<times> string) option" where
  "better_root e now np best =
     (case root_candidate e now (snd np) of
        None \<Rightarrow> best
      | Some (info, cost) \<Rightarrow>
          (case best of
             None \<Rightarrow> Some (info, cost, fst np)
           | Some have \<Rightarrow> if root_key (info, cost, fst np) < root_key have then Some (info, cost, fst np) else best))"

definition compute_root :: "stp \<Rightarrow> instant \<Rightarrow> bridge_id \<times> u32 \<times> string option" where
  "compute_root e now =
     (case fold (better_root e now) (ports e) None of
        Some (info, cost, port) \<Rightarrow> (pv_root info, cost, Some port)
      | None \<Rightarrow> (bridge_id_of e, 0, None))"

section \<open>BPDUs\<close>

definition stp_dst :: mac where
  "stp_dst = [0x01, 0x80, 0xc2, 0x00, 0x00, 0x00]"

definition encode_bpdu_body ::
  "bool \<Rightarrow> bridge_id \<Rightarrow> u32 \<Rightarrow> bridge_id \<Rightarrow> u16 \<Rightarrow> u8 \<Rightarrow> u8 \<Rightarrow> u8 \<Rightarrow> bytes" where
  "encode_bpdu_body rstp rt cost bridge port_id hello age forward_delay =
     [0x00, 0x00] @ [if rstp then 0x02 else 0x00] @ [if rstp then 0x02 else 0x00] @ [0x00]
     @ to_be 2 (bi_priority rt) @ bi_mac rt @ to_be 4 cost
     @ to_be 2 (bi_priority bridge) @ bi_mac bridge @ to_be 2 port_id
     @ to_be 2 (0 :: u16) @ to_be 2 (ucast age * 256 :: u16) @ to_be 2 (ucast hello * 256 :: u16)
     @ to_be 2 (ucast forward_delay * 256 :: u16)
     @ (if rstp then [0x00] else [])"

definition encode_bpdu ::
  "mac \<Rightarrow> bool \<Rightarrow> bridge_id \<Rightarrow> u32 \<Rightarrow> bridge_id \<Rightarrow> u16 \<Rightarrow> u8 \<Rightarrow> u8 \<Rightarrow> u8 \<Rightarrow> bytes" where
  "encode_bpdu src_mac rstp rt cost bridge port_id hello age forward_delay =
     (let body = encode_bpdu_body rstp rt cost bridge port_id hello age forward_delay
      in stp_dst @ src_mac @ to_be 2 (of_nat (length body + 3) :: u16) @ [0x42, 0x42, 0x03] @ body)"

definition decode_bpdu :: "bytes \<Rightarrow> priority_vector option" where
  "decode_bpdu frame =
     (if length frame < 17 + 31 \<or> frame ! 14 \<noteq> 0x42 \<or> frame ! 15 \<noteq> 0x42 then None
      else let body = drop 17 frame in
        if body ! 0 \<noteq> 0 \<or> body ! 1 \<noteq> 0 then None
        else if body ! 3 \<noteq> 0x00 \<and> body ! 3 \<noteq> 0x02 then None
        else Some \<lparr>pv_root = BridgeId (from_be [body ! 5, body ! 6]) (take 6 (drop 7 body)),
                   pv_cost = from_be [body ! 13, body ! 14, body ! 15, body ! 16],
                   pv_bridge = BridgeId (from_be [body ! 17, body ! 18]) (take 6 (drop 19 body)),
                   pv_port_id = from_be [body ! 25, body ! 26]\<rparr>)"

section \<open>Inputs\<close>

definition stp_port_number_of :: "string \<Rightarrow> u16" where
  "stp_port_number_of name =
     (case parse_uint 65536 (takeWhile is_digit (dropWhile (\<lambda>c. \<not> is_digit c) name)) of
        None \<Rightarrow> 0
      | Some n \<Rightarrow> of_nat n)"

definition new_port :: "stp_config \<Rightarrow> string \<Rightarrow> instant \<Rightarrow> port" where
  "new_port c name now =
     \<lparr>po_config = config_of_port c name, po_number = stp_port_number_of name, po_link_up = False, speed_mbps = 0,
      received = None, po_last_rx = None, po_role = Disabled, po_state = Discarding, state_since = now,
      bpdus_rx = 0, bpdus_tx = 0, po_last_tx = None, errdisabled = False\<rparr>"

definition change_link :: "bool \<Rightarrow> u32 \<Rightarrow> instant \<Rightarrow> port \<Rightarrow> port" where
  "change_link up speed now p =
     (let p1 = p\<lparr>po_config := default_priority (po_config p)\<rparr>;
          p2 = (if 0 < speed then p1\<lparr>speed_mbps := speed\<rparr> else p1)
      in if po_link_up p2 \<noteq> up
         then p2\<lparr>po_link_up := up, received := None, po_last_rx := None, po_state := Discarding, state_since := now\<rparr>
         else p2)"

definition stp_link_event :: "string \<Rightarrow> bool \<Rightarrow> u32 \<Rightarrow> instant \<Rightarrow> stp \<Rightarrow> stp" where
  "stp_link_event name up speed now e =
     e\<lparr>ports := bt_update name (change_link up speed now) (bt_or_insert name (new_port (st_config e) name now) (ports e))\<rparr>"

text \<open>The guard trips at the first BPDU; an error-disabled port ignores what it hears.\<close>

definition guard_trips :: "port \<Rightarrow> bool" where
  "guard_trips p \<longleftrightarrow> bpduguard (po_config p) \<and> \<not> errdisabled p"

definition hear_bpdu :: "priority_vector \<Rightarrow> instant \<Rightarrow> port \<Rightarrow> port" where
  "hear_bpdu info now p =
     (let p1 = p\<lparr>bpdus_rx := bpdus_rx p + 1\<rparr> in
      if guard_trips p1 then p1\<lparr>errdisabled := True, po_state := Discarding\<rparr>
      else if \<not> errdisabled p1 then p1\<lparr>received := Some info, po_last_rx := Some now\<rparr>
      else p1)"

definition bpdu_event :: "string \<Rightarrow> bytes \<Rightarrow> instant \<Rightarrow> stp \<Rightarrow> stp \<times> (string \<times> string) list" where
  "bpdu_event name frame now e =
     (case decode_bpdu frame of
        None \<Rightarrow> (e, [])
      | Some info \<Rightarrow>
          (e\<lparr>ports := bt_update name (hear_bpdu info now) (ports e)\<rparr>,
           case bt_get (ports e) name of
             Some p \<Rightarrow> if guard_trips p then [(name, ''bpduguard'')] else []
           | None \<Rightarrow> []))"

section \<open>The evaluation pass\<close>

definition open_port :: "port \<Rightarrow> port" where
  "open_port p =
     p\<lparr>po_role := Designated, po_state := (if po_link_up p \<and> \<not> errdisabled p then Forwarding else Discarding)\<rparr>"

definition age_out :: "duration \<Rightarrow> instant \<Rightarrow> port \<Rightarrow> port" where
  "age_out age now p =
     (case po_last_rx p of
        Some at \<Rightarrow> if age \<le> since now at then p\<lparr>received := None, po_last_rx := None\<rparr> else p
      | None \<Rightarrow> p)"

definition port_id_of :: "port \<Rightarrow> u16" where
  "port_id_of p = push_bit 8 (ucast (pc_priority (po_config p))) OR po_number p"

definition role_of_port :: "bridge_id \<Rightarrow> bridge_id \<times> u32 \<times> string option \<Rightarrow> string \<Rightarrow> port \<Rightarrow> port_role" where
  "role_of_port bridge r name p =
     (case r of (rt, cost, root_port) \<Rightarrow>
        if Some name = root_port then Root
        else case received p of
          Some theirs \<Rightarrow>
            if (pv_root theirs, pv_cost theirs, pv_bridge theirs) < (rt, cost, bridge) then Alternate else Designated
        | None \<Rightarrow> Designated)"

definition take_role :: "port_role \<Rightarrow> instant \<Rightarrow> port \<Rightarrow> port" where
  "take_role role now p =
     (if po_role p \<noteq> role then p\<lparr>po_role := role, po_state := Discarding, state_since := now\<rparr> else p)"

definition next_state :: "duration \<Rightarrow> instant \<Rightarrow> port \<Rightarrow> port_state" where
  "next_state delay now p =
     (if po_role p = Alternate \<or> po_role p = Disabled then Discarding
      else if portfast (po_config p) then Forwarding
      else if po_state p = Discarding \<and> delay \<le> since now (state_since p) then Learning
      else if po_state p = Learning \<and> delay \<le> since now (state_since p) then Forwarding
      else po_state p)"

text \<open>The progression, and whether it is a topology change.\<close>

definition progress :: "duration \<Rightarrow> instant \<Rightarrow> port \<Rightarrow> port \<times> bool" where
  "progress delay now p =
     (let next = next_state delay now p in
      if next \<noteq> po_state p
      then (p\<lparr>po_state := next, state_since := now\<rparr>, next = Forwarding \<and> \<not> portfast (po_config p))
      else (p, False))"

definition send_bpdu ::
  "stp \<Rightarrow> bridge_id \<times> u32 \<times> string option \<Rightarrow> instant \<Rightarrow> string \<Rightarrow> port \<Rightarrow> port \<times> (string \<times> bytes) list" where
  "send_bpdu e r now name p =
     (case r of (rt, cost, _) \<Rightarrow>
        if po_role p = Designated
           \<and> (case po_last_tx p of None \<Rightarrow> True | Some at \<Rightarrow> secs (hello_time (st_config e)) \<le> since now at)
        then (p\<lparr>po_last_tx := Some now, bpdus_tx := bpdus_tx p + 1\<rparr>,
              [(name, encode_bpdu (bridge_mac e) True rt cost (bridge_id_of e) (port_id_of p)
                        (hello_time (st_config e)) (max_age (st_config e)) (forward_time (st_config e)))])
        else (p, []))"

definition step_port ::
  "stp \<Rightarrow> bridge_id \<times> u32 \<times> string option \<Rightarrow> instant \<Rightarrow> string \<Rightarrow> port \<Rightarrow> port \<times> bool \<times> (string \<times> bytes) list" where
  "step_port e r now name p =
     (if \<not> po_link_up p \<or> errdisabled p then (p\<lparr>po_role := Disabled, po_state := Discarding\<rparr>, False, [])
      else
        let p1 = age_out (secs (max_age (st_config e))) now p;
            p2 = take_role (role_of_port (bridge_id_of e) r name p1) now p1;
            (p3, tc) = progress (secs (forward_time (st_config e))) now p2;
            (p4, frames) = send_bpdu e r now name p3
        in (p4, tc, frames))"

definition step_ports :: "instant \<Rightarrow> stp \<Rightarrow> stp \<times> (string \<times> bytes) list" where
  "step_ports now e =
     (if sc_mode (st_config e) = ModeNone then (e\<lparr>ports := bt_map (\<lambda>_. open_port) (ports e)\<rparr>, [])
      else
        let rs = bt_map (step_port e (compute_root e now) now) (ports e);
            tcs = map fst (filter (\<lambda>(_, _, tc, _). tc) rs);
            e1 = e\<lparr>ports := bt_map (\<lambda>_. fst) rs\<rparr>
        in (if tcs = [] then e1
            else e1\<lparr>topology_changes := topology_changes e + 1, last_tc := Some (now, last tcs)\<rparr>,
            concat (map (\<lambda>(_, _, _, frames). frames) rs)))"

definition shown_state :: "port \<Rightarrow> port_state" where
  "shown_state p = (if po_link_up p \<or> errdisabled p then po_state p else Discarding)"

definition push_state ::
  "string \<times> port \<Rightarrow> (string, port_state) btree \<times> (string \<times> port_state) list
     \<Rightarrow> (string, port_state) btree \<times> (string \<times> port_state) list" where
  "push_state np acc =
     (case acc of (sent, us) \<Rightarrow>
        if bt_get sent (fst np) \<noteq> Some (shown_state (snd np))
        then (bt_insert (fst np) (shown_state (snd np)) sent, us @ [(fst np, shown_state (snd np))])
        else (sent, us))"

definition push_states :: "stp \<Rightarrow> stp \<times> (string \<times> port_state) list" where
  "push_states e =
     (let (sent, us) = fold push_state (ports e) (last_states e, []) in (e\<lparr>last_states := sent\<rparr>, us))"

definition stp_step :: "instant \<Rightarrow> stp \<Rightarrow> stp \<times> (string \<times> port_state) list \<times> (string \<times> bytes) list" where
  "stp_step now e =
     (let (e1, frames) = step_ports now e; (e2, us) = push_states e1 in (e2, us, frames))"

record stp_out =
  so_states :: "(string \<times> port_state) list"
  so_frames :: "(string \<times> bytes) list"
  so_errdisable :: "(string \<times> string) list"

datatype stp_input = StpTick | StpLink string bool u32 | Bpdu string bytes | SetConfig stp_config

text \<open>
  One turn of the task: an input, then the pass. The handler of the input and the pass read the clock one
  after the other; both reads give the instant of the turn.
\<close>

definition stp_turn :: "stp \<Rightarrow> stp_input \<times> instant \<Rightarrow> stp \<times> stp_out" where
  "stp_turn e ev =
     (let now = snd ev;
          pass = (\<lambda>e1 errs. case stp_step now e1 of (e2, us, frames) \<Rightarrow>
            (e2, \<lparr>so_states = us, so_frames = frames, so_errdisable = errs\<rparr>))
      in case fst ev of
           StpTick \<Rightarrow> pass e []
         | StpLink name up speed \<Rightarrow> pass (stp_link_event name up speed now e) []
         | Bpdu name frame \<Rightarrow> (case bpdu_event name frame now e of (e1, errs) \<Rightarrow> pass e1 errs)
         | SetConfig c \<Rightarrow> (set_config c e, \<lparr>so_states = [], so_frames = [], so_errdisable = []\<rparr>))"

section \<open>Snapshot\<close>

record port_snapshot =
  ps_port :: string
  ps_role :: port_role
  ps_state :: port_state
  ps_cost :: u32
  ps_priority :: u8
  ps_portfast :: bool
  ps_bpduguard :: bool
  ps_bpdus_rx :: u64
  ps_bpdus_tx :: u64
  ps_errdisabled :: bool

record stp_snapshot =
  ss_mode :: stp_mode
  ss_bridge :: bridge_id
  ss_root :: bridge_id
  ss_root_cost :: u32
  ss_root_port :: "string option"
  ss_hello_time :: u8
  ss_max_age :: u8
  ss_forward_time :: u8
  ss_mst_name :: string
  ss_mst_revision :: u16
  ss_instances :: "(u8, u16 list) btree"
  ss_topology_changes :: u32
  ss_seconds_since_tc :: "nat option"
  ss_last_tc_port :: "string option"
  ss_ports :: "port_snapshot list"

definition snapshot_port :: "string \<times> port \<Rightarrow> port_snapshot" where
  "snapshot_port np =
     (case np of (name, p) \<Rightarrow>
        \<lparr>ps_port = name, ps_role = po_role p, ps_state = po_state p, ps_cost = path_cost p,
         ps_priority = pc_priority (po_config p), ps_portfast = portfast (po_config p),
         ps_bpduguard = bpduguard (po_config p), ps_bpdus_rx = bpdus_rx p, ps_bpdus_tx = bpdus_tx p,
         ps_errdisabled = errdisabled p\<rparr>)"

definition stp_snapshot_of :: "instant \<Rightarrow> stp \<Rightarrow> stp_snapshot" where
  "stp_snapshot_of now e =
     (case compute_root e now of (rt, cost, root_port) \<Rightarrow>
        \<lparr>ss_mode = sc_mode (st_config e), ss_bridge = bridge_id_of e, ss_root = rt, ss_root_cost = cost,
         ss_root_port = root_port, ss_hello_time = hello_time (st_config e), ss_max_age = max_age (st_config e),
         ss_forward_time = forward_time (st_config e), ss_mst_name = mst_name (st_config e),
         ss_mst_revision = mst_revision (st_config e), ss_instances = instances (st_config e),
         ss_topology_changes = topology_changes e,
         ss_seconds_since_tc = map_option (\<lambda>(at, _). as_secs (since now at)) (last_tc e),
         ss_last_tc_port = map_option snd (last_tc e),
         ss_ports = map snapshot_port (filter (\<lambda>(_, p). po_link_up p \<or> errdisabled p) (ports e))\<rparr>)"

section \<open>The frame format\<close>

lemma to_be_4_cases:
  fixes w :: u32
  obtains a b c d where "to_be 4 w = [a, b, c, d]" and "from_be [a, b, c, d] = w"
proof -
  have "length (to_be 4 w) = Suc (Suc (Suc (Suc 0)))" by simp
  then obtain a b c d where abcd: "to_be 4 w = [a, b, c, d]"
    by (auto simp only: length_Suc_conv length_0_conv)
  moreover have "from_be [a, b, c, d] = w"
    using from_be_to_be [of 4 w] abcd by simp
  ultimately show thesis by (rule that)
qed

lemma decode_encode_bpdu:
  assumes "length src = 6" and "length (bi_mac rt) = 6" and "length (bi_mac bridge) = 6"
  shows "decode_bpdu (encode_bpdu src rstp rt cost bridge port_id hello age delay) =
    Some \<lparr>pv_root = rt, pv_cost = cost, pv_bridge = bridge, pv_port_id = port_id\<rparr>"
proof -
  obtain s1 s2 s3 s4 s5 s6 where src: "src = [s1, s2, s3, s4, s5, s6]" using assms(1) by (rule mac_cases)
  obtain m1 m2 m3 m4 m5 m6 where m: "bi_mac rt = [m1, m2, m3, m4, m5, m6]" using assms(2) by (rule mac_cases)
  obtain n1 n2 n3 n4 n5 n6 where n: "bi_mac bridge = [n1, n2, n3, n4, n5, n6]" using assms(3) by (rule mac_cases)
  obtain a1 a2 where a: "to_be 2 (bi_priority rt) = [a1, a2]" "from_be [a1, a2] = bi_priority rt" by (rule to_be_2_cases)
  obtain b1 b2 where b: "to_be 2 (bi_priority bridge) = [b1, b2]" "from_be [b1, b2] = bi_priority bridge" by (rule to_be_2_cases)
  obtain p1 p2 where p: "to_be 2 port_id = [p1, p2]" "from_be [p1, p2] = port_id" by (rule to_be_2_cases)
  obtain c1 c2 c3 c4 where c: "to_be 4 cost = [c1, c2, c3, c4]" "from_be [c1, c2, c3, c4] = cost" by (rule to_be_4_cases)
  obtain l1 l2 where l: "to_be 2 (of_nat (length (encode_bpdu_body rstp rt cost bridge port_id hello age delay) + 3) :: u16) = [l1, l2]"
    by (rule to_be_2_cases)
  obtain rest where rest: "encode_bpdu src rstp rt cost bridge port_id hello age delay =
      stp_dst @ src @ [l1, l2] @ [0x42, 0x42, 0x03] @ [0, 0, if rstp then 2 else 0, if rstp then 2 else 0, 0]
      @ [a1, a2] @ bi_mac rt @ [c1, c2, c3, c4] @ [b1, b2] @ bi_mac bridge @ [p1, p2] @ rest" "8 \<le> length rest"
    using l by (simp add: encode_bpdu_def Let_def encode_bpdu_body_def a(1) b(1) c(1) p(1))
  have "BridgeId (bi_priority rt) [m1, m2, m3, m4, m5, m6] = rt" "BridgeId (bi_priority bridge) [n1, n2, n3, n4, n5, n6] = bridge"
    by (simp_all flip: m n)
  with rest(2) show ?thesis
    unfolding rest(1) by (simp add: decode_bpdu_def src m n stp_dst_def Let_def a(2) b(2) c(2) p(2))
qed

text \<open>A bridge with one port that hears a better root.\<close>

definition demo_bridge_mac :: mac where
  "demo_bridge_mac = [2, 0, 0, 0, 0, 1]"

definition demo_port :: port where
  "demo_port = (new_port (st_config (spawn_stp demo_bridge_mac)) ''lan'' 0)\<lparr>po_link_up := True\<rparr>"

definition demo_bridge :: "(string, port) btree \<Rightarrow> stp" where
  "demo_bridge ps = (spawn_stp demo_bridge_mac)\<lparr>ports := ps\<rparr>"

lemmas stp_demo = demo_bridge_def demo_port_def spawn_stp_def new_port_def config_of_port_def default_port_config_def
  stp_port_number_of_def bridge_id_of_def text_eval

section \<open>The election chooses the best information\<close>

definition candidates :: "stp \<Rightarrow> instant \<Rightarrow> (priority_vector \<times> u32 \<times> string) list" where
  "candidates e now = List.map_filter (\<lambda>(name, p). map_option (\<lambda>(info, cost). (info, cost, name)) (root_candidate e now p)) (ports e)"

definition better_of :: "('a \<Rightarrow> 'b::linorder) \<Rightarrow> 'a \<Rightarrow> 'a option \<Rightarrow> 'a option" where
  "better_of f x best = (case best of None \<Rightarrow> Some x | Some y \<Rightarrow> if f x < f y then Some x else best)"

lemma fold_better_of: "fold (better_of f) xs (Some b) = min_by_key f (b # xs)"
proof (induction xs arbitrary: b)
  case (Cons x xs)
  then show ?case
    by (auto simp: better_of_def split: option.splits)
qed simp

lemma fold_better_of_None: "fold (better_of f) xs None = min_by_key f xs"
  by (cases xs) (simp_all add: fold_better_of [unfolded min_by_key.simps] better_of_def)

lemma fold_map_filter: "fold f (List.map_filter g xs) s = fold (\<lambda>x s. case g x of None \<Rightarrow> s | Some y \<Rightarrow> f y s) xs s"
  by (induction xs arbitrary: s) (auto simp: List.map_filter_simps split: option.split)

lemma fold_better_root: "fold (better_root e now) (ports e) None = min_by_key root_key (candidates e now)"
proof -
  have "better_root e now = (\<lambda>np best. case (case np of (name, p) \<Rightarrow> map_option (\<lambda>(info, cost). (info, cost, name)) (root_candidate e now p)) of
      None \<Rightarrow> best | Some y \<Rightarrow> better_of root_key y best)"
    by (auto simp: fun_eq_iff better_root_def better_of_def split: option.split)
  then show ?thesis
    unfolding candidates_def fold_better_of_None [symmetric] fold_map_filter by simp
qed

lemma in_candidates:
  "(info, cost, name) \<in> set (candidates e now) \<longleftrightarrow> (\<exists>p. (name, p) \<in> set (ports e) \<and> root_candidate e now p = Some (info, cost))"
  by (force simp: candidates_def List.map_filter_def)

text \<open>What a live port has heard and not yet forgotten.\<close>

definition hears :: "stp \<Rightarrow> instant \<Rightarrow> string \<Rightarrow> port \<Rightarrow> priority_vector \<Rightarrow> bool" where
  "hears e now name p info \<longleftrightarrow> (name, p) \<in> set (ports e) \<and> po_link_up p \<and> \<not> errdisabled p \<and> received p = Some info
     \<and> fresh (secs (max_age (st_config e))) now p"

lemma candidate_hears:
  "(name, p) \<in> set (ports e) \<and> root_candidate e now p = Some (info, cost) \<longleftrightarrow>
     hears e now name p info \<and> pv_root info < bridge_id_of e \<and> cost = sat_add32 (pv_cost info) (path_cost p)"
  by (auto simp: root_candidate_def hears_def split: option.splits)

lemma candidates_hears:
  "(info, cost, name) \<in> set (candidates e now) \<longleftrightarrow>
     (\<exists>p. hears e now name p info \<and> pv_root info < bridge_id_of e \<and> cost = sat_add32 (pv_cost info) (path_cost p))"
  unfolding in_candidates candidate_hears ..

lemma compute_root_cases:
  obtains (own) "compute_root e now = (bridge_id_of e, 0, None)"
      and "\<And>name p info. hears e now name p info \<Longrightarrow> bridge_id_of e \<le> pv_root info"
  | (heard) info cost name p where "compute_root e now = (pv_root info, cost, Some name)"
      and "hears e now name p info" and "pv_root info < bridge_id_of e" and "cost = sat_add32 (pv_cost info) (path_cost p)"
      and "\<And>name' p' info'. hears e now name' p' info' \<Longrightarrow> pv_root info' < bridge_id_of e \<Longrightarrow>
        (pv_root info, cost, pv_bridge info, pv_port_id info)
          \<le> (pv_root info', sat_add32 (pv_cost info') (path_cost p'), pv_bridge info', pv_port_id info')"
proof (cases "min_by_key root_key (candidates e now)")
  case None
  then have "candidates e now = []" by simp
  then have "\<not> (hears e now name p info \<and> pv_root info < bridge_id_of e)" for name p info
    using candidates_hears [of info _ name e now] by auto
  with None own show thesis
    by (auto simp: compute_root_def fold_better_root not_less)
next
  case (Some x)
  obtain info cost name where x: "x = (info, cost, name)" by (cases x)
  obtain p where p: "hears e now name p info" "pv_root info < bridge_id_of e" "cost = sat_add32 (pv_cost info) (path_cost p)"
    using min_by_key_in [OF Some] unfolding x candidates_hears by blast
  have root: "compute_root e now = (pv_root info, cost, Some name)"
    by (simp add: compute_root_def fold_better_root Some x)
  have "root_key x \<le> root_key (info', sat_add32 (pv_cost info') (path_cost p'), name')"
    if "hears e now name' p' info'" "pv_root info' < bridge_id_of e" for name' p' info'
    using min_by_key_le [OF Some] that candidates_hears by blast
  then show thesis
    by (intro heard [OF root p]) (simp add: x root_key_def del: less_eq_prod_simp)
qed

text \<open>
  The elected root is the least of the bridge's own identifier and the roots heard on live ports within
  \<open>max_age\<close>. The bridge is its own root, at cost 0 and without a root port, exactly when nothing better
  is heard; otherwise the root port is one on which that root is heard, and no live port offers that root
  at a lower cost.
\<close>

lemma stp_root_election:
  assumes "compute_root e now = (rt, cost, root_port)"
  shows "rt \<le> bridge_id_of e \<and> (\<forall>name p info. hears e now name p info \<longrightarrow> rt \<le> pv_root info)
    \<and> (rt = bridge_id_of e \<longleftrightarrow> root_port = None) \<and> (root_port = None \<longrightarrow> cost = 0)
    \<and> (\<forall>name. root_port = Some name \<longrightarrow>
         (\<exists>p info. hears e now name p info \<and> pv_root info = rt \<and> cost = sat_add32 (pv_cost info) (path_cost p)))
    \<and> (\<forall>name p info. hears e now name p info \<and> pv_root info = rt \<and> root_port \<noteq> None \<longrightarrow>
         cost \<le> sat_add32 (pv_cost info) (path_cost p))"
proof (cases rule: compute_root_cases [of e now])
  case own
  with assms show ?thesis by auto
next
  case (heard info cost' name p)
  have least: "rt \<le> pv_root info'" if "hears e now name' p' info'" for name' p' info'
    using heard(1,3) heard(5) [OF that] assms by (cases "pv_root info' < bridge_id_of e") auto
  have cheapest: "cost \<le> sat_add32 (pv_cost info') (path_cost p')" if "hears e now name' p' info'" "pv_root info' = rt" for name' p' info'
    using heard(1,3) heard(5) [OF that(1)] that(2) assms by auto
  show ?thesis using heard(1-4) assms least cheapest by auto
qed

definition demo_info :: priority_vector where
  "demo_info = \<lparr>pv_root = BridgeId 4096 [2, 0, 0, 0, 0, 9], pv_cost = 5, pv_bridge = BridgeId 4096 [2, 0, 0, 0, 0, 9], pv_port_id = 1\<rparr>"

lemma stp_root_election_example:
  "compute_root (demo_bridge [(''lan'', demo_port\<lparr>received := Some demo_info, po_last_rx := Some 0\<rparr>)]) 0
      = (BridgeId 4096 [2, 0, 0, 0, 0, 9], 20000005, Some ''lan'')
    \<and> BridgeId 4096 [2, 0, 0, 0, 0, 9] \<le> BridgeId 32768 demo_bridge_mac"
proof -
  let ?e = "demo_bridge [(''lan'', demo_port\<lparr>received := Some demo_info, po_last_rx := Some 0\<rparr>)]"
  have r: "compute_root ?e 0 = (BridgeId 4096 [2, 0, 0, 0, 0, 9], 20000005, Some ''lan'')"
    by (simp add: compute_root_def better_root_def root_candidate_def stp_demo demo_info_def fresh_def from_secs_def
        less_eq_bridge_id_def path_cost_def sat_add32_def)
  have "bridge_id_of ?e = BridgeId 32768 demo_bridge_mac" by (simp add: stp_demo)
  with stp_root_election [OF r] r show ?thesis by simp
qed

section \<open>The invariant and the state updates\<close>

definition stp_wf :: "stp \<Rightarrow> bool" where
  "stp_wf e \<longleftrightarrow> bt_wf (ports e)"

lemma push_states_fields [simp]:
  "ports (fst (push_states e)) = ports e" "st_config (fst (push_states e)) = st_config e"
  "bridge_mac (fst (push_states e)) = bridge_mac e"
  by (simp_all add: push_states_def split_beta)

definition step_all :: "instant \<Rightarrow> stp \<Rightarrow> string \<Rightarrow> port \<Rightarrow> port" where
  "step_all now e name p =
     (if sc_mode (st_config e) = ModeNone then open_port p else fst (step_port e (compute_root e now) now name p))"

lemma step_ports_fields [simp]:
  "ports (fst (step_ports now e)) = bt_map (step_all now e) (ports e)" "st_config (fst (step_ports now e)) = st_config e"
  "bridge_mac (fst (step_ports now e)) = bridge_mac e" "last_states (fst (step_ports now e)) = last_states e"
  by (simp_all add: step_ports_def step_all_def [abs_def] Let_def bt_map_map)

lemma stp_step_fields [simp]:
  "ports (fst (stp_step now e)) = bt_map (step_all now e) (ports e)" "st_config (fst (stp_step now e)) = st_config e"
  "bridge_mac (fst (stp_step now e)) = bridge_mac e"
  by (simp_all add: stp_step_def split_beta)

lemma stp_link_event_wf: "stp_wf e \<Longrightarrow> stp_wf (stp_link_event name up speed now e)"
  by (simp add: stp_wf_def stp_link_event_def)

lemma bpdu_event_wf: "stp_wf e \<Longrightarrow> stp_wf (fst (bpdu_event name frame now e))"
  by (simp add: stp_wf_def bpdu_event_def split: option.split)

lemma stp_step_wf: "stp_wf e \<Longrightarrow> stp_wf (fst (stp_step now e))"
  by (simp add: stp_wf_def)

text \<open>The inputs before the pass, and the pass.\<close>

definition stp_passes :: "stp_input \<Rightarrow> bool" where
  "stp_passes i = (case i of SetConfig _ \<Rightarrow> False | _ \<Rightarrow> True)"

definition stp_input_state :: "stp_input \<Rightarrow> instant \<Rightarrow> stp \<Rightarrow> stp" where
  "stp_input_state i now e =
     (case i of
        StpTick \<Rightarrow> e
      | StpLink name up speed \<Rightarrow> stp_link_event name up speed now e
      | Bpdu name frame \<Rightarrow> fst (bpdu_event name frame now e)
      | SetConfig c \<Rightarrow> set_config c e)"

lemma stp_turn_pass:
  assumes "stp_passes (fst ev)"
  shows "fst (stp_turn e ev) = fst (stp_step (snd ev) (stp_input_state (fst ev) (snd ev) e))"
    and "so_states (snd (stp_turn e ev)) = fst (snd (stp_step (snd ev) (stp_input_state (fst ev) (snd ev) e)))"
  using assms by (auto simp: stp_passes_def stp_turn_def stp_input_state_def Let_def split: stp_input.splits prod.splits)

lemma stp_turn_config: "fst ev = SetConfig c \<Longrightarrow> stp_turn e ev =
    (set_config c e, \<lparr>so_states = [], so_frames = [], so_errdisable = []\<rparr>)"
  by (simp add: stp_turn_def Let_def)

lemma stp_input_wf: "stp_wf e \<Longrightarrow> stp_wf (stp_input_state i now e)"
  by (auto simp: stp_input_state_def stp_link_event_wf bpdu_event_wf split: stp_input.split) (simp add: stp_wf_def set_config_def)

lemma stp_turn_wf: "stp_wf e \<Longrightarrow> stp_wf (fst (stp_turn e ev))"
proof (cases "stp_passes (fst ev)")
  case False
  then obtain c where "fst ev = SetConfig c" by (auto simp: stp_passes_def split: stp_input.splits)
  then show "stp_wf e \<Longrightarrow> stp_wf (fst (stp_turn e ev))" by (simp add: stp_turn_config stp_wf_def set_config_def)
qed (simp add: stp_turn_pass stp_step_wf stp_input_wf)

lemma fold_push_state:
  "fold push_state nps (sent, us) = (sent', us') \<Longrightarrow> \<exists>vs. us' = us @ vs \<and> bt_get sent' = apply_updates vs (bt_get sent)"
proof (induction nps arbitrary: sent us)
  case (Cons np nps)
  show ?case
  proof (cases "bt_get sent (fst np) = Some (shown_state (snd np))")
    case True
    with Cons.IH [of sent us] Cons.prems show ?thesis by (simp add: push_state_def [of np])
  next
    case False
    let ?u = "(fst np, shown_state (snd np))"
    from False Cons.prems have "fold push_state nps (bt_insert (fst ?u) (snd ?u) sent, us @ [?u]) = (sent', us')"
      by (simp add: push_state_def [of np])
    then obtain vs where "us' = (us @ [?u]) @ vs" "bt_get sent' = apply_updates vs (bt_get (bt_insert (fst ?u) (snd ?u) sent))"
      using Cons.IH by blast
    moreover have "bt_get (bt_insert (fst ?u) (snd ?u) sent) = (bt_get sent)(fst ?u := Some (snd ?u))"
      by (auto simp: fun_eq_iff bt_simps)
    ultimately show ?thesis by (intro exI [of _ "?u # vs"]) simp
  qed
qed simp

lemma fold_push_state_get:
  assumes "distinct (map fst nps)" and "(n, p) \<in> set nps"
  shows "bt_get (fst (fold push_state nps (sent, us))) n = Some (shown_state p)"
  using assms
proof (induction nps arbitrary: sent us rule: rev_induct)
  case (snoc np nps)
  obtain s u where su: "fold push_state nps (sent, us) = (s, u)" by fastforce
  show ?case
  proof (cases "np = (n, p)")
    case False
    with snoc have "bt_get (fst (fold push_state nps (sent, us))) n = Some (shown_state p)" "fst np \<noteq> n"
      by (auto simp: rev_image_eqI)
    with su show ?thesis by (auto simp: push_state_def [of np] bt_simps)
  qed (simp add: su push_state_def [of "(n, p)"] bt_simps)
qed simp

lemma push_states_sent:
  "bt_get (last_states (fst (push_states e))) = apply_updates (snd (push_states e)) (bt_get (last_states e))"
proof -
  obtain sent us where su: "fold push_state (ports e) (last_states e, []) = (sent, us)" by fastforce
  with fold_push_state [OF su] show ?thesis by (simp add: push_states_def)
qed

lemma stp_step_sent:
  "bt_get (last_states (fst (stp_step now e))) = apply_updates (fst (snd (stp_step now e))) (bt_get (last_states e))"
  using push_states_sent [of "fst (step_ports now e)"] by (simp add: stp_step_def split_beta)

lemma last_states_input [simp]: "last_states (stp_input_state i now e) = last_states e"
  by (simp add: stp_input_state_def stp_link_event_def bpdu_event_def set_config_def split: stp_input.split option.split)

definition stp_push :: "stp \<Rightarrow> stp_input \<times> instant \<Rightarrow> stp \<times> (string \<times> port_state) list" where
  "stp_push e ev = (fst (stp_turn e ev), so_states (snd (stp_turn e ev)))"

lemma stp_turn_sent:
  "bt_get (last_states (fst (stp_turn e ev))) = apply_updates (so_states (snd (stp_turn e ev))) (bt_get (last_states e))"
proof (cases "stp_passes (fst ev)")
  case False
  then obtain c where "fst ev = SetConfig c" by (auto simp: stp_passes_def split: stp_input.splits)
  then show ?thesis by (simp add: stp_turn_config set_config_def)
qed (simp add: stp_turn_pass stp_step_sent)

interpretation states: mirror stp_push "\<lambda>e. bt_get (last_states e)" stp_wf
proof
  fix e ev e' us k v and m :: "string \<Rightarrow> port_state option"
  show "stp_wf e \<Longrightarrow> stp_wf (fst (stp_push e ev))" by (simp add: stp_push_def stp_turn_wf)
  assume "stp_push e ev = (e', us)" and "bt_get (last_states e') k = Some v"
  then have "apply_updates us (bt_get (last_states e)) k = Some v"
    using stp_turn_sent [of e ev] by (auto simp: stp_push_def)
  then show "apply_updates us (\<lambda>k. if bt_get (last_states e) k = None then m k else bt_get (last_states e) k) k = Some v"
    by (rule apply_updates_mono [rotated]) simp
qed

definition stp_moves :: "stp \<Rightarrow> stp_input \<times> instant \<Rightarrow> stp \<Rightarrow> bool" where
  "stp_moves e ev e' \<longleftrightarrow> e' = fst (stp_turn e ev)"

interpretation stp_engine: machine stp_moves stp_wf
  by unfold_locales (simp add: stp_moves_def stp_turn_wf)

section \<open>What the pass does to a port\<close>

lemma default_priority_fields [simp]: "portfast (default_priority c) = portfast c" "bpduguard (default_priority c) = bpduguard c"
  "pc_cost (default_priority c) = pc_cost c"
  by (simp_all add: default_priority_def)

lemma port_steps_fields [simp]:
  "po_config (age_out age now p) = po_config p" "po_link_up (age_out age now p) = po_link_up p"
  "errdisabled (age_out age now p) = errdisabled p" "speed_mbps (age_out age now p) = speed_mbps p"
  "po_state (age_out age now p) = po_state p" "state_since (age_out age now p) = state_since p" "po_role (age_out age now p) = po_role p"
  "po_config (take_role r now p) = po_config p" "po_link_up (take_role r now p) = po_link_up p"
  "errdisabled (take_role r now p) = errdisabled p" "speed_mbps (take_role r now p) = speed_mbps p"
  "received (take_role r now p) = received p" "po_last_rx (take_role r now p) = po_last_rx p" "po_role (take_role r now p) = r"
  "po_config (fst (progress d now p)) = po_config p" "po_link_up (fst (progress d now p)) = po_link_up p"
  "errdisabled (fst (progress d now p)) = errdisabled p" "speed_mbps (fst (progress d now p)) = speed_mbps p"
  "received (fst (progress d now p)) = received p" "po_last_rx (fst (progress d now p)) = po_last_rx p"
  "po_role (fst (progress d now p)) = po_role p" "po_state (fst (progress d now p)) = next_state d now p"
  "po_config (fst (send_bpdu e r' now name p)) = po_config p" "po_link_up (fst (send_bpdu e r' now name p)) = po_link_up p"
  "errdisabled (fst (send_bpdu e r' now name p)) = errdisabled p" "speed_mbps (fst (send_bpdu e r' now name p)) = speed_mbps p"
  "received (fst (send_bpdu e r' now name p)) = received p" "po_last_rx (fst (send_bpdu e r' now name p)) = po_last_rx p"
  "po_role (fst (send_bpdu e r' now name p)) = po_role p" "po_state (fst (send_bpdu e r' now name p)) = po_state p"
  "state_since (fst (send_bpdu e r' now name p)) = state_since p"
  by (simp_all add: age_out_def take_role_def progress_def send_bpdu_def Let_def split: option.split prod.split)

lemma step_port_live:
  assumes "po_link_up p" and "\<not> errdisabled p"
  shows "fst (step_port e r now name p) =
    (let p1 = age_out (secs (max_age (st_config e))) now p
     in fst (send_bpdu e r now name
          (fst (progress (secs (forward_time (st_config e))) now (take_role (role_of_port (bridge_id_of e) r name p1) now p1)))))"
  using assms by (simp add: step_port_def Let_def split_beta)

lemma step_port_dead:
  "\<not> po_link_up p \<or> errdisabled p \<Longrightarrow> fst (step_port e r now name p) = p\<lparr>po_role := Disabled, po_state := Discarding\<rparr>"
  by (simp add: step_port_def)

lemma step_all_fields [simp]:
  "po_config (step_all now e name p) = po_config p" "po_link_up (step_all now e name p) = po_link_up p"
  "errdisabled (step_all now e name p) = errdisabled p" "speed_mbps (step_all now e name p) = speed_mbps p"
  by (cases "po_link_up p \<and> \<not> errdisabled p"; simp add: step_all_def open_port_def step_port_live step_port_dead Let_def)+

lemma step_all_dead: "\<not> po_link_up p \<or> errdisabled p \<Longrightarrow> po_state (step_all now e name p) = Discarding"
  by (auto simp: step_all_def open_port_def step_port_dead)

lemma path_cost_step [simp]: "path_cost (step_all now e name p) = path_cost p"
  by (simp add: path_cost_def split: option.split)

text \<open>Ageing drops only what the election ignores anyway.\<close>

lemma root_candidate_step:
  assumes "sc_mode (st_config e) \<noteq> ModeNone" and "bridge_id_of e' = bridge_id_of e" and "st_config e' = st_config e"
  shows "root_candidate e' now (step_all now e name p) = root_candidate e now p"
proof (cases "po_link_up p \<and> \<not> errdisabled p")
  case True
  let ?p1 = "age_out (secs (max_age (st_config e))) now p"
  have "received (step_all now e name p) = received ?p1" "po_last_rx (step_all now e name p) = po_last_rx ?p1"
    using True assms(1) by (simp_all add: step_all_def step_port_live Let_def)
  moreover have "fresh age now q = fresh age now q'" if "po_last_rx q = po_last_rx q'" for age q q'
    using that by (simp add: fresh_def)
  ultimately show ?thesis
    using assms(2,3) by (auto simp: root_candidate_def age_out_def fresh_def split: option.split)
qed (auto simp: root_candidate_def)

lemma compute_root_step:
  assumes "sc_mode (st_config e) \<noteq> ModeNone"
  shows "compute_root (fst (stp_step now e)) now = compute_root e now"
proof -
  let ?e' = "fst (stp_step now e)"
  have b: "bridge_id_of ?e' = bridge_id_of e" by (simp add: bridge_id_of_def)
  have "candidates ?e' now = candidates e now"
    by (simp add: candidates_def List.map_filter_def bt_map_def filter_map comp_def split_beta root_candidate_step [OF assms b])
  then show ?thesis unfolding compute_root_def fold_better_root b by simp
qed

lemma stp_step_port:
  assumes "(name, p') \<in> set (ports (fst (stp_step now e)))"
  obtains p where "(name, p) \<in> set (ports e)" and "p' = step_all now e name p"
  using assms that by (auto simp: bt_map_set)

text \<open>
  C6. After every turn that evaluates the ports while spanning tree is on, a port that learns or forwards is up
  and not error-disabled, and is either the root port or hears nothing better than what this bridge
  itself sends: every other port discards.
\<close>

theorem stp_blocks_alternates:
  assumes "stp_passes (fst ev)" and "fst (stp_turn e ev) = e'" and "sc_mode (st_config e') \<noteq> ModeNone"
    and "(name, p) \<in> set (ports e')" and "po_state p \<noteq> Discarding"
    and "compute_root e' (snd ev) = (rt, cost, root_port)"
  shows "po_link_up p \<and> \<not> errdisabled p
    \<and> (root_port = Some name
       \<or> (\<forall>info. received p = Some info \<longrightarrow>
            (rt, cost, bridge_id_of e') \<le> (pv_root info, pv_cost info, pv_bridge info)))"
proof -
  let ?e1 = "stp_input_state (fst ev) (snd ev) e"
  have e': "e' = fst (stp_step (snd ev) ?e1)" using assms(1,2) by (simp add: stp_turn_pass)
  have mode: "sc_mode (st_config ?e1) \<noteq> ModeNone" using assms(3) by (simp add: e')
  have r: "compute_root ?e1 (snd ev) = (rt, cost, root_port)" using assms(6) compute_root_step [OF mode] by (simp add: e')
  obtain p0 where p0: "p = step_all (snd ev) ?e1 name p0" using assms(4) unfolding e' by (rule stp_step_port)
  have live: "po_link_up p0" "\<not> errdisabled p0"
    using assms(5) step_all_dead [of p0] by (auto simp: p0)
  have "bridge_id_of e' = bridge_id_of ?e1" by (simp add: e' bridge_id_of_def)
  moreover have "role_of_port (bridge_id_of ?e1) (rt, cost, root_port) name (age_out (secs (max_age (st_config ?e1))) (snd ev) p0) \<noteq> Alternate"
    using assms(5) mode live r by (auto simp: p0 step_all_def step_port_live Let_def next_state_def)
  moreover have "received p = received (age_out (secs (max_age (st_config ?e1))) (snd ev) p0)"
    using mode live by (simp add: p0 step_all_def step_port_live Let_def)
  ultimately show ?thesis
    using live by (auto simp: p0 role_of_port_def not_less simp del: less_prod_simp less_eq_prod_simp split: if_splits option.splits)
qed

theorem stp_blocks_alternates_witness:
  "\<exists>p. (''lan'', p) \<in> set (ports (fst (stp_turn (demo_bridge [(''lan'', demo_port\<lparr>po_config := \<lparr>portfast = True, bpduguard = False, pc_cost = None, pc_priority = 128\<rparr>\<rparr>)]) (StpTick, 0))))
     \<and> po_state p = Forwarding \<and> po_link_up p \<and> \<not> errdisabled p"
proof -
  let ?p = "demo_port\<lparr>po_config := \<lparr>portfast = True, bpduguard = False, pc_cost = None, pc_priority = 128\<rparr>\<rparr>"
  let ?e = "demo_bridge [(''lan'', ?p)]"
  let ?e' = "fst (stp_turn ?e (StpTick, 0))"
  have mode: "sc_mode (st_config ?e) \<noteq> ModeNone" by (simp add: stp_demo)
  have ports: "ports ?e' = [(''lan'', step_all 0 ?e ''lan'' ?p)]"
    by (simp add: stp_turn_pass stp_passes_def stp_input_state_def bt_map_def) (simp add: demo_bridge_def)
  have r: "compute_root ?e 0 = (bridge_id_of ?e, 0, None)"
    by (simp add: compute_root_def better_root_def root_candidate_def stp_demo)
  then have r': "compute_root ?e' 0 = (bridge_id_of ?e, 0, None)"
    using compute_root_step [OF mode, of 0] by (simp add: stp_turn_pass stp_passes_def stp_input_state_def)
  have fwd: "po_state (step_all 0 ?e ''lan'' ?p) = Forwarding"
    using mode r by (simp add: step_all_def step_port_live demo_port_def new_port_def Let_def next_state_def role_of_port_def age_out_def)
  have "sc_mode (st_config ?e') \<noteq> ModeNone"
    using mode by (simp add: stp_turn_pass stp_passes_def stp_input_state_def)
  from stp_blocks_alternates [of "(StpTick, 0)" ?e ?e' "''lan''" "step_all 0 ?e ''lan'' ?p" "bridge_id_of ?e" 0 None]
      this r' ports fwd show ?thesis
    by (auto simp: stp_passes_def)
qed

text \<open>
  After any sequence of inputs from the start, once a pass has run, the state last sent for every port
  is the state the engine holds for it: state updates are sent only on a change and none is missing.
\<close>

lemma stp_states_delivered:
  assumes "pushes stp_push (spawn_stp mac) evs e us" and "stp_passes (fst ev)"
    and "(name, p) \<in> set (ports (fst (stp_push e ev)))"
  shows "apply_updates (us @ snd (stp_push e ev)) (\<lambda>_. None) name = Some (po_state p)"
proof (rule states.receiver_agrees [OF pushes_snoc [OF assms(1)]])
  show wf0: "stp_wf (spawn_stp mac)" by (simp add: stp_wf_def spawn_stp_def)
  then have "stp_wf (stp_input_state (fst ev) (snd ev) e)"
    using states.pushes_inv [OF assms(1)] by (simp add: stp_input_wf)
  then have d: "distinct (map fst (ports (fst (step_ports (snd ev) (stp_input_state (fst ev) (snd ev) e)))))"
    by (simp add: stp_wf_def bt_wf_distinct)
  have "bt_get (last_states (fst (push_states (fst (step_ports (snd ev) (stp_input_state (fst ev) (snd ev) e)))))) name = Some (shown_state p)"
    using fold_push_state_get [OF d] assms(2,3)
    by (simp add: push_states_def split_beta stp_push_def stp_turn_pass)
  moreover have "shown_state p = po_state p"
    using assms(2,3) by (auto simp: stp_push_def stp_turn_pass bt_map_set shown_state_def step_all_dead)
  ultimately show "bt_get (last_states (fst (stp_push e ev))) name = Some (po_state p)"
    using assms(2) by (simp add: stp_push_def stp_turn_pass stp_step_def split_beta)
qed (simp add: spawn_stp_def)

lemma stp_states_delivered_example:
  "\<exists>p. (''lan'', p) \<in> set (ports (fst (stp_push (spawn_stp demo_bridge_mac) (StpLink ''lan'' True 1000, 0))))
     \<and> apply_updates (snd (stp_push (spawn_stp demo_bridge_mac) (StpLink ''lan'' True 1000, 0))) (\<lambda>_. None) ''lan'' = Some (po_state p)"
proof -
  obtain p where p: "(''lan'', p) \<in> set (ports (fst (stp_push (spawn_stp demo_bridge_mac) (StpLink ''lan'' True 1000, 0))))"
    by (auto simp: stp_push_def stp_turn_pass stp_passes_def stp_input_state_def stp_link_event_def spawn_stp_def
        bt_map_def bt_update_def bt_or_insert_def)
  with stp_states_delivered [OF pushes_Nil _ p] show ?thesis by (auto simp: stp_passes_def)
qed

section \<open>The forward delay\<close>






section \<open>BPDU guard\<close>

definition keeps_guard :: "string \<Rightarrow> stp_input \<times> instant \<Rightarrow> bool" where
  "keeps_guard name ev = (case fst ev of SetConfig c \<Rightarrow> bpduguard (config_of_port c name) | _ \<Rightarrow> True)"

lemma shut_port_input:
  assumes "bt_get (ports e) name = Some p" and "errdisabled p \<and> po_state p = Discarding" and "keeps_guard name ev"
  shows "\<exists>p'. bt_get (ports (stp_input_state (fst ev) (snd ev) e)) name = Some p' \<and> errdisabled p' \<and> po_state p' = Discarding"
proof (cases "fst ev")
  case (SetConfig c)
  with assms show ?thesis
    by (auto simp: stp_input_state_def set_config_def bt_simps configure_port_def Let_def keeps_guard_def)
next
  case (Bpdu n frame)
  with assms show ?thesis
    by (cases "n = name"; cases "decode_bpdu frame")
      (auto simp: stp_input_state_def bpdu_event_def bt_simps hear_bpdu_def guard_trips_def Let_def)
next
  case (StpLink n up speed)
  with assms show ?thesis
    by (cases "n = name") (auto simp: stp_input_state_def stp_link_event_def bt_simps change_link_def Let_def)
qed (use assms in \<open>simp add: stp_input_state_def\<close>)

lemma shut_port_turn:
  assumes "\<exists>p. bt_get (ports e) name = Some p \<and> errdisabled p \<and> po_state p = Discarding" and "keeps_guard name ev"
  shows "\<exists>p. bt_get (ports (fst (stp_turn e ev))) name = Some p \<and> errdisabled p \<and> po_state p = Discarding"
proof -
  from assms obtain p where p: "bt_get (ports (stp_input_state (fst ev) (snd ev) e)) name = Some p" "errdisabled p" "po_state p = Discarding"
    using shut_port_input by blast
  show ?thesis
  proof (cases "stp_passes (fst ev)")
    case True
    with p step_all_dead [of p] show ?thesis by (auto simp: stp_turn_pass bt_simps)
  next
    case False
    then obtain c where "fst ev = SetConfig c" by (auto simp: stp_passes_def split: stp_input.splits)
    with p show ?thesis by (simp add: stp_turn_config stp_input_state_def)
  qed
qed

text \<open>
  A BPDU on a guarded port reports the port for error-disabling in that turn, and from then on the port
  discards, through every later input, until a configuration without the guard for it.
\<close>

lemma stp_bpduguard:
  assumes "bt_get (ports e) name = Some p" and "bpduguard (po_config p)" and "\<not> errdisabled p"
    and "decode_bpdu frame = Some info" and "run stp_moves (fst (stp_turn e (Bpdu name frame, now))) evs e'"
    and "list_all (keeps_guard name) evs"
  shows "so_errdisable (snd (stp_turn e (Bpdu name frame, now))) = [(name, ''bpduguard'')]
    \<and> (\<exists>p'. bt_get (ports e') name = Some p' \<and> errdisabled p' \<and> po_state p' = Discarding)"
proof -
  let ?shut = "\<lambda>e. \<exists>p. bt_get (ports e) name = Some p \<and> errdisabled p \<and> po_state p = Discarding"
  have ev: "bpdu_event name frame now e =
      (e\<lparr>ports := bt_update name (hear_bpdu info now) (ports e)\<rparr>, [(name, ''bpduguard'')])"
    using assms(1-4) by (simp add: bpdu_event_def guard_trips_def)
  have "?shut (stp_input_state (Bpdu name frame) now e)"
    using assms(1-3) by (simp add: stp_input_state_def ev bt_simps hear_bpdu_def guard_trips_def Let_def)
  then have "?shut (fst (stp_turn e (Bpdu name frame, now)))"
    using step_all_dead by (auto simp: stp_turn_pass stp_passes_def bt_simps)
  from assms(5) this assms(6) have "?shut e'"
    by (rule run_keeps) (simp add: stp_moves_def shut_port_turn)
  moreover have "so_errdisable (snd (stp_turn e (Bpdu name frame, now))) = [(name, ''bpduguard'')]"
    by (simp add: stp_turn_def ev split_beta)
  ultimately show ?thesis by blast
qed

lemma stp_bpduguard_example:
  "so_errdisable (snd (stp_turn (demo_bridge [(''lan'', demo_port\<lparr>po_config := \<lparr>portfast = True, bpduguard = True, pc_cost = None, pc_priority = 128\<rparr>\<rparr>)])
       (Bpdu ''lan'' (encode_bpdu demo_bridge_mac True (BridgeId 0 demo_bridge_mac) 0 (BridgeId 0 demo_bridge_mac) 1 2 20 15), 0)))
     = [(''lan'', ''bpduguard'')]"
  by (rule conjunct1 [OF stp_bpduguard [OF _ _ _ decode_encode_bpdu run_Nil]])
    (auto simp: stp_demo demo_bridge_mac_def)

section \<open>A cable between two ports of one bridge\<close>







text \<open>A configured bridge priority of 0, the one that wins every election, is replaced by the default.\<close>

lemma zero_priority_replaced:
  assumes "sc_priority c = 0"
  shows "bridge_id_of (set_config c e) = BridgeId 32768 (bridge_mac e) \<and> BridgeId 4096 other < bridge_id_of (set_config c e)"
  using assms by (simp add: bridge_id_of_def set_config_def default_timers_def less_bridge_id_def)

end
