(* ===== verification/Map_Sync.thy ===== *)
theory Map_Sync
  imports Hemlock_Prelude
begin

text \<open>
  Bringing a copy of a map up to date by its differences, as the pushers of the orchestrator do:
  insertions of what differs and removals of what is not wanted, each of which may fail.
\<close>

section \<open>Converging one map\<close>

definition ins_all :: "('k \<Rightarrow> 'v \<Rightarrow> bool) \<Rightarrow> ('k::linorder \<times> 'v) list \<Rightarrow> ('k, 'v) btree \<Rightarrow> ('k, 'v) btree" where
  "ins_all ok xs m = fold (\<lambda>(k, v) m. if ok k v then bt_insert k v m else m) xs m"

definition del_all :: "('k \<Rightarrow> bool) \<Rightarrow> 'k::linorder list \<Rightarrow> ('k, 'v) btree \<Rightarrow> ('k, 'v) btree" where
  "del_all ok ks m = fold (\<lambda>k m. if ok k then bt_remove k m else m) ks m"

lemma get_ins_all:
  "distinct (map fst xs) \<Longrightarrow> bt_get (ins_all ok xs m) k =
     (case map_of xs k of Some v \<Rightarrow> if ok k v then Some v else bt_get m k | None \<Rightarrow> bt_get m k)"
proof (induction xs arbitrary: m)
  case (Cons x xs)
  obtain k' v where x: "x = (k', v)" by (cases x)
  have "ins_all ok (x # xs) m = ins_all ok xs (if ok k' v then bt_insert k' v m else m)"
    by (simp add: ins_all_def x)
  moreover have "map_of xs k' = None" using Cons.prems by (simp add: x map_of_eq_None_iff)
  ultimately show ?case using Cons by (auto simp: x bt_simps split: option.splits)
qed (simp add: ins_all_def)

lemma get_del_all: "bt_get (del_all ok ks m) k = (if k \<in> set ks \<and> ok k then None else bt_get m k)"
  by (induction ks arbitrary: m) (auto simp: del_all_def bt_simps)

lemma wf_ins_all: "bt_wf m \<Longrightarrow> bt_wf (ins_all ok xs m)"
  unfolding ins_all_def by (rule fold_keeps) auto

lemma wf_del_all: "bt_wf m \<Longrightarrow> bt_wf (del_all ok ks m)"
  unfolding del_all_def by (rule fold_keeps) auto

definition differs :: "('k, 'v) btree \<Rightarrow> ('k, 'v) btree \<Rightarrow> ('k \<times> 'v) list" where
  "differs cur w = filter (\<lambda>(k, v). bt_get cur k \<noteq> Some v) w"

definition unwanted :: "('k, 'v) btree \<Rightarrow> ('k, 'v) btree \<Rightarrow> 'k list" where
  "unwanted cur w = filter (\<lambda>k. \<not> bt_contains w k) (bt_keys cur)"

lemma map_of_differs:
  assumes "bt_wf w"
  shows "map_of (differs cur w) k = (case bt_get w k of Some v \<Rightarrow> if bt_get cur k = Some v then None else Some v | None \<Rightarrow> None)"
proof -
  have "differs cur w = bt_retain (\<lambda>k v. bt_get cur k \<noteq> Some v) w"
    by (simp add: differs_def bt_retain_def case_prod_beta')
  then show ?thesis using bt_get_retain [OF assms] by (simp split: option.split)
qed

lemma in_unwanted: "k \<in> set (unwanted cur w) \<longleftrightarrow> bt_contains cur k \<and> \<not> bt_contains w k"
  by (auto simp: unwanted_def bt_contains_iff)

lemma converge_get:
  assumes "bt_wf w"
  shows "bt_get (del_all okd (unwanted cur w) (ins_all oki (differs cur w) m)) k =
    (case bt_get w k of
       Some v \<Rightarrow> if bt_get cur k = Some v \<or> \<not> oki k v then bt_get m k else Some v
     | None \<Rightarrow> if bt_contains cur k \<and> okd k then None else bt_get m k)"
proof -
  have "distinct (map fst (differs cur w))"
    using bt_wf_distinct [OF bt_wf_filter [OF assms]] by (simp add: differs_def)
  moreover have "bt_contains w k \<longleftrightarrow> bt_get w k \<noteq> None" by (simp add: bt_contains_def)
  ultimately show ?thesis
    by (cases "bt_get w k") (simp_all add: get_del_all get_ins_all map_of_differs [OF assms] in_unwanted)
qed

lemma bt_ext:
  assumes "bt_wf m" and "bt_wf m'" and "\<And>k. bt_get m k = bt_get m' k"
  shows "m = m'"
proof (rule alist_ext)
  show "set m = set m'"
    using assms(3) bt_get_in_set [OF assms(1)] bt_get_in_set [OF assms(2)] by (metis subrelI subset_antisym)
qed (use assms in \<open>simp_all add: bt_wf_def\<close>)

text \<open>What is left to do after a round is what failed in it.\<close>

lemma differs_again:
  assumes "bt_wf w"
  shows "differs (del_all okd (unwanted cur w) (ins_all oki (differs cur w) cur)) w = filter (\<lambda>(k, v). \<not> oki k v) (differs cur w)"
proof -
  have "bt_get w k = Some v" if "(k, v) \<in> set w" for k v
    using that assms by (simp add: bt_get_in_set)
  then show ?thesis
    unfolding differs_def [of _ w] filter_filter
    by (intro filter_cong refl) (auto simp: converge_get [OF assms, unfolded differs_def [of _ w]] split: if_splits)
qed

lemma unwanted_again:
  assumes "bt_wf w" and "bt_wf cur"
  shows "unwanted (del_all okd (unwanted cur w) (ins_all oki (differs cur w) cur)) w = filter (\<lambda>k. \<not> okd k) (unwanted cur w)"
    (is "unwanted ?m w = _")
proof (rule sorted_distinct_set_unique)
  have wf: "bt_wf ?m" using assms(2) by (simp add: wf_del_all wf_ins_all)
  then show "sorted (unwanted ?m w)" "distinct (unwanted ?m w)"
    by (simp_all add: unwanted_def bt_wf_def strict_sorted_iff sorted_filter [where f = id, simplified])
  show "sorted (filter (\<lambda>k. \<not> okd k) (unwanted cur w))" "distinct (filter (\<lambda>k. \<not> okd k) (unwanted cur w))"
    using assms(2) by (simp_all add: unwanted_def bt_wf_def strict_sorted_iff sorted_filter [where f = id, simplified])
  show "set (unwanted ?m w) = set (filter (\<lambda>k. \<not> okd k) (unwanted cur w))"
    by (auto simp: in_unwanted) (auto simp: bt_contains_def converge_get [OF assms(1)] split: if_splits)
qed

text \<open>A mirror of installed state: the same entries, and no match with the wanted program that is not real.\<close>

definition anchored_map :: "('k, 'v) btree \<Rightarrow> ('k, 'v) btree \<Rightarrow> ('k, 'v) btree \<Rightarrow> bool" where
  "anchored_map cur fib w \<longleftrightarrow> (\<forall>k. bt_contains cur k = bt_contains fib k)
     \<and> (\<forall>k v. bt_get w k = Some v \<and> bt_get cur k = Some v \<longrightarrow> bt_get fib k = Some v)"

lemma anchored_map_converges:
  assumes "anchored_map cur fib w" and "bt_wf fib" and "bt_wf w"
  shows "del_all (\<lambda>_. True) (unwanted cur w) (ins_all (\<lambda>_ _. True) (differs cur w) fib) = w"
proof (rule bt_ext)
  fix k
  show "bt_get (del_all (\<lambda>_. True) (unwanted cur w) (ins_all (\<lambda>_ _. True) (differs cur w) fib)) k = bt_get w k"
    using assms(1) by (auto simp: converge_get [OF assms(3)] anchored_map_def bt_contains_def split: option.split)
qed (simp_all add: assms wf_del_all wf_ins_all)

lemma map_of_const: "map_of (map (\<lambda>k. (k, c)) ks) k = (if k \<in> set ks then Some c else None)"
  by (induction ks) auto

lemma get_collect_const: "bt_get (bt_collect (map (\<lambda>k. (k, c)) ks)) k = (if k \<in> set ks then Some c else None)"
  by (simp add: bt_get_collect rev_map map_of_const)

end
