(* ===== verification/Orch_Rib.thy ===== *)
theory Orch_Rib
  imports Common_Ip Map_Sync "HOL-Library.Option_ord"
begin

text \<open>
  The route manager (\<^verbatim>\<open>src/src/hemlock-orch/src/rib.rs\<close>) and the task that pushes its program
  (\<open>push_fib\<close> and \<open>dump_fib\<close> of \<^verbatim>\<open>src/src/hemlock-orch/src/main.rs\<close>): a
  kernel snapshot is translated to the wanted program, and the difference to a mirror of what is installed is
  pushed one operation at a time. Snapshots arrive parsed: the JSON of \<open>ip -j\<close> is read by a
  third-party library. \<open>BTreeSet\<close>s are the key lists of the map model, and the \<open>HashMap\<close>
  of first-seen instants is a map whose order is never observed.
\<close>

section \<open>Kernel snapshots\<close>

record kernel_hop =
  kh_via :: "string option"
  kh_dev :: "string option"

record kernel_route =
  kr_prefix :: string
  kr_protocol :: string
  kr_metric :: u32
  blackhole :: bool
  kr_hops :: "kernel_hop list"

record kernel_neighbor =
  kn_ip :: string
  kn_dev :: string
  kn_mac :: "string option"
  permanent :: bool
  reachable :: bool
  stale :: bool
  age_secs :: "u64 option"

definition canonical_dst :: "string \<Rightarrow> bool \<Rightarrow> string" where
  "canonical_dst dst v6 =
     (if dst = ''default'' then (if v6 then ''::/0'' else ''0.0.0.0/0'')
      else if CHR ''/'' \<in> set dst then dst
      else if CHR '':'' \<in> set dst then dst @ ''/128''
      else dst @ ''/32'')"

section \<open>The wanted program\<close>

record wanted_route =
  cpu :: bool
  wr_drop :: bool
  wr_hops :: "(string \<times> string) list"

record prog =
  pr_routes :: "(string, wanted_route) btree"
  pr_neighbors :: "(string \<times> string, string) btree"

definition empty_prog :: prog where
  "empty_prog = \<lparr>pr_routes = [], pr_neighbors = []\<rparr>"

text \<open>Link-local and multicast destinations, and what is not a prefix.\<close>

definition skip_prefix :: "string \<Rightarrow> bool" where
  "skip_prefix prefix =
     (case split_once (CHR ''/'') prefix of
        None \<Rightarrow> True
      | Some (addr, _) \<Rightarrow>
          (case parse_ip addr of
             Some (V4 a) \<Rightarrow> 224 \<le> octets a ! 0 \<and> octets a ! 0 \<le> 239 \<or> octets a ! 0 = 169 \<and> octets a ! 1 = 254
           | Some (V6 a) \<Rightarrow>
               (of_nat (segments a ! 0) :: u16) AND 0xff00 = 0xff00 \<or> (of_nat (segments a ! 0) :: u16) AND 0xffc0 = 0xfe80
           | None \<Rightarrow> True))"

definition derive_neighbors :: "kernel_neighbor list \<Rightarrow> string list \<Rightarrow> (string \<times> string, string) btree" where
  "derive_neighbors ns l3 =
     fold (\<lambda>n m. case kn_mac n of
             None \<Rightarrow> m
           | Some mac \<Rightarrow>
               if kn_dev n \<notin> set l3 then m
               else if \<not> (reachable n \<or> permanent n) then m
               else bt_insert (kn_dev n, kn_ip n) mac m) ns []"

definition gateway_hops :: "kernel_route \<Rightarrow> (string \<times> string) list" where
  "gateway_hops r =
     List.map_filter (\<lambda>hop. case kh_via hop of
         None \<Rightarrow> None
       | Some via \<Rightarrow> (case kh_dev hop of None \<Rightarrow> None | Some dev \<Rightarrow> Some (via, dev))) (kr_hops r)"

text \<open>What one kernel route asks for, if it is for the switch at all.\<close>

definition wanted_of ::
  "(string \<times> string, string) btree \<Rightarrow> string list \<Rightarrow> kernel_route \<Rightarrow> wanted_route option" where
  "wanted_of neighbors l3 r =
     (if skip_prefix (kr_prefix r) then None
      else if blackhole r then Some \<lparr>cpu = False, wr_drop = True, wr_hops = []\<rparr>
      else if gateway_hops r = [] then None
      else
        let asic_hops = filter (\<lambda>(_, dev). dev \<in> set l3) (gateway_hops r) in
        if asic_hops = [] then None
        else
          let resolved = map (\<lambda>(via, dev). (dev, via))
                           (filter (\<lambda>(via, dev). bt_contains neighbors (dev, via)) asic_hops)
          in Some \<lparr>cpu = (resolved = []), wr_drop = False, wr_hops = resolved\<rparr>)"

definition derive_program :: "kernel_route list \<Rightarrow> kernel_neighbor list \<Rightarrow> string list \<Rightarrow> prog" where
  "derive_program rs ns l3 =
     (let neighbors = derive_neighbors ns l3
      in \<lparr>pr_routes = fold (\<lambda>r m. case wanted_of neighbors l3 r of None \<Rightarrow> m | Some w \<Rightarrow> bt_insert (kr_prefix r) w m) rs [],
          pr_neighbors = neighbors\<rparr>)"

section \<open>The operations that converge a mirror\<close>

datatype fib_op =
    EnsureNeighbor string string string
  | EnsureRoute string wanted_route
  | RemoveRoute string
  | RemoveNeighbor string string

definition diff_program :: "prog \<Rightarrow> prog \<Rightarrow> fib_op list" where
  "diff_program current wanted =
     map (\<lambda>((interface, ip), mac). EnsureNeighbor interface ip mac)
       (filter (\<lambda>(k, mac). bt_get (pr_neighbors current) k \<noteq> Some mac) (pr_neighbors wanted))
     @ map (\<lambda>(prefix, route). EnsureRoute prefix route)
       (filter (\<lambda>(prefix, route). bt_get (pr_routes current) prefix \<noteq> Some route) (pr_routes wanted))
     @ map RemoveRoute (filter (\<lambda>prefix. \<not> bt_contains (pr_routes wanted) prefix) (bt_keys (pr_routes current)))
     @ map (\<lambda>(interface, ip). RemoveNeighbor interface ip)
       (filter (\<lambda>k. \<not> bt_contains (pr_neighbors wanted) k) (bt_keys (pr_neighbors current)))"

text \<open>
  What an operation does to the mirror of the pusher. The properties take the same for its effect in syncd: an operation
  that succeeds sets or removes its one entry, one that fails changes nothing.
\<close>

fun apply_op :: "fib_op \<Rightarrow> prog \<Rightarrow> prog" where
  "apply_op (EnsureNeighbor interface ip mac) p = p\<lparr>pr_neighbors := bt_insert (interface, ip) mac (pr_neighbors p)\<rparr>"
| "apply_op (EnsureRoute prefix route) p = p\<lparr>pr_routes := bt_insert prefix route (pr_routes p)\<rparr>"
| "apply_op (RemoveRoute prefix) p = p\<lparr>pr_routes := bt_remove prefix (pr_routes p)\<rparr>"
| "apply_op (RemoveNeighbor interface ip) p = p\<lparr>pr_neighbors := bt_remove (interface, ip) (pr_neighbors p)\<rparr>"

text \<open>One round of the pusher: the mirror follows the operations that succeed.\<close>

definition push_round :: "(fib_op \<Rightarrow> bool) \<Rightarrow> prog \<Rightarrow> prog \<Rightarrow> prog" where
  "push_round ok held wanted = fold (\<lambda>op m. if ok op then apply_op op m else m) (diff_program held wanted) held"

definition unknown_route :: wanted_route where
  "unknown_route = \<lparr>cpu = True, wr_drop = True, wr_hops = []\<rparr>"

text \<open>What syncd reports to be installed, as a mirror.\<close>

definition dump_fib :: "string list \<Rightarrow> (string \<times> string) list \<Rightarrow> prog" where
  "dump_fib routes neighbors =
     \<lparr>pr_routes = bt_collect (map (\<lambda>prefix. (prefix, unknown_route)) routes),
      pr_neighbors = bt_collect (map (\<lambda>k. (k, [])) neighbors)\<rparr>"

section \<open>The engine\<close>

record rib =
  ri_routes :: "kernel_route list"
  ri_neighbors :: "kernel_neighbor list"
  l3_interfaces :: "string list"
  first_seen :: "(string, instant) btree"
  have_kernel :: bool
  generation :: u64

definition spawn_rib :: rib where
  "spawn_rib = \<lparr>ri_routes = [], ri_neighbors = [], l3_interfaces = [], first_seen = [], have_kernel = False, generation = 0\<rparr>"

definition rib_bump :: "rib \<Rightarrow> rib" where
  "rib_bump e = e\<lparr>generation := generation e + 1\<rparr>"

definition ingest_kernel :: "kernel_route list \<Rightarrow> kernel_neighbor list \<Rightarrow> instant \<Rightarrow> rib \<Rightarrow> rib" where
  "ingest_kernel rs ns now e =
     rib_bump (e\<lparr>first_seen := fold (\<lambda>r. bt_or_insert (kr_prefix r) now) rs
                (bt_retain (\<lambda>prefix _. prefix \<in> kr_prefix ` set rs) (first_seen e)),
             ri_routes := rs, ri_neighbors := ns, have_kernel := True\<rparr>)"

definition set_l3_interfaces :: "string list \<Rightarrow> rib \<Rightarrow> rib" where
  "set_l3_interfaces l3 e = (if l3_interfaces e = l3 then e else rib_bump (e\<lparr>l3_interfaces := l3\<rparr>))"

definition wanted :: "rib \<Rightarrow> prog" where
  "wanted e = derive_program (ri_routes e) (ri_neighbors e) (l3_interfaces e)"

text \<open>
  A turn of the pusher: a change of the engine, or the verification timer with the outcome of the dump.
\<close>

datatype push_input = Changed | Verify "prog option"

definition push_fib :: "rib \<Rightarrow> (fib_op \<Rightarrow> bool) \<Rightarrow> push_input \<Rightarrow> prog \<Rightarrow> prog" where
  "push_fib e ok inp held =
     (case inp of
        Changed \<Rightarrow> if have_kernel e then push_round ok held (wanted e) else held
      | Verify None \<Rightarrow> held
      | Verify (Some anchored) \<Rightarrow>
          if have_kernel e then push_round ok anchored (wanted e) else held)"

section \<open>Views\<close>

record hop_view =
  hv_via :: string
  hv_interface :: string
  hv_resolved :: bool

record route_view =
  rv_prefix :: string
  rv_protocol :: string
  rv_distance :: u32
  rv_metric :: u32
  rv_uptime_secs :: nat
  rv_hops :: "hop_view list"
  rv_fib :: string
  rv_interface :: "string option"

record neighbor_view =
  nv_ip :: string
  nv_mac :: string
  nv_interface :: string
  nv_permanent :: bool
  nv_age_secs :: "u64 option"

definition is_connected :: "kernel_route \<Rightarrow> bool" where
  "is_connected r \<longleftrightarrow> \<not> blackhole r \<and> list_all (\<lambda>hop. kh_via hop = None) (kr_hops r)"

definition route_source :: "kernel_route \<Rightarrow> string \<times> u32 \<times> u32" where
  "route_source r =
     (if is_connected r then (''connected'', 0, 0)
      else if kr_protocol r = ''static'' \<or> kr_protocol r = ''boot'' then
        (''static'', if kr_metric r = 0 \<or> kr_metric r = 1024 \<and> CHR '':'' \<in> set (kr_prefix r) then 1 else kr_metric r, 0)
      else if kr_protocol r = ''ospf'' then (''ospf'', 110, kr_metric r)
      else if kr_protocol r = ''bgp'' then (''bgp'', 200, kr_metric r)
      else (''kernel'', 0, kr_metric r))"

definition route_interface :: "kernel_route \<Rightarrow> string option" where
  "route_interface r = (if is_connected r then (case kr_hops r of [] \<Rightarrow> None | hop # _ \<Rightarrow> kh_dev hop) else None)"

definition route_fib :: "kernel_route \<Rightarrow> prog \<Rightarrow> string list \<Rightarrow> string" where
  "route_fib r w l3 =
     (if is_connected r \<and> (case route_interface r of None \<Rightarrow> False | Some i \<Rightarrow> i \<notin> set l3) then ''kernel''
      else if blackhole r then ''drop''
      else if is_connected r then ''connected''
      else case bt_get (pr_routes w) (kr_prefix r) of
        Some x \<Rightarrow> if cpu x then ''punt'' else ''programmed''
      | None \<Rightarrow> ''kernel'')"

definition view_hop :: "prog \<Rightarrow> kernel_hop \<Rightarrow> hop_view option" where
  "view_hop w hop =
     (case kh_via hop of
        None \<Rightarrow> None
      | Some via \<Rightarrow>
          let dev = (case kh_dev hop of None \<Rightarrow> [] | Some d \<Rightarrow> d)
          in Some \<lparr>hv_via = via, hv_interface = dev, hv_resolved = bt_contains (pr_neighbors w) (dev, via)\<rparr>)"

definition view_route :: "prog \<Rightarrow> string list \<Rightarrow> (string, instant) btree \<Rightarrow> instant \<Rightarrow> kernel_route \<Rightarrow> route_view option" where
  "view_route w l3 seen now r =
     (if skip_prefix (kr_prefix r) then None
      else case route_source r of (protocol, distance, metric) \<Rightarrow>
        Some \<lparr>rv_prefix = kr_prefix r, rv_protocol = protocol, rv_distance = distance, rv_metric = metric,
              rv_uptime_secs = (case bt_get seen (kr_prefix r) of None \<Rightarrow> 0 | Some t \<Rightarrow> as_secs (since now t)),
              rv_hops = List.map_filter (view_hop w) (kr_hops r), rv_fib = route_fib r w l3,
              rv_interface = route_interface r\<rparr>)"

definition prefix_key :: "string \<Rightarrow> ip_addr option \<times> nat" where
  "prefix_key prefix =
     (case split_once (CHR ''/'') prefix of
        Some (addr, len) \<Rightarrow> (parse_ip addr, case parse_uint 256 len of None \<Rightarrow> 255 | Some n \<Rightarrow> n)
      | None \<Rightarrow> (None, 255))"

definition rib_snapshot :: "rib \<Rightarrow> bool \<Rightarrow> instant \<Rightarrow> route_view list" where
  "rib_snapshot e v6 now =
     sort_key (\<lambda>view. prefix_key (rv_prefix view))
       (List.map_filter (view_route (wanted e) (l3_interfaces e) (first_seen e) now)
         (filter (\<lambda>r. (CHR '':'' \<in> set (kr_prefix r)) = v6) (ri_routes e)))"

definition starts_with :: "string \<Rightarrow> string \<Rightarrow> bool" where
  "starts_with s p \<longleftrightarrow> take (length p) s = p"

definition rib_neighbors :: "rib \<Rightarrow> bool \<Rightarrow> neighbor_view list" where
  "rib_neighbors e v6 =
     sort_key (\<lambda>view. parse_ip (nv_ip view))
       (map (\<lambda>n. \<lparr>nv_ip = kn_ip n, nv_mac = (case kn_mac n of None \<Rightarrow> [] | Some m \<Rightarrow> m), nv_interface = kn_dev n,
                   nv_permanent = permanent n, nv_age_secs = age_secs n\<rparr>)
         (filter (\<lambda>n. (CHR '':'' \<in> set (kn_ip n)) = v6 \<and> \<not> starts_with (kn_ip n) ''fe80'' \<and> \<not> starts_with (kn_ip n) ''169.254.'')
           (ri_neighbors e)))"

section \<open>A small network\<close>

definition demo_neighbors :: "kernel_neighbor list" where
  "demo_neighbors = [\<lparr>kn_ip = ''10.0.0.1'', kn_dev = ''lan'', kn_mac = Some ''aa'', permanent = False, reachable = True,
     stale = False, age_secs = None\<rparr>]"

definition demo_route :: "u32 \<Rightarrow> string \<Rightarrow> kernel_route" where
  "demo_route metric via = \<lparr>kr_prefix = ''10.1.0.0/16'', kr_protocol = ''static'', kr_metric = metric, blackhole = False,
     kr_hops = [\<lparr>kh_via = Some via, kh_dev = Some ''lan''\<rparr>]\<rparr>"

definition demo_fib :: prog where
  "demo_fib = \<lparr>pr_routes = [(''192.0.2.0/24'', \<lparr>cpu = False, wr_drop = False, wr_hops = [(''lan'', ''10.0.0.9'')]\<rparr>)],
     pr_neighbors = [((''lan'', ''10.0.0.9''), ''bb'')]\<rparr>"

lemma demo_skip: "\<not> skip_prefix ''10.1.0.0/16''"
  by (simp add: skip_prefix_def ip_eval text_eval octets_def)

section \<open>Rounds of the pusher\<close>

definition prog_wf :: "prog \<Rightarrow> bool" where
  "prog_wf p \<longleftrightarrow> bt_wf (pr_routes p) \<and> bt_wf (pr_neighbors p)"

definition apply_ops :: "(fib_op \<Rightarrow> bool) \<Rightarrow> fib_op list \<Rightarrow> prog \<Rightarrow> prog" where
  "apply_ops ok ops p = fold (\<lambda>op m. if ok op then apply_op op m else m) ops p"

definition neighbor_op :: "(string \<times> string) \<times> string \<Rightarrow> fib_op" where
  "neighbor_op x = EnsureNeighbor (fst (fst x)) (snd (fst x)) (snd x)"

definition remove_op :: "string \<times> string \<Rightarrow> fib_op" where
  "remove_op k = RemoveNeighbor (fst k) (snd k)"

definition route_op :: "string \<times> wanted_route \<Rightarrow> fib_op" where
  "route_op x = EnsureRoute (fst x) (snd x)"

lemmas op_defs = neighbor_op_def remove_op_def route_op_def

lemma diff_program_parts:
  "diff_program cur w =
     map neighbor_op (differs (pr_neighbors cur) (pr_neighbors w)) @ map route_op (differs (pr_routes cur) (pr_routes w))
     @ map RemoveRoute (unwanted (pr_routes cur) (pr_routes w)) @ map remove_op (unwanted (pr_neighbors cur) (pr_neighbors w))"
  by (simp add: diff_program_def differs_def unwanted_def op_defs [abs_def] case_prod_beta')

lemma apply_ops_append: "apply_ops ok (xs @ ys) p = apply_ops ok ys (apply_ops ok xs p)"
  by (simp add: apply_ops_def)

lemma apply_neighbor_ops:
  "apply_ops ok (map neighbor_op xs) p = p\<lparr>pr_neighbors := ins_all (\<lambda>k v. ok (neighbor_op (k, v))) xs (pr_neighbors p)\<rparr>"
  by (induction xs arbitrary: p) (simp_all add: apply_ops_def ins_all_def neighbor_op_def split_beta)

lemma apply_route_ops:
  "apply_ops ok (map route_op xs) p = p\<lparr>pr_routes := ins_all (\<lambda>k v. ok (route_op (k, v))) xs (pr_routes p)\<rparr>"
  by (induction xs arbitrary: p) (simp_all add: apply_ops_def ins_all_def route_op_def split_beta)

lemma apply_remove_routes:
  "apply_ops ok (map RemoveRoute ks) p = p\<lparr>pr_routes := del_all (\<lambda>k. ok (RemoveRoute k)) ks (pr_routes p)\<rparr>"
  by (induction ks arbitrary: p) (simp_all add: apply_ops_def del_all_def)

lemma apply_remove_neighbors:
  "apply_ops ok (map remove_op ks) p = p\<lparr>pr_neighbors := del_all (\<lambda>k. ok (remove_op k)) ks (pr_neighbors p)\<rparr>"
  by (induction ks arbitrary: p) (simp_all add: apply_ops_def del_all_def remove_op_def)

lemma apply_diff:
  "pr_neighbors (apply_ops ok (diff_program cur w) p) =
     del_all (\<lambda>k. ok (remove_op k)) (unwanted (pr_neighbors cur) (pr_neighbors w))
       (ins_all (\<lambda>k v. ok (neighbor_op (k, v))) (differs (pr_neighbors cur) (pr_neighbors w)) (pr_neighbors p))"
  "pr_routes (apply_ops ok (diff_program cur w) p) =
     del_all (\<lambda>k. ok (RemoveRoute k)) (unwanted (pr_routes cur) (pr_routes w))
       (ins_all (\<lambda>k v. ok (route_op (k, v))) (differs (pr_routes cur) (pr_routes w)) (pr_routes p))"
  by (simp_all add: diff_program_parts apply_ops_append apply_neighbor_ops apply_route_ops apply_remove_routes apply_remove_neighbors)

lemma push_round_apply: "push_round ok held w = apply_ops ok (diff_program held w) held"
  by (simp add: push_round_def apply_ops_def)

text \<open>What a round leaves to be pushed.\<close>

lemma left_to_push:
  assumes "prog_wf held" and "prog_wf w"
  shows "diff_program (push_round ok held w) w = filter (\<lambda>op. \<not> ok op) (diff_program held w)"
proof -
  let ?p = "apply_ops ok (diff_program held w) held"
  have "diff_program (push_round ok held w) w =
      map neighbor_op (filter (\<lambda>(k, v). \<not> ok (neighbor_op (k, v))) (differs (pr_neighbors held) (pr_neighbors w)))
      @ map route_op (filter (\<lambda>(k, v). \<not> ok (route_op (k, v))) (differs (pr_routes held) (pr_routes w)))
      @ map RemoveRoute (filter (\<lambda>k. \<not> ok (RemoveRoute k)) (unwanted (pr_routes held) (pr_routes w)))
      @ map remove_op (filter (\<lambda>k. \<not> ok (remove_op k)) (unwanted (pr_neighbors held) (pr_neighbors w)))"
    using assms unfolding push_round_apply diff_program_parts [of ?p w] apply_diff
    by (simp add: differs_again unwanted_again prog_wf_def)
  then show ?thesis
    by (simp add: diff_program_parts [of held] filter_map comp_def case_prod_beta')
qed

definition anchors :: "prog \<Rightarrow> prog \<Rightarrow> prog \<Rightarrow> bool" where
  "anchors cur fib w \<longleftrightarrow> anchored_map (pr_routes cur) (pr_routes fib) (pr_routes w)
     \<and> anchored_map (pr_neighbors cur) (pr_neighbors fib) (pr_neighbors w)"

lemma anchored_round:
  assumes "anchors cur fib w" and "prog_wf fib" and "prog_wf w"
  shows "apply_ops (\<lambda>_. True) (diff_program cur w) fib = w"
  using assms by (intro prog.equality) (simp_all add: apply_diff anchors_def prog_wf_def anchored_map_converges)

section \<open>The derived program\<close>

definition closed :: "prog \<Rightarrow> bool" where
  "closed p \<longleftrightarrow> (\<forall>k r. bt_get (pr_routes p) k = Some r \<longrightarrow> list_all (bt_contains (pr_neighbors p)) (wr_hops r))"

lemma wf_derive_neighbors: "bt_wf (derive_neighbors ns l3)"
  unfolding derive_neighbors_def by (rule fold_keeps) (auto split: option.split)

lemma derive_neighbors_get:
  assumes "bt_get (derive_neighbors ns l3) (dev, ip) = Some mac"
  shows "\<exists>n \<in> set ns. kn_dev n = dev \<and> kn_ip n = ip \<and> kn_mac n = Some mac \<and> dev \<in> set l3 \<and> (reachable n \<or> permanent n)"
proof -
  let ?P = "\<lambda>m. \<forall>dev ip mac. bt_get m (dev, ip) = Some mac \<longrightarrow>
    (\<exists>n \<in> set ns. kn_dev n = dev \<and> kn_ip n = ip \<and> kn_mac n = Some mac \<and> dev \<in> set l3 \<and> (reachable n \<or> permanent n))"
  have "?P (derive_neighbors ns l3)"
    unfolding derive_neighbors_def by (rule fold_keeps) (auto simp: bt_simps split: option.splits if_splits)
  with assms show ?thesis by blast
qed

lemma wf_derive: "prog_wf (derive_program rs ns l3)"
proof -
  have "bt_wf (fold (\<lambda>r m. case wanted_of N l3 r of None \<Rightarrow> m | Some w \<Rightarrow> bt_insert (kr_prefix r) w m) rs [])" for N
    by (rule fold_keeps) (auto split: option.split)
  then show ?thesis by (simp add: prog_wf_def derive_program_def Let_def wf_derive_neighbors)
qed

lemma derive_route:
  assumes "bt_get (pr_routes (derive_program rs ns l3)) prefix = Some w"
  shows "\<exists>r \<in> set rs. kr_prefix r = prefix \<and> wanted_of (derive_neighbors ns l3) l3 r = Some w"
proof -
  let ?N = "derive_neighbors ns l3"
  let ?P = "\<lambda>m. \<forall>k w. bt_get m k = Some w \<longrightarrow> (\<exists>r \<in> set rs. kr_prefix r = k \<and> wanted_of ?N l3 r = Some w)"
  have "?P (fold (\<lambda>r m. case wanted_of ?N l3 r of None \<Rightarrow> m | Some w \<Rightarrow> bt_insert (kr_prefix r) w m) rs [])"
    by (rule fold_keeps) (auto simp: bt_simps split: option.splits if_splits)
  with assms show ?thesis by (simp add: derive_program_def Let_def)
qed

lemma wanted_of_shape:
  assumes "wanted_of N l3 r = Some w"
  shows "list_all (bt_contains N) (wr_hops w)" and "\<not> (cpu w \<and> wr_drop w)" and "wr_drop w = blackhole r"
    and "cpu w \<longleftrightarrow> \<not> wr_drop w \<and> wr_hops w = []" and "\<not> skip_prefix (kr_prefix r)"
  using assms by (auto simp: wanted_of_def Let_def list_all_iff split: if_splits)


lemma demo_wanted:
  "wanted_of (derive_neighbors demo_neighbors [''lan'']) [''lan''] (demo_route m ''10.0.0.1'') =
     Some \<lparr>cpu = False, wr_drop = False, wr_hops = [(''lan'', ''10.0.0.1'')]\<rparr>"
  by (simp add: wanted_of_def demo_skip demo_route_def gateway_hops_def List.map_filter_def derive_neighbors_def
      demo_neighbors_def bt_contains_def)

lemma demo_wf: "prog_wf demo_fib" "closed demo_fib" "list_all (\<lambda>n. kn_mac n \<noteq> Some []) demo_neighbors"
  by (auto simp: prog_wf_def bt_wf_def demo_fib_def closed_def bt_contains_def demo_neighbors_def)

section \<open>Re-anchoring\<close>

lemma anchored_dump:
  assumes "\<And>k. bt_get w k \<noteq> Some c"
  shows "anchored_map (bt_collect (map (\<lambda>k. (k, c)) (bt_keys fib))) fib w"
  unfolding anchored_map_def bt_contains_def get_collect_const
  using assms bt_contains_iff [of fib] by (auto simp: bt_contains_def)

definition dump_of :: "prog \<Rightarrow> prog" where
  "dump_of fib = dump_fib (bt_keys (pr_routes fib)) (bt_keys (pr_neighbors fib))"

lemma wf_dump: "prog_wf (dump_of fib)"
  by (simp add: prog_wf_def dump_of_def dump_fib_def)

lemma sentinels:
  "bt_get (pr_routes (derive_program rs ns l3)) k \<noteq> Some unknown_route"
  "list_all (\<lambda>n. kn_mac n \<noteq> Some []) ns \<Longrightarrow> bt_get (pr_neighbors (derive_program rs ns l3)) k' \<noteq> Some []"
  using derive_route [of rs ns l3 k] wanted_of_shape(2) apply (fastforce simp: unknown_route_def)
  using derive_neighbors_get [of ns l3 "fst k'" "snd k'" "[]"] by (auto simp: derive_program_def Let_def list_all_iff)

lemma dump_anchors:
  assumes "list_all (\<lambda>n. kn_mac n \<noteq> Some []) ns"
  shows "anchors (dump_of fib) fib (derive_program rs ns l3)"
  by (simp only: anchors_def dump_of_def dump_fib_def prog.simps anchored_dump sentinels assms simp_thms not_False_eq_True)

text \<open>Nothing that is wanted is in a dump with its value.\<close>

lemma dump_differs:
  assumes "list_all (\<lambda>n. kn_mac n \<noteq> Some []) ns"
  shows "filter (\<lambda>(k, v). bt_get (pr_routes (dump_fib rks nks)) k \<noteq> Some v) (pr_routes (derive_program rs ns l3)) = pr_routes (derive_program rs ns l3)"
    and "filter (\<lambda>(k, v). bt_get (pr_neighbors (dump_fib rks nks)) k \<noteq> Some v) (pr_neighbors (derive_program rs ns l3)) = pr_neighbors (derive_program rs ns l3)"
proof -
  have wf: "bt_wf (pr_routes (derive_program rs ns l3))" "bt_wf (pr_neighbors (derive_program rs ns l3))"
    using wf_derive [of rs ns l3] by (simp_all add: prog_wf_def)
  have "bt_get (pr_routes (dump_fib rks nks)) k \<noteq> Some v" if "(k, v) \<in> set (pr_routes (derive_program rs ns l3))" for k v
  proof -
    from that have "bt_get (pr_routes (derive_program rs ns l3)) k = Some v" using bt_get_in_set [OF wf(1)] by blast
    with sentinels(1) [of rs ns l3 k] show ?thesis by (auto simp: dump_fib_def get_collect_const)
  qed
  then show "filter (\<lambda>(k, v). bt_get (pr_routes (dump_fib rks nks)) k \<noteq> Some v) (pr_routes (derive_program rs ns l3)) = pr_routes (derive_program rs ns l3)"
    by (simp add: filter_id_conv case_prod_beta)
  have "bt_get (pr_neighbors (dump_fib rks nks)) k \<noteq> Some v" if "(k, v) \<in> set (pr_neighbors (derive_program rs ns l3))" for k v
  proof -
    from that have "bt_get (pr_neighbors (derive_program rs ns l3)) k = Some v" using bt_get_in_set [OF wf(2)] by blast
    with sentinels(2) [OF assms, of rs l3 k] show ?thesis by (auto simp: dump_fib_def get_collect_const)
  qed
  then show "filter (\<lambda>(k, v). bt_get (pr_neighbors (dump_fib rks nks)) k \<noteq> Some v) (pr_neighbors (derive_program rs ns l3)) = pr_neighbors (derive_program rs ns l3)"
    by (simp add: filter_id_conv case_prod_beta)
qed

text \<open>
  C29. What a turn of the pusher leaves for the next one. After a round for a wanted program, in which any operation may
  have failed, the next turn that a change of the engine starts for the same program pushes exactly what failed, in the
  same order: nothing that succeeded is repeated, and no failure is forgotten or blocks the rest. A turn of the
  verification timer, which first re-anchors the mirror on the dump, ensures every wanted neighbour and every wanted
  route again, whatever succeeded before, and removes exactly the entries of the dump that are not wanted.
\<close>

theorem rib_failed_ops_retried:
  assumes "prog_wf held" and "list_all (\<lambda>n. kn_mac n \<noteq> Some []) ns" and "w = derive_program rs ns l3"
  shows "diff_program (push_round ok held w) w = filter (\<lambda>op. \<not> ok op) (diff_program held w)
    \<and> diff_program (dump_fib rks nks) w =
        map (\<lambda>((interface, ip), mac). EnsureNeighbor interface ip mac) (pr_neighbors w)
        @ map (\<lambda>(prefix, route). EnsureRoute prefix route) (pr_routes w)
        @ map RemoveRoute (filter (\<lambda>prefix. \<not> bt_contains (pr_routes w) prefix) (bt_keys (pr_routes (dump_fib rks nks))))
        @ map (\<lambda>(interface, ip). RemoveNeighbor interface ip)
            (filter (\<lambda>k. \<not> bt_contains (pr_neighbors w) k) (bt_keys (pr_neighbors (dump_fib rks nks))))"
  using left_to_push [OF assms(1) wf_derive] dump_differs [OF assms(2)] unfolding assms(3)
  by (simp add: diff_program_def [of "dump_fib rks nks"])

theorem rib_failed_ops_retried_witness:
  "let w = derive_program [demo_route 1 ''10.0.0.1''] demo_neighbors [''lan''];
       ok = (\<lambda>op. op \<noteq> RemoveRoute ''192.0.2.0/24'') in
   diff_program (push_round ok demo_fib w) w = filter (\<lambda>op. \<not> ok op) (diff_program demo_fib w)
   \<and> RemoveRoute ''192.0.2.0/24'' \<in> set (diff_program demo_fib w)"
proof -
  let ?w = "derive_program [demo_route 1 ''10.0.0.1''] demo_neighbors [''lan'']"
  have "\<not> bt_contains (pr_routes ?w) ''192.0.2.0/24''"
    by (simp add: derive_program_def demo_wanted bt_contains_def) (simp add: demo_route_def)
  then have "RemoveRoute ''192.0.2.0/24'' \<in> set (diff_program demo_fib ?w)" by (simp add: diff_program_def demo_fib_def)
  with rib_failed_ops_retried [OF demo_wf(1,3) refl, of "\<lambda>op. op \<noteq> RemoveRoute ''192.0.2.0/24''" "[demo_route 1 ''10.0.0.1'']" "[''lan'']" "[]" "[]"]
  show ?thesis unfolding Let_def by blast
qed

text \<open>
  C5. Whatever is installed in syncd, a round anchored on its dump pushes operations that turn it into
  exactly the program the kernel snapshot asks for, and leaves the pusher's mirror equal to it, when every
  operation succeeds; a restart on either side needs no other protocol.
\<close>

theorem rib_resync_converges:
  assumes "prog_wf fib" and "list_all (\<lambda>n. kn_mac n \<noteq> Some []) ns"
  shows "apply_ops (\<lambda>_. True) (diff_program (dump_of fib) (derive_program rs ns l3)) fib = derive_program rs ns l3
    \<and> push_round (\<lambda>_. True) (dump_of fib) (derive_program rs ns l3) = derive_program rs ns l3"
proof -
  have "anchors (dump_of fib) (dump_of fib) (derive_program rs ns l3)"
    by (simp add: anchors_def anchored_map_def)
  with assms show ?thesis
    by (simp add: push_round_apply anchored_round dump_anchors wf_derive wf_dump)
qed

theorem rib_resync_converges_witness:
  "apply_ops (\<lambda>_. True) (diff_program (dump_of demo_fib) (derive_program [demo_route 1 ''10.0.0.1''] demo_neighbors [''lan''])) demo_fib
     = derive_program [demo_route 1 ''10.0.0.1''] demo_neighbors [''lan'']"
  using rib_resync_converges [OF demo_wf(1,3)] by blast

section \<open>No route without its neighbours\<close>

lemma apply_ops_Nil [simp]: "apply_ops ok [] p = p"
  by (simp add: apply_ops_def)




















text \<open>
  Every programmed route stems from a kernel route for its prefix that is neither link-local nor
  multicast; it drops exactly when that route is a blackhole, punts exactly when none of its next
  hops is resolved, and every next hop it has is a gateway of that route out of a switch interface with a neighbour
  the kernel reports reachable or permanent.
\<close>

lemma rib_program_correct:
  assumes "bt_get (pr_routes (derive_program rs ns l3)) prefix = Some w"
  shows "\<exists>r \<in> set rs. kr_prefix r = prefix \<and> \<not> skip_prefix prefix \<and> wr_drop w = blackhole r
    \<and> (cpu w \<longleftrightarrow> \<not> blackhole r \<and> wr_hops w = [])
    \<and> (\<forall>dev ip. (dev, ip) \<in> set (wr_hops w) \<longrightarrow>
         \<lparr>kh_via = Some ip, kh_dev = Some dev\<rparr> \<in> set (kr_hops r) \<and> dev \<in> set l3
         \<and> (\<exists>n \<in> set ns. kn_dev n = dev \<and> kn_ip n = ip \<and> kn_mac n \<noteq> None \<and> (reachable n \<or> permanent n)))"
proof -
  from derive_route [OF assms] obtain r where r: "r \<in> set rs" "kr_prefix r = prefix"
      "wanted_of (derive_neighbors ns l3) l3 r = Some w" by blast
  have hop: "\<lparr>kh_via = Some ip, kh_dev = Some dev\<rparr> \<in> set (kr_hops r)"
    if "(dev, ip) \<in> set (wr_hops w)" for dev ip
  proof -
    from that r(3) have "(ip, dev) \<in> set (gateway_hops r)"
      by (auto simp: wanted_of_def Let_def split: if_splits)
    then obtain h where "h \<in> set (kr_hops r)" "kh_via h = Some ip" "kh_dev h = Some dev"
      by (auto simp: gateway_hops_def List.map_filter_def split: option.splits)
    then show ?thesis by (metis kernel_hop.surjective old.unit.exhaust)
  qed
  have neighbor: "dev \<in> set l3 \<and> (\<exists>n \<in> set ns. kn_dev n = dev \<and> kn_ip n = ip \<and> kn_mac n \<noteq> None \<and> (reachable n \<or> permanent n))"
    if "(dev, ip) \<in> set (wr_hops w)" for dev ip
  proof -
    from that wanted_of_shape(1) [OF r(3)] obtain mac where "bt_get (derive_neighbors ns l3) (dev, ip) = Some mac"
      by (force simp: list_all_iff bt_contains_def)
    from derive_neighbors_get [OF this] show ?thesis by blast
  qed
  show ?thesis
    using r wanted_of_shape(3-5) [OF r(3)] hop neighbor by (intro bexI [of _ r]) auto
qed

lemma rib_program_correct_example:
  "\<not> skip_prefix ''10.1.0.0/16'' \<and> \<not> blackhole (demo_route 1 ''10.0.0.1'')
     \<and> \<lparr>kh_via = Some ''10.0.0.1'', kh_dev = Some ''lan''\<rparr> \<in> set (kr_hops (demo_route 1 ''10.0.0.1''))"
proof -
  have "bt_get (pr_routes (derive_program [demo_route 1 ''10.0.0.1''] demo_neighbors [''lan''])) ''10.1.0.0/16''
      = Some \<lparr>cpu = False, wr_drop = False, wr_hops = [(''lan'', ''10.0.0.1'')]\<rparr>"
    by (simp add: derive_program_def demo_wanted) (simp add: demo_route_def)
  from rib_program_correct [OF this] show ?thesis by auto
qed

text \<open>
  C32. When the snapshot has several routes for one prefix, the last of them that concerns the switch is the one
  programmed, whatever routes for the prefix follow that do not concern it: the metric is never looked at, so a
  later, worse route replaces a better one.
\<close>

theorem rib_last_route_wins:
  assumes "wanted_of (derive_neighbors ns l3) l3 r = Some w"
    and "list_all (\<lambda>r'. kr_prefix r' = kr_prefix r \<longrightarrow> wanted_of (derive_neighbors ns l3) l3 r' = None) later"
  shows "bt_get (pr_routes (derive_program (earlier @ r # later) ns l3)) (kr_prefix r) = Some w"
proof -
  let ?add = "\<lambda>r m. case wanted_of (derive_neighbors ns l3) l3 r of None \<Rightarrow> m | Some w \<Rightarrow> bt_insert (kr_prefix r) w m"
  have "bt_get (fold ?add later m) (kr_prefix r) = bt_get m (kr_prefix r)" for m
    using assms(2) by (induction later arbitrary: m) (auto simp: bt_simps split: option.split)
  with assms(1) show ?thesis by (simp add: derive_program_def Let_def bt_simps)
qed

theorem rib_last_route_wins_witness:
  "bt_get (pr_routes (derive_program [demo_route 10 ''10.0.0.2'', demo_route 200 ''10.0.0.1''] demo_neighbors [''lan''])) ''10.1.0.0/16''
     = Some \<lparr>cpu = False, wr_drop = False, wr_hops = [(''lan'', ''10.0.0.1'')]\<rparr>"
  using rib_last_route_wins [OF demo_wanted, of 200 "[]" "[demo_route 10 ''10.0.0.2'']"] by (simp add: demo_route_def)

end
