(* ===== verification/Net_Frame.thy ===== *)
theory Net_Frame
  imports Hemlock_Prelude "HOL-Library.Monad_Syntax"
begin

text \<open>
  What the frame handlers of the orchestrator share: reads of a byte or a slice, which panic out of range
  (here \<open>None\<close>), the reads by \<open>get\<close>, which do not, and the checksum of RFC 1071 with its
  arithmetic.
\<close>

section \<open>Reading frames\<close>

definition idx :: "bytes \<Rightarrow> nat \<Rightarrow> u8 option" where
  "idx bs i = (if i < length bs then Some (bs ! i) else None)"

definition slice :: "bytes \<Rightarrow> nat \<Rightarrow> nat \<Rightarrow> bytes option" where
  "slice bs a b = (if a \<le> b \<and> b \<le> length bs then Some (take (b - a) (drop a bs)) else None)"

definition slice_from :: "bytes \<Rightarrow> nat \<Rightarrow> bytes option" where
  "slice_from bs a = (if a \<le> length bs then Some (drop a bs) else None)"

definition be16_at :: "bytes \<Rightarrow> nat \<Rightarrow> nat option" where
  "be16_at bs a = do { hi \<leftarrow> idx bs a; lo \<leftarrow> idx bs (a + 1); Some (unat (from_be [hi, lo] :: u16)) }"

definition returns :: "'a option \<Rightarrow> bool" where
  "returns m \<longleftrightarrow> m \<noteq> None"

lemma returns_Some [intro!]: "returns (Some x)"
  by (simp add: returns_def)

lemma returns_bind [intro]: "returns m \<Longrightarrow> (\<And>x. m = Some x \<Longrightarrow> returns (f x)) \<Longrightarrow> returns (m \<bind> f)"
  by (auto simp: returns_def)

lemma returns_if [intro]: "(P \<Longrightarrow> returns a) \<Longrightarrow> (\<not> P \<Longrightarrow> returns b) \<Longrightarrow> returns (if P then a else b)"
  by simp

lemma returns_idx [simp]: "returns (idx bs i) \<longleftrightarrow> i < length bs"
  by (simp add: returns_def idx_def)

lemma returns_slice [simp]: "returns (slice bs a b) \<longleftrightarrow> a \<le> b \<and> b \<le> length bs"
  by (simp add: returns_def slice_def)

lemma returns_slice_from [simp]: "returns (slice_from bs a) \<longleftrightarrow> a \<le> length bs"
  by (simp add: returns_def slice_from_def)

lemma returns_be16_at: "a + 1 < length bs \<Longrightarrow> returns (be16_at bs a)"
  unfolding be16_at_def by (intro returns_bind returns_Some) simp_all

lemma slice_from_length: "slice_from bs a = Some x \<Longrightarrow> length x = length bs - a"
  by (auto simp: slice_from_def split: if_splits)

lemma idx_Some: "i < length bs \<Longrightarrow> idx bs i = Some (bs ! i)"
  by (simp add: idx_def)

section \<open>The checksum\<close>

text \<open>The checksum of RFC 1071; the chunks of the source are one sequence of bytes.\<close>

fun be16_sum :: "bytes \<Rightarrow> u32" where
  "be16_sum [] = 0"
| "be16_sum [high] = ucast (from_be [high, 0] :: u16)"
| "be16_sum (high # byte # bs) = ucast (from_be [high, byte] :: u16) + be16_sum bs"

lemma unat_u8_less: "unat (b :: u8) < 256"
proof -
  have "unat b < 2 ^ LENGTH(8)" by (rule unsigned_less)
  then show ?thesis by simp
qed

lemma unat_u32_less: "unat (s :: u32) < 4294967296"
proof -
  have "unat s < 2 ^ LENGTH(32)" by (rule unsigned_less)
  then show ?thesis by simp
qed

lemma unat_carry:
  fixes s :: u32
  shows "unat ((s AND 0xffff) + drop_bit 16 s) = unat s mod 65536 + unat s div 65536"
proof -
  have m: "(0xffff :: u32) = mask 16" by (simp add: mask_eq_exp_minus_1)
  have "unat (s AND 0xffff) = unat s mod 65536"
    unfolding m by (simp add: take_bit_eq_mod unat_mod flip: take_bit_eq_mask)
  moreover have "unat (drop_bit 16 s) = unat s div 65536"
    by (simp add: drop_bit_eq_div unat_div)
  moreover have "unat s mod 65536 + unat s div 65536 < 2 ^ 32"
    using unat_u32_less [of s] less_mult_imp_div_less [of "unat s" 65536 65536] mod_less_divisor [of 65536 "unat s"] by simp
  ultimately show ?thesis by (simp add: unat_word_ariths)
qed

lemma fold_carries_decreases:
  fixes s :: u32
  assumes "0xffff < s"
  shows "unat ((s AND 0xffff) + drop_bit 16 s) < unat s"
proof -
  have "65535 < unat s" using assms by (simp add: word_less_nat_alt)
  moreover from this have "0 < unat s div 65536" by (simp add: div_greater_zero_iff)
  ultimately have "unat s mod 65536 + unat s div 65536 < unat s"
    using div_mult_mod_eq [of "unat s" 65536] by linarith
  then show ?thesis by (simp add: unat_carry)
qed

lemma drop_bit_high: "drop_bit 16 (s :: u32) \<noteq> 0 \<longleftrightarrow> 0xffff < s"
proof -
  have "drop_bit 16 s = 0 \<longleftrightarrow> unat s div 65536 = 0" by (simp add: drop_bit_eq_div unat_div flip: unat_eq_zero)
  also have "\<dots> \<longleftrightarrow> \<not> 65535 < unat s" by (simp add: div_eq_0_iff) linarith
  finally show ?thesis by (simp add: word_less_nat_alt)
qed

function fold_carries :: "u32 \<Rightarrow> u32" where
  "fold_carries s = (if 0xffff < s then fold_carries ((s AND 0xffff) + drop_bit 16 s) else s)"
  by auto
termination
  by (relation "measure unat") (simp_all add: fold_carries_decreases)

declare fold_carries.simps [simp del]

definition checksum :: "bytes list \<Rightarrow> u16" where
  "checksum chunks = NOT (ucast (fold_carries (be16_sum (concat chunks))))"

definition with_checksum :: "nat \<Rightarrow> u16 \<Rightarrow> bytes \<Rightarrow> bytes" where
  "with_checksum at csum bs = take at bs @ to_be 2 csum @ drop (at + 2) bs"

lemma length_with_checksum: "at + 2 \<le> length bs \<Longrightarrow> length (with_checksum at csum bs) = length bs"
  by (simp add: with_checksum_def)

text \<open>The reference: the one's complement sum of the 16-bit words, taken from their sum as numbers.\<close>

fun word_total :: "bytes \<Rightarrow> nat" where
  "word_total [] = 0"
| "word_total [high] = 256 * unat high"
| "word_total (high # byte # bs) = 256 * unat high + unat byte + word_total bs"

definition ones_complement :: "nat \<Rightarrow> nat" where
  "ones_complement n = (if n = 0 then 0 else if n mod 65535 = 0 then 65535 else n mod 65535)"

lemma ones_complement_le: "ones_complement n \<le> 65535"
  by (simp add: ones_complement_def)

lemma ones_complement_small: "n \<le> 65535 \<Longrightarrow> ones_complement n = n"
  by (cases "n = 65535") (simp_all add: ones_complement_def)

lemma ones_complement_cong:
  assumes "n mod 65535 = m mod 65535" and "n = 0 \<longleftrightarrow> m = 0"
  shows "ones_complement n = ones_complement m"
  using assms by (simp add: ones_complement_def)

lemma ones_complement_carry: "ones_complement (n mod 65536 + n div 65536) = ones_complement n"
proof (rule ones_complement_cong)
  have n: "n = (n mod 65536 + n div 65536) + n div 65536 * 65535"
    using div_mult_mod_eq [of n 65536] by linarith
  show "(n mod 65536 + n div 65536) mod 65535 = n mod 65535"
    by (subst (3) n) (rule mod_mult_self1 [symmetric])
  show "n mod 65536 + n div 65536 = 0 \<longleftrightarrow> n = 0" using n by linarith
qed

lemma ones_complement_negation: "(n + (65535 - ones_complement n)) mod 65535 = 0"
proof (cases "n mod 65535 = 0")
  case True
  then have "n + (65535 - ones_complement n) = n \<or> n + (65535 - ones_complement n) = n + 65535"
    by (simp add: ones_complement_def)
  with True show ?thesis by auto
next
  case False
  then have "ones_complement n = n mod 65535" by (auto simp: ones_complement_def)
  moreover have "n + (65535 - n mod 65535) = (n div 65535 + 1) * 65535"
    using div_mult_mod_eq [of n 65535] mod_less_divisor [of 65535 n, OF zero_less_numeral] unfolding distrib_right by linarith
  ultimately show ?thesis by simp
qed

lemma fold_carries_reference: "unat (fold_carries s) = ones_complement (unat s)"
proof (induction s rule: fold_carries.induct)
  case (1 s)
  show ?case
  proof (cases "0xffff < s")
    case True
    with 1 show ?thesis by (simp add: fold_carries.simps [of s] unat_carry ones_complement_carry)
  next
    case False
    then show ?thesis by (simp add: fold_carries.simps [of s] word_less_nat_alt ones_complement_small)
  qed
qed

lemma unat_from_be_pair: "unat (from_be [high, byte] :: u16) = 256 * unat high + unat byte"
proof -
  have "unat high * 256 + unat byte < 65536" using unat_u8_less [of high] unat_u8_less [of byte] by linarith
  then show ?thesis
    by (simp add: from_be_def undigits_def unat_of_nat del: of_nat_add of_nat_mult of_nat_unat)
qed

lemma word_total_le: "word_total bs \<le> 65535 * ((length bs + 1) div 2)"
proof (induction bs rule: word_total.induct)
  case (2 high)
  show ?case using unat_u8_less [of high] by simp
next
  case (3 high byte bs)
  then show ?case using unat_u8_less [of high] unat_u8_less [of byte] by simp
qed simp

lemma unat_be16_sum: "length bs \<le> 131072 \<Longrightarrow> unat (be16_sum bs) = word_total bs"
proof (induction bs rule: be16_sum.induct)
  case (2 high)
  show ?case using unat_from_be_pair [of high 0] unat_u8_less [of high] by (simp add: unsigned_ucast_eq take_bit_nat_eq_self)
next
  case (3 high byte bs)
  have "65535 * ((length bs + 1) div 2) \<le> 65535 * 65535" using "3.prems" by simp
  then have "word_total bs \<le> 65535 * 65535" using word_total_le [of bs] by linarith
  then have "256 * unat high + unat byte + word_total bs < 2 ^ 32"
    using unat_u8_less [of high] unat_u8_less [of byte] by simp
  with 3 show ?case
    by (simp add: unat_word_ariths unsigned_ucast_eq take_bit_nat_eq_self unat_from_be_pair)
qed simp

lemma unat_not_u16: "unat (NOT w :: u16) = 65535 - unat w"
proof -
  have "unat w < 2 ^ LENGTH(16)" by (rule unsigned_less)
  moreover have "NOT w = - 1 - w" by (simp add: not_eq_complement)
  ultimately show ?thesis by (simp add: unat_sub_if_size word_size unsigned_minus_1_eq_mask mask_eq_exp_minus_1 word_order.extremum)
qed

lemma unat_checksum:
  assumes "length (concat chunks) \<le> 131072"
  shows "unat (checksum chunks) = 65535 - ones_complement (word_total (concat chunks))"
proof -
  let ?s = "fold_carries (be16_sum (concat chunks))"
  have "unat ?s = ones_complement (word_total (concat chunks))"
    by (simp add: fold_carries_reference unat_be16_sum [OF assms])
  moreover from this have "unat ?s < 65536" using ones_complement_le [of "word_total (concat chunks)"] by simp
  then have "unat (ucast ?s :: u16) = unat ?s" by (simp add: unsigned_ucast_eq take_bit_nat_eq_self)
  ultimately show ?thesis
    by (simp add: checksum_def unat_not_u16)
qed

lemma word_total_append: "even (length xs) \<Longrightarrow> word_total (xs @ ys) = word_total xs + word_total ys"
  by (induction xs rule: word_total.induct) simp_all

text \<open>A receiver that sums the words with the checksum in its place finds no error.\<close>

lemma checksum_verifies:
  assumes "even (length pre)" and "length pre + length post < 131071"
  shows "checksum [pre @ to_be 2 (checksum [pre @ [0, 0] @ post]) @ post] = 0"
proof -
  let ?c = "checksum [pre @ [0, 0] @ post]" and ?t = "word_total (pre @ [0, 0] @ post)"
  obtain h b where hb: "to_be 2 ?c = [h, b]" "from_be [h, b] = ?c" by (rule to_be_2_cases)
  have c: "256 * unat h + unat b = 65535 - ones_complement ?t"
    using unat_checksum [of "[pre @ [0, 0] @ post]"] assms(2) unat_from_be_pair [of h b] hb(2) by simp
  have "word_total (pre @ [h, b] @ post) = ?t + (65535 - ones_complement ?t)"
    using assms(1) c by (simp add: word_total_append)
  moreover have "(?t + (65535 - ones_complement ?t)) mod 65535 = 0"
    by (rule ones_complement_negation)
  ultimately have "ones_complement (word_total (pre @ [h, b] @ post)) = 65535"
    using ones_complement_le [of ?t] by (auto simp: ones_complement_def)
  with unat_checksum [of "[pre @ [h, b] @ post]"] assms(2) show ?thesis
    unfolding hb(1) by (simp add: unat_eq_zero)
qed

end
