(* ===== verification/Orch_Snoop.thy ===== *)
theory Orch_Snoop
  imports Common_Ip Map_Sync Net_Frame
begin

text \<open>
  The IGMP and MLD snooping engine (\<^verbatim>\<open>src/src/hemlock-orch/src/snoop.rs\<close>): the frame parsers
  and the query encoder, the per-VLAN membership, router and querier state, and the pass that expires
  it and pushes group and router updates. Reading a byte or a slice out of range panics in the source; here it is
  the value \<open>None\<close> of the parsers, so that their not panicking is a theorem. A turn of the task
  takes one instant for its messages and its pass.
\<close>

section \<open>Frames\<close>

datatype family = Igmp | Mld

datatype message = Report ip_addr u8 | Leave ip_addr | Query ip_addr

text \<open>What one group record of a version 3 (or MLDv2) report says.\<close>

definition record_messages :: "u8 \<Rightarrow> nat \<Rightarrow> ip_addr \<Rightarrow> u8 \<Rightarrow> message list" where
  "record_messages record_type sources group' version =
     (if (record_type = 1 \<or> record_type = 3) \<and> sources = 0 then [Leave group']
      else if 1 \<le> record_type \<and> record_type \<le> 6 then [Report group' version]
      else [])"

definition igmp_group_at :: "bytes \<Rightarrow> nat \<Rightarrow> ip_addr option" where
  "igmp_group_at igmp at = do { bs \<leftarrow> slice igmp at (at + 4); Some (V4 (from_be bs)) }"

fun igmp_records :: "bytes \<Rightarrow> nat \<Rightarrow> nat \<Rightarrow> message list option" where
  "igmp_records igmp 0 at = Some []"
| "igmp_records igmp (Suc n) at =
     (if length igmp < at + 8 then Some []
      else do {
        record_type \<leftarrow> idx igmp at;
        aux \<leftarrow> idx igmp (at + 1);
        sources \<leftarrow> be16_at igmp (at + 2);
        g \<leftarrow> igmp_group_at igmp (at + 4);
        rest \<leftarrow> igmp_records igmp n (at + 8 + sources * 4 + unat aux * 4);
        Some (record_messages record_type sources g 3 @ rest)
      })"

definition igmp_messages :: "ip_addr \<Rightarrow> bytes \<Rightarrow> message list option" where
  "igmp_messages source igmp = do {
     kind \<leftarrow> idx igmp 0;
     if kind = 0x11 then Some [Query source]
     else if kind = 0x12 then do { g \<leftarrow> igmp_group_at igmp 4; Some [Report g 1] }
     else if kind = 0x16 then do { g \<leftarrow> igmp_group_at igmp 4; Some [Report g 2] }
     else if kind = 0x17 then do { g \<leftarrow> igmp_group_at igmp 4; Some [Leave g] }
     else if kind = 0x22 then
       (if length igmp < 8 then Some []
        else do { count \<leftarrow> be16_at igmp 6; igmp_records igmp count 8 })
     else Some []
   }"

definition parse_igmp :: "bytes \<Rightarrow> message list option" where
  "parse_igmp frame =
     (if length frame < 14 + 20 + 8 then Some []
      else do {
        ethertype \<leftarrow> slice frame 12 14;
        if ethertype \<noteq> [0x08, 0x00] then Some []
        else do {
          ip \<leftarrow> slice_from frame 14;
          b0 \<leftarrow> idx ip 0;
          let ihl = unat (b0 AND 0x0f) * 4;
          if drop_bit 4 b0 \<noteq> 4 \<or> length ip < ihl + 8 then Some []
          else do {
            protocol \<leftarrow> idx ip 9;
            if protocol \<noteq> 2 then Some []
            else do {
              source \<leftarrow> slice ip 12 16;
              igmp \<leftarrow> slice_from ip ihl;
              igmp_messages (V4 (from_be source)) igmp
            }
          }
        }
      })"

definition mld_group_at :: "bytes \<Rightarrow> nat \<Rightarrow> ip_addr option" where
  "mld_group_at icmp at = do { bs \<leftarrow> slice icmp at (at + 16); Some (V6 (from_be bs)) }"

fun mld_records :: "bytes \<Rightarrow> nat \<Rightarrow> nat \<Rightarrow> message list option" where
  "mld_records icmp 0 at = Some []"
| "mld_records icmp (Suc n) at =
     (if length icmp < at + 20 then Some []
      else do {
        record_type \<leftarrow> idx icmp at;
        aux \<leftarrow> idx icmp (at + 1);
        sources \<leftarrow> be16_at icmp (at + 2);
        g \<leftarrow> mld_group_at icmp (at + 4);
        rest \<leftarrow> mld_records icmp n (at + 20 + sources * 16 + unat aux * 4);
        Some (record_messages record_type sources g 2 @ rest)
      })"

definition mld_messages :: "ip_addr \<Rightarrow> bytes \<Rightarrow> message list option" where
  "mld_messages source icmp = do {
     kind \<leftarrow> idx icmp 0;
     if kind = 130 then Some [Query source]
     else if kind = 131 \<and> 24 \<le> length icmp then do { g \<leftarrow> mld_group_at icmp 8; Some [Report g 1] }
     else if kind = 132 \<and> 24 \<le> length icmp then do { g \<leftarrow> mld_group_at icmp 8; Some [Leave g] }
     else if kind = 143 then
       (if length icmp < 8 then Some []
        else do { count \<leftarrow> be16_at icmp 6; mld_records icmp count 8 })
     else Some []
   }"

text \<open>The upper-layer protocol and its offset, past one hop-by-hop header.\<close>

definition mld_upper :: "bytes \<Rightarrow> (u8 \<times> nat) option option" where
  "mld_upper ip = do {
     next \<leftarrow> idx ip 6;
     if next = 0 then
       (if length ip < 40 + 8 then Some None
        else do { next' \<leftarrow> idx ip 40; len \<leftarrow> idx ip (40 + 1); Some (Some (next', 40 + (unat len + 1) * 8)) })
     else Some (Some (next, 40))
   }"

definition parse_mld :: "bytes \<Rightarrow> message list option" where
  "parse_mld frame =
     (if length frame < 14 + 40 + 8 then Some []
      else do {
        ethertype \<leftarrow> slice frame 12 14;
        if ethertype \<noteq> [0x86, 0xdd] then Some []
        else do {
          ip \<leftarrow> slice_from frame 14;
          b0 \<leftarrow> idx ip 0;
          if drop_bit 4 b0 \<noteq> 6 \<or> length ip < 40 then Some []
          else do {
            source \<leftarrow> slice ip 8 24;
            upper \<leftarrow> mld_upper ip;
            case upper of
              None \<Rightarrow> Some []
            | Some (next, at) \<Rightarrow>
                if next \<noteq> 58 \<or> length ip < at + 8 then Some []
                else do { icmp \<leftarrow> slice_from ip at; mld_messages (V6 (from_be source)) icmp }
          }
        }
      })"

fun parse_frame :: "family \<Rightarrow> bytes \<Rightarrow> message list option" where
  "parse_frame Igmp frame = parse_igmp frame"
| "parse_frame Mld frame = parse_mld frame"

definition igmp_query :: bytes where
  "igmp_query = (let igmp = [0x11, 100, 0, 0, 0, 0, 0, 0] in with_checksum 2 (checksum [igmp]) igmp)"

definition igmp_query_ip :: "32 word \<Rightarrow> bytes" where
  "igmp_query_ip source =
     (let ip = [0x45, 0xc0] @ to_be 2 (20 + of_nat (length igmp_query) :: u16) @ [0, 0, 0, 0] @ [1] @ [2] @ [0, 0]
               @ to_be 4 source @ [224, 0, 0, 1]
      in with_checksum 10 (checksum [ip]) ip)"

definition mld_dst :: "128 word" where
  "mld_dst = from_be ([0xff, 0x02] @ replicate 13 0 @ [1])"

definition mld_query :: "128 word \<Rightarrow> bytes" where
  "mld_query source =
     (let icmp = [130, 0, 0, 0, 0x27, 0x10, 0, 0] @ replicate 16 0
      in with_checksum 2
           (checksum [to_be 16 source, to_be 16 mld_dst, to_be 4 (of_nat (length icmp) :: u32), [0, 0, 0, 58], icmp]) icmp)"

definition mld_query_ip :: "128 word \<Rightarrow> bytes" where
  "mld_query_ip source =
     [0x60, 0, 0, 0] @ to_be 2 (of_nat (length (mld_query source)) :: u16) @ [58] @ [1] @ to_be 16 source @ to_be 16 mld_dst"

fun encode_general_query :: "family \<Rightarrow> mac \<Rightarrow> ip_addr \<Rightarrow> bytes" where
  "encode_general_query Igmp src_mac (V4 source) =
     [0x01, 0x00, 0x5e, 0x00, 0x00, 0x01] @ src_mac @ [0x08, 0x00] @ igmp_query_ip source @ igmp_query"
| "encode_general_query Mld src_mac (V6 source) =
     [0x33, 0x33, 0x00, 0x00, 0x00, 0x01] @ src_mac @ [0x86, 0xdd] @ mld_query_ip source @ mld_query source"
| "encode_general_query _ _ _ = []"

section \<open>State\<close>

record vlan_config =
  vc_disabled :: bool
  fast_leave :: bool
  querier :: bool
  querier_address :: "ip_addr option"
  static_mrouters :: "string list"

definition default_vlan_config :: vlan_config where
  "default_vlan_config =
     \<lparr>vc_disabled = False, fast_leave = False, querier = False, querier_address = None, static_mrouters = []\<rparr>"

record snoop_config =
  sno_disabled :: bool
  robustness :: u8
  sno_vlans :: "(u16, vlan_config) btree"
  query_interval :: duration
  last_member_interval :: duration

definition default_snoop_config :: snoop_config where
  "default_snoop_config =
     \<lparr>sno_disabled = False, robustness = 2, sno_vlans = [], query_interval = from_secs 125,
      last_member_interval = from_secs 2\<rparr>"

record group_update =
  gu_vlan :: u16
  gu_group :: ip_addr
  gu_ports :: "string list"
  gu_remove :: bool

record mrouter_update =
  mu_vlan :: u16
  mu_restrict :: bool
  mu_ports :: "string list"

record group_member =
  last_report :: instant
  gm_version :: u8
  pending_leave :: "instant option"

record vlan_state =
  groups :: "(ip_addr, (string, group_member) btree) btree"
  dyn_mrouters :: "(string, instant) btree"
  other_querier :: "(ip_addr \<times> instant) option"
  last_query_tx :: "instant option"
  pushed_groups :: "(ip_addr, string list) btree"
  pushed_mrouters :: "(bool \<times> string list) option"

definition new_vlan_state :: vlan_state where
  "new_vlan_state =
     \<lparr>groups = [], dyn_mrouters = [], other_querier = None, last_query_tx = None, pushed_groups = [], pushed_mrouters = None\<rparr>"

record snoop =
  sp_family :: family
  sp_config :: snoop_config
  vlan_ports :: "(u16, string list) btree"
  sp_vlans :: "(u16, vlan_state) btree"
  sp_system_mac :: mac

definition spawn_snoop :: "family \<Rightarrow> mac \<Rightarrow> snoop" where
  "spawn_snoop fam mac =
     \<lparr>sp_family = fam, sp_config = default_snoop_config, vlan_ports = [], sp_vlans = [], sp_system_mac = mac\<rparr>"

definition set_snoop_config :: "snoop_config \<Rightarrow> snoop \<Rightarrow> snoop" where
  "set_snoop_config c e = e\<lparr>sp_config := (if robustness c = 0 then c\<lparr>robustness := 2\<rparr> else c)\<rparr>"

definition set_vlan_ports :: "(u16, string list) btree \<Rightarrow> snoop \<Rightarrow> snoop" where
  "set_vlan_ports m e = e\<lparr>vlan_ports := m\<rparr>"

definition membership_hold :: "snoop \<Rightarrow> duration" where
  "membership_hold e = query_interval (sp_config e) * unat (robustness (sp_config e)) + from_secs 10"

definition querier_hold :: "snoop \<Rightarrow> duration" where
  "querier_hold e = query_interval (sp_config e) * 2 + from_secs 10"

definition vlan_config_of :: "snoop \<Rightarrow> u16 \<Rightarrow> vlan_config" where
  "vlan_config_of e vlan = (case bt_get (sno_vlans (sp_config e)) vlan of None \<Rightarrow> default_vlan_config | Some c \<Rightarrow> c)"

definition vlan_enabled :: "snoop \<Rightarrow> u16 \<Rightarrow> bool" where
  "vlan_enabled e vlan \<longleftrightarrow> \<not> sno_disabled (sp_config e) \<and> \<not> vc_disabled (vlan_config_of e vlan)"

definition querier_source :: "snoop \<Rightarrow> u16 \<Rightarrow> ip_addr" where
  "querier_source e vlan =
     (case (sp_family e, querier_address (vlan_config_of e vlan)) of
        (_, Some address) \<Rightarrow> address
      | (Igmp, None) \<Rightarrow> V4 0
      | (Mld, None) \<Rightarrow> V6 0)"

text \<open>\<open>sort\<close> then \<open>dedup\<close>.\<close>

definition sort_dedup :: "'a::linorder list \<Rightarrow> 'a list" where
  "sort_dedup xs = remdups_adj (sort xs)"

definition mrouters :: "snoop \<Rightarrow> u16 \<Rightarrow> instant \<Rightarrow> string list" where
  "mrouters e vlan now =
     sort_dedup (static_mrouters (vlan_config_of e vlan)
       @ (case bt_get (sp_vlans e) vlan of
            None \<Rightarrow> []
          | Some st \<Rightarrow> map fst (filter (\<lambda>(_, at). since now at < querier_hold e) (dyn_mrouters st))))"

section \<open>Messages\<close>

definition hear_message :: "string \<Rightarrow> bool \<Rightarrow> ip_addr \<Rightarrow> instant \<Rightarrow> message \<Rightarrow> vlan_state \<Rightarrow> vlan_state" where
  "hear_message port fast our_source now msg st =
     (case msg of
        Report g version \<Rightarrow>
          st\<lparr>groups := bt_update g (bt_insert port \<lparr>last_report = now, gm_version = version, pending_leave = None\<rparr>)
                          (bt_or_insert g [] (groups st))\<rparr>
      | Leave g \<Rightarrow>
          st\<lparr>groups := bt_update g (\<lambda>ms. if fast then bt_remove port ms
                                         else bt_update port (\<lambda>m. m\<lparr>pending_leave := Some now\<rparr>) ms) (groups st)\<rparr>
      | Query source \<Rightarrow>
          st\<lparr>dyn_mrouters := bt_insert port now (dyn_mrouters st),
             other_querier := (if source < our_source then Some (source, now) else other_querier st)\<rparr>)"

definition apply_message :: "string \<Rightarrow> u16 \<Rightarrow> instant \<Rightarrow> message \<Rightarrow> snoop \<Rightarrow> snoop" where
  "apply_message port vlan now msg e =
     e\<lparr>sp_vlans := bt_update vlan
         (hear_message port (fast_leave (vlan_config_of e vlan)) (querier_source e vlan) now msg)
         (bt_or_insert vlan new_vlan_state (sp_vlans e))\<rparr>"

definition packet_event :: "string \<Rightarrow> u16 \<Rightarrow> bytes \<Rightarrow> instant \<Rightarrow> snoop \<Rightarrow> snoop" where
  "packet_event port vlan frame now e =
     (if vlan_enabled e vlan
      then case parse_frame (sp_family e) frame of
             Some msgs \<Rightarrow> fold (apply_message port vlan now) msgs e
           | None \<Rightarrow> e
      else e)"

section \<open>The pass\<close>

definition live_member :: "snoop \<Rightarrow> instant \<Rightarrow> group_member \<Rightarrow> bool" where
  "live_member e now m \<longleftrightarrow>
     \<not> ((case pending_leave m of None \<Rightarrow> False | Some at \<Rightarrow> last_member_interval (sp_config e) \<le> since now at)
        \<or> membership_hold e \<le> since now (last_report m))"

definition expire :: "snoop \<Rightarrow> bool \<Rightarrow> instant \<Rightarrow> vlan_state \<Rightarrow> vlan_state" where
  "expire e enabled now st =
     (let st1 = (if enabled then st else st\<lparr>groups := [], dyn_mrouters := [], other_querier := None\<rparr>)
      in st1\<lparr>groups := bt_retain (\<lambda>_ ms. ms \<noteq> []) (bt_map (\<lambda>_. bt_retain (\<lambda>_. live_member e now)) (groups st1)),
             dyn_mrouters := bt_retain (\<lambda>_ at. since now at < querier_hold e) (dyn_mrouters st1),
             other_querier := (case other_querier st1 of
                 Some (_, at) \<Rightarrow> if querier_hold e \<le> since now at then None else other_querier st1
               | None \<Rightarrow> None)\<rparr>)"

definition wanted_groups :: "string list \<Rightarrow> vlan_state \<Rightarrow> (ip_addr, string list) btree" where
  "wanted_groups mrouter_set st = bt_map (\<lambda>_ ms. sort_dedup (bt_keys ms @ mrouter_set)) (groups st)"

definition push_groups :: "u16 \<Rightarrow> string list \<Rightarrow> vlan_state \<Rightarrow> vlan_state \<times> group_update list" where
  "push_groups vlan mrouter_set st =
     (let w = wanted_groups mrouter_set st;
          changed = filter (\<lambda>(g, ports). bt_get (pushed_groups st) g \<noteq> Some ports) w;
          pushed = fold (\<lambda>(g, ports). bt_insert g ports) changed (pushed_groups st);
          gone = filter (\<lambda>g. \<not> bt_contains w g) (bt_keys pushed)
      in (st\<lparr>pushed_groups := fold bt_remove gone pushed\<rparr>,
          map (\<lambda>(g, ports). \<lparr>gu_vlan = vlan, gu_group = g, gu_ports = ports, gu_remove = False\<rparr>) changed
          @ map (\<lambda>g. \<lparr>gu_vlan = vlan, gu_group = g, gu_ports = [], gu_remove = True\<rparr>) gone))"

definition push_mrouters :: "u16 \<Rightarrow> bool \<Rightarrow> bool \<Rightarrow> string list \<Rightarrow> vlan_state \<Rightarrow> vlan_state \<times> mrouter_update list" where
  "push_mrouters vlan enabled own_querier mrouter_set st =
     (let restrict = (enabled \<and> (mrouter_set \<noteq> [] \<or> own_querier));
          push = (restrict, if restrict then mrouter_set else [])
      in if pushed_mrouters st \<noteq> Some push
         then (st\<lparr>pushed_mrouters := Some push\<rparr>, [\<lparr>mu_vlan = vlan, mu_restrict = fst push, mu_ports = snd push\<rparr>])
         else (st, []))"

definition send_query :: "snoop \<Rightarrow> u16 \<Rightarrow> bool \<Rightarrow> instant \<Rightarrow> vlan_state \<Rightarrow> vlan_state \<times> (string \<times> bytes) list" where
  "send_query e vlan enabled now st =
     (if enabled \<and> querier (vlan_config_of e vlan) \<and> other_querier st = None
         \<and> (case last_query_tx st of Some at \<Rightarrow> query_interval (sp_config e) \<le> since now at | None \<Rightarrow> True)
      then (st\<lparr>last_query_tx := Some now\<rparr>,
            map (\<lambda>port. (port, encode_general_query (sp_family e) (sp_system_mac e) (querier_source e vlan)))
              (case bt_get (vlan_ports e) vlan of None \<Rightarrow> [] | Some ps \<Rightarrow> ps))
      else (st, []))"

record snoop_out =
  out_groups :: "group_update list"
  out_mrouters :: "mrouter_update list"
  out_frames :: "(string \<times> bytes) list"

definition step_vlan_state :: "snoop \<Rightarrow> u16 \<Rightarrow> instant \<Rightarrow> vlan_state \<Rightarrow> vlan_state \<times> snoop_out" where
  "step_vlan_state e vlan now st =
     (let enabled = vlan_enabled e vlan;
          mrouter_set = mrouters e vlan now;
          (st1, gs) = push_groups vlan mrouter_set (expire e enabled now st);
          (st2, ms) = push_mrouters vlan enabled (querier (vlan_config_of e vlan)) mrouter_set st1;
          (st3, frames) = send_query e vlan enabled now st2
      in (st3, \<lparr>out_groups = gs, out_mrouters = ms, out_frames = frames\<rparr>))"

definition step_vlan :: "instant \<Rightarrow> u16 \<Rightarrow> snoop \<times> snoop_out \<Rightarrow> snoop \<times> snoop_out" where
  "step_vlan now vlan acc =
     (case acc of (e, out) \<Rightarrow>
        let st = (case bt_get (sp_vlans e) vlan of None \<Rightarrow> new_vlan_state | Some st \<Rightarrow> st);
            (st', o') = step_vlan_state e vlan now st
        in (e\<lparr>sp_vlans := bt_insert vlan st' (sp_vlans e)\<rparr>,
            \<lparr>out_groups = out_groups out @ out_groups o', out_mrouters = out_mrouters out @ out_mrouters o',
             out_frames = out_frames out @ out_frames o'\<rparr>))"

definition snoop_step :: "instant \<Rightarrow> snoop \<Rightarrow> snoop \<times> snoop_out" where
  "snoop_step now e =
     fold (step_vlan now) (bt_keys (sp_vlans e) @ bt_keys (sno_vlans (sp_config e)))
       (e, \<lparr>out_groups = [], out_mrouters = [], out_frames = []\<rparr>)"

datatype snoop_input =
    SnoopTick
  | Packet string u16 bytes
  | SetSnoopConfig snoop_config
  | SetVlanPorts "(u16, string list) btree"

definition snoop_turn :: "snoop \<Rightarrow> snoop_input \<times> instant \<Rightarrow> snoop \<times> snoop_out" where
  "snoop_turn e ev =
     (let nothing = \<lparr>out_groups = [], out_mrouters = [], out_frames = []\<rparr> in
      case fst ev of
        SnoopTick \<Rightarrow> snoop_step (snd ev) e
      | Packet port vlan frame \<Rightarrow> snoop_step (snd ev) (packet_event port vlan frame (snd ev) e)
      | SetSnoopConfig c \<Rightarrow> (set_snoop_config c e, nothing)
      | SetVlanPorts m \<Rightarrow> (set_vlan_ports m e, nothing))"

section \<open>Snapshot\<close>

record group_snapshot =
  gs_group :: ip_addr
  gs_version :: u8
  gs_ports :: "string list"

record vlan_snapshot =
  vs_vlan :: u16
  vs_enabled :: bool
  vs_fast_leave :: bool
  vs_querier_enabled :: bool
  vs_querier_address :: "ip_addr option"
  vs_querier_active :: bool
  vs_static_mrouters :: "string list"
  vs_dynamic_mrouters :: "string list"
  vs_groups :: "group_snapshot list"

definition snapshot_group :: "ip_addr \<times> (string, group_member) btree \<Rightarrow> group_snapshot" where
  "snapshot_group gm =
     \<lparr>gs_group = fst gm,
      gs_version = (case map (gm_version \<circ> snd) (snd gm) of [] \<Rightarrow> 2 | v # vs \<Rightarrow> fold max vs v),
      gs_ports = bt_keys (snd gm)\<rparr>"

definition snapshot_vlan :: "snoop \<Rightarrow> instant \<Rightarrow> u16 \<Rightarrow> vlan_snapshot" where
  "snapshot_vlan e now vlan =
     (let c = vlan_config_of e vlan;
          st = (case bt_get (sp_vlans e) vlan of None \<Rightarrow> new_vlan_state | Some st \<Rightarrow> st);
          enabled = (\<not> sno_disabled (sp_config e) \<and> \<not> vc_disabled c);
          other = (case other_querier st of None \<Rightarrow> False | Some (_, at) \<Rightarrow> since now at < querier_hold e)
      in \<lparr>vs_vlan = vlan, vs_enabled = enabled, vs_fast_leave = fast_leave c, vs_querier_enabled = querier c,
          vs_querier_address = querier_address c, vs_querier_active = (enabled \<and> querier c \<and> \<not> other),
          vs_static_mrouters = static_mrouters c, vs_dynamic_mrouters = bt_keys (dyn_mrouters st),
          vs_groups = map snapshot_group (groups st)\<rparr>)"

definition snoop_snapshot :: "snoop \<Rightarrow> instant \<Rightarrow> bool \<times> u8 \<times> vlan_snapshot list" where
  "snoop_snapshot e now =
     (\<not> sno_disabled (sp_config e), robustness (sp_config e),
      map (snapshot_vlan e now) (sort_dedup (bt_keys (sno_vlans (sp_config e)) @ bt_keys (sp_vlans e))))"

section \<open>The parsers\<close>

text \<open>A computation of the parsers that does not panic.\<close>

lemma returns_igmp_group: "at + 4 \<le> length igmp \<Longrightarrow> returns (igmp_group_at igmp at)"
  unfolding igmp_group_at_def by (intro returns_bind returns_Some) simp_all

lemma returns_mld_group: "at + 16 \<le> length icmp \<Longrightarrow> returns (mld_group_at icmp at)"
  unfolding mld_group_at_def by (intro returns_bind returns_Some) simp_all

lemmas returns_intros = returns_Some returns_bind returns_if returns_be16_at returns_igmp_group returns_mld_group

lemma returns_igmp_records: "returns (igmp_records igmp n at)"
proof (induction n arbitrary: at)
  case (Suc n)
  show ?case
    unfolding igmp_records.simps by (intro returns_intros Suc) simp_all
qed auto

lemma returns_mld_records: "returns (mld_records icmp n at)"
proof (induction n arbitrary: at)
  case (Suc n)
  show ?case
    unfolding mld_records.simps by (intro returns_intros Suc) simp_all
qed auto

lemma returns_igmp_messages: "8 \<le> length igmp \<Longrightarrow> returns (igmp_messages source igmp)"
  unfolding igmp_messages_def by (intro returns_intros returns_igmp_records) auto

lemma returns_mld_messages: "8 \<le> length icmp \<Longrightarrow> returns (mld_messages source icmp)"
  unfolding mld_messages_def by (intro returns_intros returns_mld_records) auto

lemma returns_parse_igmp: "returns (parse_igmp frame)"
  unfolding parse_igmp_def Let_def
  by (intro returns_intros returns_igmp_messages) (auto dest!: slice_from_length)

lemma returns_mld_upper: "40 \<le> length ip \<Longrightarrow> returns (mld_upper ip)"
  unfolding mld_upper_def by (intro returns_intros) simp_all

lemma returns_case_upper:
  "(\<And>next at. u = Some (next, at) \<Longrightarrow> returns (f next at)) \<Longrightarrow> returns (case u of None \<Rightarrow> Some [] | Some (next, at) \<Rightarrow> f next at)"
  by (auto split: option.split)

lemma returns_parse_mld: "returns (parse_mld frame)"
  unfolding parse_mld_def
  by (intro returns_intros returns_mld_messages returns_mld_upper returns_case_upper) (auto dest!: slice_from_length)

text \<open>
  No frame makes the parsers read outside it: for every family and every sequence of bytes, truncated headers,
  lying lengths and record counts included, parsing returns a list of messages.
\<close>

lemma snoop_parse_total: "\<exists>ms. parse_frame fam frame = Some ms"
  using returns_parse_igmp [of frame] returns_parse_mld [of frame] by (cases fam) (auto simp: returns_def)

section \<open>Queries\<close>

lemma igmp_query_shape: obtains k1 k2 where "igmp_query = [0x11, 100, k1, k2, 0, 0, 0, 0]"
proof -
  obtain k1 k2 where "to_be 2 (checksum [[0x11, 100, 0, 0, 0, 0, 0, 0]]) = [k1, k2]" by (rule to_be_2_cases)
  then show thesis by (intro that [of k1 k2]) (simp add: igmp_query_def with_checksum_def)
qed

lemma parse_igmp_query:
  assumes "length mac = 6"
  shows "parse_frame Igmp (encode_general_query Igmp mac (V4 source)) = Some [Query (V4 source)]"
proof -
  obtain m1 m2 m3 m4 m5 m6 where mac: "mac = [m1, m2, m3, m4, m5, m6]" using assms by (rule mac_cases)
  have "length (to_be 4 source) = Suc (Suc (Suc (Suc 0)))" by simp
  then obtain a b c d where abcd: "to_be 4 source = [a, b, c, d]" by (auto simp only: length_Suc_conv length_0_conv)
  then have src: "from_be [a, b, c, d] = source" using from_be_to_be [of 4 source] by simp
  obtain l1 l2 where l: "to_be 2 (20 + of_nat (length igmp_query) :: u16) = [l1, l2]" by (rule to_be_2_cases)
  let ?ip = "[0x45, 0xc0, l1, l2, 0, 0, 0, 0, 1, 2, 0, 0, a, b, c, d, 224, 0, 0, 1]"
  obtain k1 k2 where k: "to_be 2 (checksum [?ip]) = [k1, k2]" by (rule to_be_2_cases)
  have ip: "igmp_query_ip source = [0x45, 0xc0, l1, l2, 0, 0, 0, 0, 1, 2, k1, k2, a, b, c, d, 224, 0, 0, 1]"
    using k by (simp add: igmp_query_ip_def l abcd Let_def with_checksum_def)
  obtain q1 q2 where q: "igmp_query = [0x11, 100, q1, q2, 0, 0, 0, 0]" by (rule igmp_query_shape)
  show ?thesis
    by (simp add: parse_igmp_def mac ip q src igmp_messages_def Let_def idx_def slice_def slice_from_def)
qed

lemma mld_query_shape:
  obtains rest where "mld_query source = 130 # rest" and "length rest = 23"
proof -
  let ?icmp = "[130, 0, 0, 0, 0x27, 0x10, 0, 0] @ replicate 16 0"
  obtain k1 k2 where "to_be 2 (checksum [to_be 16 source, to_be 16 mld_dst, to_be 4 (of_nat (length ?icmp) :: u32), [0, 0, 0, 58], ?icmp]) = [k1, k2]"
    by (rule to_be_2_cases)
  then show thesis
    by (intro that [of "[0, k1, k2, 0x27, 0x10, 0, 0] @ replicate 16 0"]) (simp_all add: mld_query_def with_checksum_def Let_def)
qed

lemma parse_mld_query:
  assumes "length mac = 6"
  shows "parse_frame Mld (encode_general_query Mld mac (V6 source)) = Some [Query (V6 source)]"
proof -
  obtain m1 m2 m3 m4 m5 m6 where mac: "mac = [m1, m2, m3, m4, m5, m6]" using assms by (rule mac_cases)
  obtain rest where q: "mld_query source = 130 # rest" "length rest = 23" by (rule mld_query_shape)
  obtain l1 l2 where l: "to_be 2 (of_nat (length (mld_query source)) :: u16) = [l1, l2]" by (rule to_be_2_cases)
  define ip where "ip = [0x60, 0, 0, 0, l1, l2, 58, 1] @ to_be 16 source @ to_be 16 mld_dst @ 130 # rest"
  have frame: "encode_general_query Mld mac (V6 source) = [0x33, 0x33, 0, 0, 0, 1] @ mac @ [0x86, 0xdd] @ ip"
    using l by (simp add: mld_query_ip_def ip_def q)
  have ip': "length ip = 64" "ip ! 0 = 0x60" "ip ! 6 = 58" "take 16 (drop 8 ip) = to_be 16 source" "drop 40 ip = 130 # rest"
    by (simp_all add: ip_def q(2))
  then show ?thesis
    unfolding frame parse_frame.simps
    by (auto simp: parse_mld_def mac mld_upper_def mld_messages_def idx_def slice_def slice_from_def from_be_to_be)
qed

text \<open>
  The general query this engine sends is read by the engine of the same family, at the other end of the link,
  as one query from its source address, which is what the querier election compares.
\<close>

lemma snoop_query_roundtrip:
  assumes "length mac = 6" and "is_ipv4 source \<longleftrightarrow> fam = Igmp"
  shows "parse_frame fam (encode_general_query fam mac source) = Some [Query source]"
  using assms parse_igmp_query [of mac] parse_mld_query [of mac] by (cases fam; cases source) auto

lemma snoop_query_roundtrip_example:
  "parse_frame Mld (encode_general_query Mld [2, 0, 0, 0, 0, 1] (V6 7)) = Some [Query (V6 7)]"
  by (rule snoop_query_roundtrip) simp_all

section \<open>The group table\<close>

text \<open>What a sequence of updates asks for.\<close>

definition install :: "group_update list \<Rightarrow> (u16 \<times> ip_addr \<Rightarrow> string list option) \<Rightarrow> u16 \<times> ip_addr \<Rightarrow> string list option" where
  "install us t = fold (\<lambda>u t. t((gu_vlan u, gu_group u) := (if gu_remove u then None else Some (gu_ports u)))) us t"

lemma install_append: "install (us @ vs) t = install vs (install us t)"
  by (simp add: install_def)

lemma install_Nil [simp]: "install [] t = t"
  by (simp add: install_def)

lemma install_Cons:
  "install (u # us) t = install us (t((gu_vlan u, gu_group u) := (if gu_remove u then None else Some (gu_ports u))))"
  by (simp add: install_def)

definition table_agrees :: "(u16 \<times> ip_addr \<Rightarrow> string list option) \<Rightarrow> snoop \<Rightarrow> bool" where
  "table_agrees t e \<longleftrightarrow>
     (\<forall>v g. t (v, g) = (case bt_get (sp_vlans e) v of None \<Rightarrow> None | Some st \<Rightarrow> bt_get (pushed_groups st) g))"

lemma install_changed:
  assumes "\<And>g. t (vlan, g) = bt_get m g"
  shows "install (map (\<lambda>(g, ports). \<lparr>gu_vlan = vlan, gu_group = g, gu_ports = ports, gu_remove = False\<rparr>) xs) t (v, g) =
    (if v = vlan then bt_get (fold (\<lambda>(g, ports). bt_insert g ports) xs m) g else t (v, g))"
  using assms
proof (induction xs arbitrary: t m)
  case (Cons x xs)
  obtain g0 ps where x: "x = (g0, ps)" by (cases x)
  have "(t((vlan, g0) := Some ps)) (vlan, g) = bt_get (bt_insert g0 ps m) g" for g
    using Cons.prems by (simp add: bt_simps)
  note IH = Cons.IH [of "t((vlan, g0) := Some ps)", OF this]
  have "v \<noteq> vlan \<Longrightarrow> (t((vlan, g0) := Some ps)) (v, g) = t (v, g)" by simp
  with IH show ?case by (simp add: install_Cons x del: fun_upd_apply)
qed simp

lemma install_gone:
  assumes "\<And>g. t (vlan, g) = bt_get m g"
  shows "install (map (\<lambda>g. \<lparr>gu_vlan = vlan, gu_group = g, gu_ports = [], gu_remove = True\<rparr>) gs) t (v, g) =
    (if v = vlan then bt_get (fold bt_remove gs m) g else t (v, g))"
  using assms
proof (induction gs arbitrary: t m)
  case (Cons g0 gs)
  have "(t((vlan, g0) := None)) (vlan, g) = bt_get (bt_remove g0 m) g" for g
    using Cons.prems by (simp add: bt_simps)
  note IH = Cons.IH [of "t((vlan, g0) := None)", OF this]
  have "v \<noteq> vlan \<Longrightarrow> (t((vlan, g0) := None)) (v, g) = t (v, g)" by simp
  with IH show ?case by (simp add: install_Cons del: fun_upd_apply)
qed simp

lemma push_groups_installs:
  assumes "\<And>g. t (vlan, g) = bt_get (pushed_groups st) g"
  shows "install (snd (push_groups vlan ms st)) t (v, g) =
    (if v = vlan then bt_get (pushed_groups (fst (push_groups vlan ms st))) g else t (v, g))"
proof -
  let ?changed = "filter (\<lambda>(g, ports). bt_get (pushed_groups st) g \<noteq> Some ports) (wanted_groups ms st)"
  let ?t = "install (map (\<lambda>(g, ports). \<lparr>gu_vlan = vlan, gu_group = g, gu_ports = ports, gu_remove = False\<rparr>) ?changed) t"
  have "?t (vlan, g) = bt_get (fold (\<lambda>(g, ports). bt_insert g ports) ?changed (pushed_groups st)) g" for g
    using install_changed [of t vlan "pushed_groups st" ?changed vlan g] assms by simp
  note gone = install_gone [of ?t vlan, OF this]
  show ?thesis
    using install_changed [of t vlan "pushed_groups st" ?changed v g] assms
    by (simp add: push_groups_def Let_def install_append gone)
qed

lemma push_groups_wanted:
  assumes "bt_wf (groups st)"
  shows "bt_get (pushed_groups (fst (push_groups vlan ms st))) g = bt_get (wanted_groups ms st) g"
proof -
  let ?w = "wanted_groups ms st" and ?p = "pushed_groups st"
  have wf: "bt_wf ?w" using assms by (simp add: wanted_groups_def)
  let ?p1 = "ins_all (\<lambda>_ _. True) (differs ?p ?w) ?p"
  have "pushed_groups (fst (push_groups vlan ms st)) = del_all (\<lambda>_. True) (unwanted ?p1 ?w) ?p1"
    by (simp add: push_groups_def Let_def ins_all_def del_all_def differs_def unwanted_def case_prod_beta')
  moreover have "distinct (map fst (differs ?p ?w))"
    using bt_wf_distinct [OF bt_wf_filter [OF wf]] by (simp add: differs_def)
  then have "bt_get ?p1 g = (case bt_get ?w g of Some v \<Rightarrow> Some v | None \<Rightarrow> bt_get ?p g)"
    by (auto simp: get_ins_all map_of_differs [OF wf] split: option.split)
  ultimately show ?thesis
    by (auto simp: get_del_all in_unwanted bt_contains_def split: option.splits)
qed

definition snoop_wf :: "snoop \<Rightarrow> bool" where
  "snoop_wf e \<longleftrightarrow> (\<forall>v st. bt_get (sp_vlans e) v = Some st \<longrightarrow> bt_wf (groups st))"

text \<open>What the pass leaves of a VLAN: live members only, and their groups pushed with the routers.\<close>

definition settled :: "snoop \<Rightarrow> instant \<Rightarrow> u16 \<Rightarrow> bool" where
  "settled e now v \<longleftrightarrow>
     (\<exists>st. bt_get (sp_vlans e) v = Some st
        \<and> bt_get (pushed_groups st) = bt_get (wanted_groups (mrouters e v now) st)
        \<and> list_all (\<lambda>(_, ms). ms \<noteq> [] \<and> list_all (\<lambda>(_, m). live_member e now m) ms) (groups st))"

lemma later_steps_fields [simp]:
  "groups (fst (push_groups vlan ms st)) = groups st" "dyn_mrouters (fst (push_groups vlan ms st)) = dyn_mrouters st"
  "groups (fst (push_mrouters vlan en q ms st)) = groups st" "dyn_mrouters (fst (push_mrouters vlan en q ms st)) = dyn_mrouters st"
  "pushed_groups (fst (push_mrouters vlan en q ms st)) = pushed_groups st"
  "groups (fst (send_query e vlan en now st)) = groups st" "dyn_mrouters (fst (send_query e vlan en now st)) = dyn_mrouters st"
  "pushed_groups (fst (send_query e vlan en now st)) = pushed_groups st"
  by (simp_all add: push_groups_def push_mrouters_def send_query_def Let_def)

lemma expire_pushed [simp]: "pushed_groups (expire e en now st) = pushed_groups st"
  by (simp add: expire_def Let_def)

lemma expire_groups:
  "groups (expire e en now st) =
     (if en then bt_retain (\<lambda>_ ms. ms \<noteq> []) (bt_map (\<lambda>_. bt_retain (\<lambda>_. live_member e now)) (groups st)) else [])"
  by (simp add: expire_def Let_def bt_map_def bt_retain_def)

lemma expire_wf: "bt_wf (groups st) \<Longrightarrow> bt_wf (groups (expire e en now st))"
  by (simp add: expire_groups)

lemma step_vlan_state_fields:
  "groups (fst (step_vlan_state e v now st)) = groups (expire e (vlan_enabled e v) now st)"
  "dyn_mrouters (fst (step_vlan_state e v now st)) = dyn_mrouters (expire e (vlan_enabled e v) now st)"
  "pushed_groups (fst (step_vlan_state e v now st)) =
     pushed_groups (fst (push_groups v (mrouters e v now) (expire e (vlan_enabled e v) now st)))"
  "out_groups (snd (step_vlan_state e v now st)) =
     snd (push_groups v (mrouters e v now) (expire e (vlan_enabled e v) now st))"
  by (simp_all add: step_vlan_state_def Let_def split_beta)

abbreviation (input) state_of :: "snoop \<Rightarrow> u16 \<Rightarrow> vlan_state" where
  "state_of e v \<equiv> (case bt_get (sp_vlans e) v of None \<Rightarrow> new_vlan_state | Some st \<Rightarrow> st)"

lemma step_vlan_eq:
  "fst (step_vlan now v (e, out)) = e\<lparr>sp_vlans := bt_insert v (fst (step_vlan_state e v now (state_of e v))) (sp_vlans e)\<rparr>"
  "out_groups (snd (step_vlan now v (e, out))) =
     out_groups out @ out_groups (snd (step_vlan_state e v now (state_of e v)))"
  by (simp_all add: step_vlan_def Let_def split_beta)

lemma state_of_wf: "snoop_wf e \<Longrightarrow> bt_wf (groups (state_of e v))"
  by (auto simp: snoop_wf_def new_vlan_state_def split: option.split)

lemma config_views [simp]:
  "vlan_config_of (e\<lparr>sp_vlans := m\<rparr>) v = vlan_config_of e v" "vlan_enabled (e\<lparr>sp_vlans := m\<rparr>) v = vlan_enabled e v"
  "querier_hold (e\<lparr>sp_vlans := m\<rparr>) = querier_hold e" "live_member (e\<lparr>sp_vlans := m\<rparr>) now = live_member e now"
  by (simp_all add: vlan_config_of_def vlan_enabled_def querier_hold_def live_member_def membership_hold_def fun_eq_iff
      split: option.split)

lemma mrouters_cong:
  "bt_get m v = bt_get (sp_vlans e) v \<Longrightarrow> mrouters (e\<lparr>sp_vlans := m\<rparr>) v now = mrouters e v now"
  by (simp add: mrouters_def split: option.split)

lemma mrouters_after_expiry:
  assumes "vlan_enabled e v" and "bt_get m v = Some st'" and "dyn_mrouters st' = dyn_mrouters (expire e True now (state_of e v))"
  shows "mrouters (e\<lparr>sp_vlans := m\<rparr>) v now = mrouters e v now"
proof -
  have "filter (\<lambda>(_, at). now - at < querier_hold e) (dyn_mrouters st') =
      (case bt_get (sp_vlans e) v of None \<Rightarrow> [] | Some st \<Rightarrow> filter (\<lambda>(_, at). now - at < querier_hold e) (dyn_mrouters st))"
    by (auto simp: assms(3) expire_def bt_retain_def new_vlan_state_def case_prod_beta' split: option.split)
  then show ?thesis using assms(2) by (simp add: mrouters_def split: option.split)
qed

lemma step_vlan_settles:
  assumes "snoop_wf e"
  shows "settled (fst (step_vlan now v (e, out))) now v"
proof -
  let ?st = "expire e (vlan_enabled e v) now (state_of e v)"
  let ?st' = "fst (step_vlan_state e v now (state_of e v))" and ?e' = "fst (step_vlan now v (e, out))"
  have get: "bt_get (sp_vlans ?e') v = Some ?st'" by (simp add: step_vlan_eq bt_simps)
  have "bt_get (pushed_groups ?st') = bt_get (wanted_groups (mrouters e v now) ?st)"
    using push_groups_wanted [OF expire_wf [OF state_of_wf [OF assms]]] by (simp add: fun_eq_iff step_vlan_state_fields)
  moreover have "wanted_groups (mrouters e v now) ?st = wanted_groups (mrouters ?e' v now) ?st'"
  proof (cases "vlan_enabled e v")
    case True
    then have "mrouters ?e' v now = mrouters e v now"
      unfolding step_vlan_eq
      by (intro mrouters_after_expiry [where st' = ?st']) (simp_all add: bt_simps step_vlan_state_fields)
    then show ?thesis by (simp add: wanted_groups_def step_vlan_state_fields)
  next
    case False
    then show ?thesis by (simp add: wanted_groups_def step_vlan_state_fields expire_groups bt_map_def)
  qed
  moreover have "list_all (\<lambda>(_, ms). ms \<noteq> [] \<and> list_all (\<lambda>(_, m). live_member ?e' now m) ms) (groups ?st')"
    by (auto simp: step_vlan_state_fields expire_groups step_vlan_eq bt_retain_def bt_map_def list_all_iff)
  ultimately show ?thesis using get by (auto simp: settled_def)
qed

lemma step_vlan_other:
  assumes "w \<noteq> v"
  shows "bt_get (sp_vlans (fst (step_vlan now v (e, out)))) w = bt_get (sp_vlans e) w"
    and "settled (fst (step_vlan now v (e, out))) now w = settled e now w"
  using assms by (simp_all add: settled_def step_vlan_eq bt_simps mrouters_cong)

lemma step_vlan_wf: "snoop_wf e \<Longrightarrow> snoop_wf (fst (step_vlan now v (e, out)))"
  using expire_wf [OF state_of_wf]
  by (auto simp: snoop_wf_def step_vlan_eq bt_simps step_vlan_state_fields split: if_splits)

lemma step_vlan_agrees:
  assumes "table_agrees (install (out_groups out) t) e"
  shows "table_agrees (install (out_groups (snd (step_vlan now v (e, out)))) t) (fst (step_vlan now v (e, out)))"
proof -
  let ?t = "install (out_groups out) t" and ?st = "expire e (vlan_enabled e v) now (state_of e v)"
  have "?t (v, g) = bt_get (pushed_groups ?st) g" for g
    using assms by (auto simp: table_agrees_def new_vlan_state_def split: option.split)
  note t' = push_groups_installs [of ?t v ?st, OF this]
  show ?thesis
    unfolding table_agrees_def
    using assms by (auto simp: step_vlan_eq install_append step_vlan_state_fields t' bt_simps table_agrees_def)
qed

lemma fold_step_vlan:
  assumes "table_agrees (install (out_groups out) t) e" and "snoop_wf e"
    and "fold (step_vlan now) vs (e, out) = (e', out')"
  shows "table_agrees (install (out_groups out') t) e' \<and> snoop_wf e' \<and> (\<forall>v \<in> set vs. settled e' now v)
    \<and> (\<forall>v. v \<notin> set vs \<longrightarrow> bt_get (sp_vlans e') v = bt_get (sp_vlans e) v)"
  using assms(3)
proof (induction vs arbitrary: e' out' rule: rev_induct)
  case (snoc v vs)
  obtain e1 out1 where 1: "fold (step_vlan now) vs (e, out) = (e1, out1)" by fastforce
  with snoc.prems have 2: "step_vlan now v (e1, out1) = (e', out')" by simp
  note IH = snoc.IH [OF 1]
  have "table_agrees (install (out_groups out') t) e'" "snoop_wf e'" "settled e' now v"
    using step_vlan_agrees [of out1 t e1 now v] step_vlan_wf [of e1 now v out1] step_vlan_settles [of e1 now v out1] IH 2 by simp_all
  moreover have "settled e' now w" if "w \<in> set vs" for w
    using step_vlan_other(2) [of w v now e1 out1] IH 2 that \<open>settled e' now v\<close> by (cases "w = v") simp_all
  moreover have "bt_get (sp_vlans e') w = bt_get (sp_vlans e) w" if "w \<notin> set (vs @ [v])" for w
    using step_vlan_other(1) [of w v now e1 out1] IH 2 that by simp
  ultimately show ?case by auto
qed (use assms in simp)

lemma snoop_step_correct:
  assumes "table_agrees t e" and "snoop_wf e" and "snoop_step now e = (e', out)"
  shows "table_agrees (install (out_groups out) t) e' \<and> snoop_wf e'
    \<and> (\<forall>v st. bt_get (sp_vlans e') v = Some st \<longrightarrow> settled e' now v)"
proof -
  let ?vs = "bt_keys (sp_vlans e) @ bt_keys (sno_vlans (sp_config e))"
  from fold_step_vlan [OF _ assms(2) assms(3) [unfolded snoop_step_def], of t] assms(1)
  have f: "table_agrees (install (out_groups out) t) e'" "snoop_wf e'" "\<And>v. v \<in> set ?vs \<Longrightarrow> settled e' now v"
    "\<And>v. v \<notin> set ?vs \<Longrightarrow> bt_get (sp_vlans e') v = bt_get (sp_vlans e) v"
    by simp_all
  have "settled e' now v" if "bt_get (sp_vlans e') v = Some st" for v st
  proof (cases "v \<in> set ?vs")
    case False
    then have "bt_get (sp_vlans e) v = None" by (simp add: map_of_eq_None_iff)
    with f(4) [OF False] that show ?thesis by simp
  qed (rule f(3))
  with f(1,2) show ?thesis by blast
qed

lemma hear_message_keeps:
  "pushed_groups (hear_message port fast src now msg st) = pushed_groups st"
  "bt_wf (groups st) \<Longrightarrow> bt_wf (groups (hear_message port fast src now msg st))"
  by (cases msg; simp add: hear_message_def)+

lemma apply_message_keeps:
  assumes "table_agrees t e" and "snoop_wf e"
  shows "table_agrees t (apply_message port v now msg e) \<and> snoop_wf (apply_message port v now msg e)"
proof -
  let ?hear = "hear_message port (fast_leave (vlan_config_of e v)) (querier_source e v) now msg"
  have get: "bt_get (sp_vlans (apply_message port v now msg e)) w =
      (if w = v then Some (?hear (state_of e v)) else bt_get (sp_vlans e) w)" for w
    by (auto simp: apply_message_def bt_simps split: option.split)
  have "bt_get (pushed_groups (state_of e v)) g = t (v, g)" for g
    using assms(1) by (auto simp: table_agrees_def new_vlan_state_def split: option.split)
  then show ?thesis
    using assms state_of_wf [OF assms(2), of v]
    by (auto simp: table_agrees_def snoop_wf_def get hear_message_keeps split: if_splits)
qed

lemma packet_event_keeps:
  assumes "table_agrees t e" and "snoop_wf e"
  shows "table_agrees t (packet_event port v frame now e) \<and> snoop_wf (packet_event port v frame now e)"
proof -
  have "table_agrees t (fold (apply_message port v now) ms e) \<and> snoop_wf (fold (apply_message port v now) ms e)" for ms
    using assms by (intro fold_keeps [where P = "\<lambda>e. table_agrees t e \<and> snoop_wf e"]) (auto simp: apply_message_keeps)
  with assms show ?thesis by (simp add: packet_event_def split: option.split)
qed

definition snoop_passes :: "snoop_input \<Rightarrow> bool" where
  "snoop_passes i = (case i of SnoopTick \<Rightarrow> True | Packet _ _ _ \<Rightarrow> True | _ \<Rightarrow> False)"

lemma snoop_turn_correct:
  assumes "table_agrees t e" and "snoop_wf e" and "snoop_turn e ev = (e', out)"
  shows "table_agrees (install (out_groups out) t) e' \<and> snoop_wf e'
    \<and> (snoop_passes (fst ev) \<longrightarrow> (\<forall>v st. bt_get (sp_vlans e') v = Some st \<longrightarrow> settled e' (snd ev) v))"
proof (cases "fst ev")
  case SnoopTick
  with assms snoop_step_correct [OF assms(1,2)] show ?thesis by (auto simp: snoop_turn_def)
next
  case (Packet port v frame)
  with assms(3) have "snoop_step (snd ev) (packet_event port v frame (snd ev) e) = (e', out)"
    by (simp add: snoop_turn_def)
  with snoop_step_correct packet_event_keeps [OF assms(1,2)] show ?thesis by blast
next
  case (SetSnoopConfig c)
  with assms show ?thesis
    by (auto simp: snoop_turn_def snoop_passes_def set_snoop_config_def table_agrees_def snoop_wf_def)
next
  case (SetVlanPorts m)
  with assms show ?thesis
    by (auto simp: snoop_turn_def snoop_passes_def set_vlan_ports_def table_agrees_def snoop_wf_def)
qed

section \<open>Membership\<close>

text \<open>The members of a group in a VLAN, as the engine has them.\<close>

definition member_in :: "vlan_state \<Rightarrow> ip_addr \<Rightarrow> string \<Rightarrow> group_member option" where
  "member_in st g port = do { ms \<leftarrow> bt_get (groups st) g; bt_get ms port }"

definition member :: "snoop \<Rightarrow> u16 \<Rightarrow> ip_addr \<Rightarrow> string \<Rightarrow> group_member option" where
  "member e v g port = do { st \<leftarrow> bt_get (sp_vlans e) v; member_in st g port }"

definition state_wf :: "vlan_state \<Rightarrow> bool" where
  "state_wf st \<longleftrightarrow> bt_wf (groups st) \<and> (\<forall>g ms. bt_get (groups st) g = Some ms \<longrightarrow> bt_wf ms)"

definition members_wf :: "snoop \<Rightarrow> bool" where
  "members_wf e \<longleftrightarrow> (\<forall>v st. bt_get (sp_vlans e) v = Some st \<longrightarrow> state_wf st)"

text \<open>What a pass leaves of a member.\<close>

definition survivor :: "snoop \<Rightarrow> instant \<Rightarrow> u16 \<Rightarrow> group_member option \<Rightarrow> group_member option" where
  "survivor e now v mo = (case mo of Some m \<Rightarrow> if vlan_enabled e v \<and> live_member e now m then Some m else None | None \<Rightarrow> None)"

lemma member_state_of: "member e v g port = member_in (state_of e v) g port"
  by (simp add: member_def member_in_def new_vlan_state_def split: option.split)

lemma state_of_members_wf: "members_wf e \<Longrightarrow> state_wf (state_of e v)"
  by (auto simp: members_wf_def state_wf_def new_vlan_state_def split: option.split)

lemma expire_members:
  assumes "state_wf st"
  shows "member_in (expire e en now st) g port =
      (case member_in st g port of Some m \<Rightarrow> if en \<and> live_member e now m then Some m else None | None \<Rightarrow> None)"
    and "state_wf (expire e en now st)"
proof -
  let ?gs = "bt_map (\<lambda>_. bt_retain (\<lambda>_. live_member e now)) (groups st)"
  have wf: "bt_wf ?gs" using assms by (simp add: state_wf_def)
  have get: "bt_get (bt_retain (\<lambda>_ ms. ms \<noteq> []) ?gs) g =
      (case bt_get (groups st) g of None \<Rightarrow> None
       | Some ms \<Rightarrow> if bt_retain (\<lambda>_. live_member e now) ms = [] then None else Some (bt_retain (\<lambda>_. live_member e now) ms))" for g
    by (simp add: bt_get_retain [OF wf] bt_simps split: option.split)
  have ms: "bt_get (bt_retain (\<lambda>_. live_member e now) ms) port =
      (case bt_get ms port of None \<Rightarrow> None | Some m \<Rightarrow> if live_member e now m then Some m else None)"
    if "bt_get (groups st) g = Some ms" for ms
    using that assms by (intro bt_get_retain) (simp add: state_wf_def)
  show "member_in (expire e en now st) g port =
      (case member_in st g port of Some m \<Rightarrow> if en \<and> live_member e now m then Some m else None | None \<Rightarrow> None)"
  proof (cases "bt_get (groups st) g")
    case (Some gms)
    show ?thesis
    proof (cases "bt_retain (\<lambda>_. live_member e now) gms = []")
      case True
      then show ?thesis using ms [OF Some] by (auto simp: member_in_def expire_groups get Some split: option.splits if_splits)
    next
      case False
      then show ?thesis by (simp add: member_in_def expire_groups get Some ms [OF Some] split: option.split)
    qed
  qed (simp add: member_in_def expire_groups get)
  show "state_wf (expire e en now st)"
    using assms wf by (auto simp: state_wf_def expire_groups get split: option.splits if_splits)
qed

lemma step_vlan_members:
  assumes "members_wf e"
  shows "member (fst (step_vlan now w (e, out))) v g port =
      (if v = w then survivor e now v (member e v g port) else member e v g port)"
    and "members_wf (fst (step_vlan now w (e, out)))"
proof -
  let ?st = "expire e (vlan_enabled e w) now (state_of e w)"
  have same: "member_in (fst (step_vlan_state e w now (state_of e w))) g port = member_in ?st g port"
    "state_wf (fst (step_vlan_state e w now (state_of e w))) = state_wf ?st"
    by (simp_all add: member_in_def state_wf_def step_vlan_state_fields)
  note ex = expire_members [OF state_of_members_wf [OF assms, of w], of e "vlan_enabled e w" now]
  show "member (fst (step_vlan now w (e, out))) v g port =
      (if v = w then survivor e now v (member e v g port) else member e v g port)"
  proof (cases "v = w")
    case True
    then have "member (fst (step_vlan now w (e, out))) v g port = member_in (fst (step_vlan_state e w now (state_of e w))) g port"
      by (simp add: member_def step_vlan_eq bt_simps)
    then show ?thesis using True by (simp only: same(1) ex(1) survivor_def member_state_of simp_thms if_True)
  qed (simp add: member_def step_vlan_eq bt_simps)
  show "members_wf (fst (step_vlan now w (e, out)))"
    using assms ex(2) same(2) by (auto simp: members_wf_def step_vlan_eq bt_simps split: if_splits)
qed

lemma survivor_cong:
  "sp_config e' = sp_config e \<Longrightarrow> survivor e' now v mo = survivor e now v mo" "survivor e now v (survivor e now v mo) = survivor e now v mo"
  by (auto simp: survivor_def vlan_enabled_def vlan_config_of_def live_member_def membership_hold_def split: option.split)

lemma fold_step_members:
  assumes "members_wf e" and "fold (step_vlan now) vs (e, out) = (e', out')"
  shows "member e' v g port = (if v \<in> set vs then survivor e now v (member e v g port) else member e v g port)
    \<and> members_wf e' \<and> sp_config e' = sp_config e \<and> sp_family e' = sp_family e"
  using assms(2)
proof (induction vs arbitrary: e' out' rule: rev_induct)
  case (snoc w vs)
  obtain e1 out1 where 1: "fold (step_vlan now) vs (e, out) = (e1, out1)" by fastforce
  with snoc.prems have 2: "step_vlan now w (e1, out1) = (e', out')" by simp
  note IH = snoc.IH [OF 1]
  have "member e' v g port = (if v = w then survivor e1 now v (member e1 v g port) else member e1 v g port)" "members_wf e'"
    using step_vlan_members [of e1 now w out1] IH 2 by simp_all
  moreover have "sp_config e' = sp_config e1" "sp_family e' = sp_family e1"
    using step_vlan_eq(1) [of now w e1 out1] 2 by simp_all
  ultimately show ?case using IH survivor_cong(1) [of e1 e] survivor_cong(2) by auto
qed (use assms in simp)

lemma snoop_step_members:
  assumes "members_wf e" and "snoop_step now e = (e', out)"
  shows "member e' v g port = survivor e now v (member e v g port)" and "members_wf e'"
    and "sp_config e' = sp_config e" and "sp_family e' = sp_family e"
proof -
  note f = fold_step_members [OF assms(1) assms(2) [unfolded snoop_step_def], of v g port]
  have "member e v g port = None" if "v \<notin> set (bt_keys (sp_vlans e))"
    using that by (simp add: member_def map_of_eq_None_iff [THEN iffD2])
  with f show "member e' v g port = survivor e now v (member e v g port)" by (auto simp: survivor_def)
  from f show "members_wf e'" "sp_config e' = sp_config e" "sp_family e' = sp_family e" by auto
qed

lemma hear_members:
  "member_in (hear_message p fast src now msg st) g port =
     (case msg of
        Report g' ver \<Rightarrow> if g' = g \<and> p = port then Some \<lparr>last_report = now, gm_version = ver, pending_leave = None\<rparr> else member_in st g port
      | Leave g' \<Rightarrow> if g' = g \<and> p = port then (if fast then None else map_option (\<lambda>m. m\<lparr>pending_leave := Some now\<rparr>) (member_in st g port))
          else member_in st g port
      | Query _ \<Rightarrow> member_in st g port)"
  by (auto simp: member_in_def hear_message_def bt_simps split: message.split option.split)

lemma hear_state_wf: "state_wf st \<Longrightarrow> state_wf (hear_message p fast src now msg st)"
  by (cases msg) (auto simp: state_wf_def hear_message_def bt_simps bt_wf_def [of "[_]"] split: if_splits option.splits)

lemma apply_message_members:
  assumes "members_wf e"
  shows "member (apply_message p w now msg e) v g port =
      (if v = w then member_in (hear_message p (fast_leave (vlan_config_of e w)) (querier_source e w) now msg (state_of e v)) g port
       else member e v g port)"
    and "members_wf (apply_message p w now msg e)"
    and "sp_config (apply_message p w now msg e) = sp_config e" and "sp_family (apply_message p w now msg e) = sp_family e"
proof -
  have get: "bt_get (sp_vlans (apply_message p w now msg e)) v =
      (if v = w then Some (hear_message p (fast_leave (vlan_config_of e w)) (querier_source e w) now msg (state_of e w)) else bt_get (sp_vlans e) v)" for v
    by (auto simp: apply_message_def bt_simps split: option.split)
  then show "member (apply_message p w now msg e) v g port =
      (if v = w then member_in (hear_message p (fast_leave (vlan_config_of e w)) (querier_source e w) now msg (state_of e v)) g port
       else member e v g port)" by (simp add: member_def)
  show "members_wf (apply_message p w now msg e)"
    using assms hear_state_wf [OF state_of_members_wf [OF assms, of w]] unfolding members_wf_def get by (auto split: if_splits)
qed (simp_all add: apply_message_def)

text \<open>A member that has not asked to leave and reported no earlier than a time.\<close>

definition standing :: "instant \<Rightarrow> group_member option \<Rightarrow> bool" where
  "standing at mo = (case mo of Some m \<Rightarrow> at \<le> last_report m \<and> pending_leave m = None | None \<Rightarrow> False)"

lemma fold_messages_members:
  assumes "members_wf e"
  shows "members_wf (fold (apply_message p w now) msgs e)
    \<and> sp_config (fold (apply_message p w now) msgs e) = sp_config e \<and> sp_family (fold (apply_message p w now) msgs e) = sp_family e"
  using assms by (induction msgs arbitrary: e) (simp_all add: apply_message_members(2-4))

lemma fold_messages_origin:
  assumes "members_wf e" and "member (fold (apply_message p w now) msgs e) v g port = Some m"
  shows "(\<exists>m0. member e v g port = Some m0 \<and> last_report m0 = last_report m)
    \<or> last_report m = now \<and> v = w \<and> p = port \<and> (\<exists>ver. Report g ver \<in> set msgs)"
  using assms
proof (induction msgs arbitrary: e)
  case (Cons msg msgs)
  note IH = Cons.IH [OF apply_message_members(2) [OF Cons.prems(1), of p w now msg]]
  have "member (apply_message p w now msg e) v g port = Some m1 \<Longrightarrow>
      (\<exists>m0. member e v g port = Some m0 \<and> last_report m0 = last_report m1)
      \<or> last_report m1 = now \<and> v = w \<and> p = port \<and> (\<exists>ver. msg = Report g ver)" for m1
    by (auto simp: apply_message_members(1) [OF Cons.prems(1)] hear_members member_state_of [of e]
        split: if_splits message.splits option.splits)
  with IH Cons.prems(2) show ?case by fastforce
qed simp

lemma message_standing:
  assumes "members_wf e" and "standing at (member e v g port)" and "at \<le> now" and "p = port \<and> w = v \<longrightarrow> msg \<noteq> Leave g"
  shows "standing at (member (apply_message p w now msg e) v g port)"
  using assms(2-4) by (auto simp: apply_message_members(1) [OF assms(1)] hear_members member_state_of [of e] standing_def
      split: message.split option.splits)

lemma fold_messages_standing:
  assumes "members_wf e" and "standing at (member e v g port)" and "at \<le> now" and "p = port \<and> w = v \<longrightarrow> Leave g \<notin> set msgs"
  shows "standing at (member (fold (apply_message p w now) msgs e) v g port)"
  using assms
proof (induction msgs arbitrary: e)
  case (Cons msg msgs)
  from Cons.prems(4) have "p = port \<and> w = v \<longrightarrow> msg \<noteq> Leave g" by auto
  from message_standing [OF Cons.prems(1-3) this] Cons show ?case by (simp add: apply_message_members(2))
qed simp

lemma report_standing:
  assumes "members_wf e" and "msgs = before @ Report g ver # after" and "Leave g \<notin> set after"
  shows "standing now (member (fold (apply_message port v now) msgs e) v g port)"
proof -
  let ?e = "fold (apply_message port v now) before e"
  have wf: "members_wf ?e" using fold_messages_members [OF assms(1)] by blast
  have "standing now (member (apply_message port v now (Report g ver) ?e) v g port)"
    by (simp add: apply_message_members(1) [OF wf] hear_members standing_def)
  from fold_messages_standing [OF apply_message_members(2) [OF wf] this] assms(2,3) show ?thesis by simp
qed

text \<open>A configuration that snoops the VLAN and remembers reports for at least a time.\<close>

definition admits :: "u16 \<Rightarrow> duration \<Rightarrow> snoop \<Rightarrow> bool" where
  "admits v hold e \<longleftrightarrow> vlan_enabled e v \<and> hold \<le> membership_hold e"

lemma admits_config: "sp_config e' = sp_config e \<Longrightarrow> admits v hold e' = admits v hold e"
  by (simp add: admits_def vlan_enabled_def vlan_config_of_def membership_hold_def)

lemma survivor_standing:
  assumes "standing at mo" and "admits v hold e" and "now < at + hold \<or> now = at"
  shows "standing at (survivor e now v mo)"
proof -
  have "0 < membership_hold e" by (simp add: membership_hold_def from_secs_def)
  with assms show ?thesis
    by (auto simp: standing_def survivor_def live_member_def admits_def split: option.splits)
qed

text \<open>What the frames of a run say: a report of a port at a time, and what does not end a membership since.\<close>

definition reports :: "family \<Rightarrow> u16 \<Rightarrow> ip_addr \<Rightarrow> string \<Rightarrow> snoop_input \<Rightarrow> bool" where
  "reports fam v g port i \<longleftrightarrow> (\<exists>frame msgs ver. i = Packet port v frame \<and> parse_frame fam frame = Some msgs \<and> Report g ver \<in> set msgs)"

definition joins :: "family \<Rightarrow> u16 \<Rightarrow> ip_addr \<Rightarrow> string \<Rightarrow> snoop_input \<Rightarrow> bool" where
  "joins fam v g port i \<longleftrightarrow> (\<exists>frame before ver after. i = Packet port v frame
     \<and> parse_frame fam frame = Some (before @ Report g ver # after) \<and> Leave g \<notin> set after)"

definition stays :: "family \<Rightarrow> u16 \<Rightarrow> ip_addr \<Rightarrow> string \<Rightarrow> instant \<Rightarrow> duration \<Rightarrow> snoop_input \<times> instant \<Rightarrow> bool" where
  "stays fam v g port at hold ev \<longleftrightarrow>
     (case fst ev of
        SnoopTick \<Rightarrow> at \<le> snd ev \<and> snd ev < at + hold
      | Packet p w frame \<Rightarrow> at \<le> snd ev \<and> snd ev < at + hold
          \<and> (p = port \<and> w = v \<longrightarrow> (\<forall>msgs. parse_frame fam frame = Some msgs \<longrightarrow> Leave g \<notin> set msgs))
      | SetSnoopConfig c \<Rightarrow> admits v hold (set_snoop_config c (spawn_snoop fam []))
      | SetVlanPorts _ \<Rightarrow> True)"

lemma packet_event_members:
  assumes "members_wf e"
  shows "members_wf (packet_event p w frame now e) \<and> sp_config (packet_event p w frame now e) = sp_config e
    \<and> sp_family (packet_event p w frame now e) = sp_family e"
  using assms fold_messages_members [OF assms] by (simp add: packet_event_def split: option.split)

lemma snoop_turn_members:
  assumes "members_wf e" and "snoop_turn e ev = (e', out)"
  shows "members_wf e' \<and> sp_family e' = sp_family e"
proof (cases "fst ev")
  case (Packet p w frame)
  with packet_event_members [OF assms(1), of p w frame "snd ev"] assms(2) show ?thesis
    using snoop_step_members(2,4) [of "packet_event p w frame (snd ev) e"] by (simp add: snoop_turn_def)
qed (use assms snoop_step_members(2,4) [OF assms(1)]
    in \<open>auto simp: snoop_turn_def members_wf_def set_snoop_config_def set_vlan_ports_def\<close>)

lemma snoop_turn_origin:
  assumes "members_wf e" and "snoop_turn e ev = (e', out)" and "member e' v g port = Some m"
  shows "(\<exists>m0. member e v g port = Some m0 \<and> last_report m0 = last_report m)
    \<or> last_report m = snd ev \<and> reports (sp_family e) v g port (fst ev)"
proof (cases "fst ev")
  case SnoopTick
  then have "member e' v g port = survivor e (snd ev) v (member e v g port)"
    using snoop_step_members(1) [OF assms(1)] assms(2) by (simp add: snoop_turn_def)
  then show ?thesis using assms(3) by (auto simp: survivor_def split: option.splits if_splits)
next
  case (Packet p w frame)
  let ?e = "packet_event p w frame (snd ev) e"
  have "member e' v g port = survivor ?e (snd ev) v (member ?e v g port)"
    using snoop_step_members(1) packet_event_members [OF assms(1)] assms(2) Packet by (simp add: snoop_turn_def)
  then have "member ?e v g port = Some m" using assms(3) by (auto simp: survivor_def split: option.splits if_splits)
  then show ?thesis
    using fold_messages_origin [OF assms(1)]
    by (fastforce simp: packet_event_def reports_def Packet split: if_splits option.splits)
next
  case (SetSnoopConfig c)
  then show ?thesis using assms by (auto simp: snoop_turn_def set_snoop_config_def member_def)
next
  case (SetVlanPorts ps)
  then show ?thesis using assms by (auto simp: snoop_turn_def set_vlan_ports_def member_def)
qed

lemma snoop_turn_joins:
  assumes "members_wf e" and "snoop_turn e (i, at) = (e', out)" and "joins (sp_family e) v g port i" and "admits v hold e"
  shows "standing at (member e' v g port) \<and> admits v hold e'"
proof -
  obtain frame before ver after where i: "i = Packet port v frame"
    and p: "parse_frame (sp_family e) frame = Some (before @ Report g ver # after)" "Leave g \<notin> set after"
    using assms(3) by (auto simp: joins_def)
  let ?e = "packet_event port v frame at e"
  have wf: "members_wf ?e" and c: "sp_config ?e = sp_config e" using packet_event_members [OF assms(1)] by auto
  have s: "snoop_step at ?e = (e', out)" using assms(2) by (simp add: snoop_turn_def i)
  have "standing at (member ?e v g port)"
    using report_standing [OF assms(1) refl p(2), of at] assms(4) p(1) by (simp add: packet_event_def admits_def)
  moreover have "admits v hold ?e" using assms(4) admits_config [OF c] by simp
  ultimately show ?thesis
    using survivor_standing [of at _ v hold ?e at] snoop_step_members(1,3) [OF wf s] admits_config [of e' ?e] by auto
qed

lemma snoop_turn_stays:
  assumes "members_wf e" and "snoop_turn e ev = (e', out)" and "standing at (member e v g port)" and "admits v hold e"
    and "stays (sp_family e) v g port at hold ev"
  shows "standing at (member e' v g port) \<and> admits v hold e'"
proof (cases "fst ev")
  case SnoopTick
  then have s: "snoop_step (snd ev) e = (e', out)" and now: "snd ev < at + hold" using assms(2,5) by (simp_all add: snoop_turn_def stays_def)
  show ?thesis
    using survivor_standing [OF assms(3,4), of "snd ev"] now snoop_step_members(1,3) [OF assms(1) s] admits_config [of e' e] assms(4) by auto
next
  case (Packet p w frame)
  let ?e = "packet_event p w frame (snd ev) e"
  have wf: "members_wf ?e" and c: "sp_config ?e = sp_config e" using packet_event_members [OF assms(1)] by auto
  have s: "snoop_step (snd ev) ?e = (e', out)" and now: "snd ev < at + hold" "at \<le> snd ev"
    and leave: "p = port \<and> w = v \<longrightarrow> (\<forall>msgs. parse_frame (sp_family e) frame = Some msgs \<longrightarrow> Leave g \<notin> set msgs)"
    using assms(2,5) by (simp_all add: snoop_turn_def stays_def Packet)
  have "standing at (member ?e v g port)"
    using fold_messages_standing [OF assms(1,3) now(2)] leave assms(3) by (auto simp: packet_event_def split: option.split)
  moreover have "admits v hold ?e" using assms(4) admits_config [OF c] by simp
  ultimately show ?thesis
    using survivor_standing [of at _ v hold ?e "snd ev"] now(1) snoop_step_members(1,3) [OF wf s] admits_config [of e' ?e] by auto
next
  case (SetSnoopConfig c)
  then have "e' = set_snoop_config c e" "admits v hold (set_snoop_config c (spawn_snoop (sp_family e) []))"
    using assms(2,5) by (simp_all add: snoop_turn_def stays_def)
  moreover from this have "admits v hold e'"
    using admits_config [of e' "set_snoop_config c (spawn_snoop (sp_family e) [])"] by (simp add: set_snoop_config_def)
  ultimately show ?thesis using assms(3) by (simp add: set_snoop_config_def member_def)
next
  case (SetVlanPorts ps)
  then have "e' = set_vlan_ports ps e" using assms(2) by (simp add: snoop_turn_def)
  moreover from this have "admits v hold e'" using admits_config [of e' e] assms(4) by (simp add: set_vlan_ports_def)
  ultimately show ?thesis using assms(3) by (simp add: set_vlan_ports_def member_def)
qed

section \<open>The switch\<close>

text \<open>
  The pusher makes one or two calls to syncd for an update. One that fails is logged and not made again: the
  update is lost, or only the group has been created.
\<close>

datatype push_outcome = Pushed | OnlyEnsured | NotPushed

type_synonym l2mc_table = "u16 \<times> ip_addr \<Rightarrow> string list option"

definition update_key :: "group_update \<Rightarrow> u16 \<times> ip_addr" where
  "update_key u = (gu_vlan u, gu_group u)"

definition push_l2mc_group :: "group_update \<times> push_outcome \<Rightarrow> l2mc_table \<Rightarrow> l2mc_table" where
  "push_l2mc_group sent1 t =
     (case sent1 of (u, outcome) \<Rightarrow>
        case outcome of
          Pushed \<Rightarrow> t(update_key u := if gu_remove u then None else Some (gu_ports u))
        | OnlyEnsured \<Rightarrow>
            if gu_remove u then t
            else t(update_key u := Some (case t (update_key u) of None \<Rightarrow> [] | Some ports \<Rightarrow> ports))
        | NotPushed \<Rightarrow> t)"

definition push_l2mc_groups :: "(group_update \<times> push_outcome) list \<Rightarrow> l2mc_table" where
  "push_l2mc_groups sent = fold push_l2mc_group sent (\<lambda>_. None)"

text \<open>The last update of a group, if there was one, has reached the switch.\<close>

definition up_to_date :: "(group_update \<times> push_outcome) list \<Rightarrow> u16 \<times> ip_addr \<Rightarrow> bool" where
  "up_to_date sent k \<longleftrightarrow> list_all (\<lambda>(_, outcome). outcome = Pushed) (take 1 (filter (\<lambda>(u, _). update_key u = k) (rev sent)))"

lemma push_l2mc_installs:
  "up_to_date sent k \<Longrightarrow> push_l2mc_groups sent k = install (map fst sent) (\<lambda>_. None) k"
proof (induction sent rule: rev_induct)
  case (snoc sent1 sent)
  obtain u outcome where p: "sent1 = (u, outcome)" by (cases sent1)
  show ?case
  proof (cases "update_key u = k")
    case True
    with snoc.prems have "outcome = Pushed" by (simp add: up_to_date_def p)
    with True show ?thesis by (auto simp: push_l2mc_groups_def push_l2mc_group_def install_def p update_key_def)
  next
    case False
    with snoc.prems have "up_to_date sent k" by (simp add: up_to_date_def p)
    from snoc.IH [OF this] False show ?thesis
      by (auto simp: push_l2mc_groups_def push_l2mc_group_def install_def p update_key_def split: push_outcome.split)
  qed
qed (simp add: push_l2mc_groups_def)

section \<open>Runs\<close>

text \<open>The state after a sequence of turns and the updates they have sent to the pusher.\<close>

definition snoop_exec :: "snoop \<Rightarrow> (snoop_input \<times> instant) list \<Rightarrow> snoop \<times> group_update list" where
  "snoop_exec e evs =
     foldl (\<lambda>(e, us) ev. let (e', out) = snoop_turn e ev in (e', us @ out_groups out)) (e, []) evs"

lemma snoop_exec_Nil [simp]: "snoop_exec e [] = (e, [])"
  by (simp add: snoop_exec_def)

lemma snoop_exec_snoc:
  assumes "snoop_exec e (evs @ [ev]) = (e', us')"
  obtains e1 us out where "snoop_exec e evs = (e1, us)" and "snoop_turn e1 ev = (e', out)" and "us' = us @ out_groups out"
  using assms by (auto simp: snoop_exec_def split: prod.splits)

lemma snoop_exec_agrees:
  "snoop_exec (spawn_snoop fam mac) evs = (e, us) \<Longrightarrow>
     table_agrees (install us (\<lambda>_. None)) e \<and> snoop_wf e \<and> members_wf e \<and> sp_family e = fam"
proof (induction evs arbitrary: e us rule: rev_induct)
  case Nil
  then show ?case by (auto simp: spawn_snoop_def table_agrees_def snoop_wf_def members_wf_def)
next
  case (snoc ev evs)
  obtain e1 us1 out where 1: "snoop_exec (spawn_snoop fam mac) evs = (e1, us1)"
    and 2: "snoop_turn e1 ev = (e, out)" "us = us1 @ out_groups out"
    using snoc.prems by (rule snoop_exec_snoc)
  with snoop_turn_correct [OF _ _ 2(1), of "install us1 (\<lambda>_. None)"] snoop_turn_members [OF _ 2(1)] snoc.IH [OF 1]
  show ?case by (simp add: install_append)
qed

lemma snoop_exec_origin:
  "snoop_exec (spawn_snoop fam mac) evs = (e, us) \<Longrightarrow> member e v g port = Some m \<Longrightarrow>
     \<exists>i. (i, last_report m) \<in> set evs \<and> reports fam v g port i"
proof (induction evs arbitrary: e us m rule: rev_induct)
  case Nil
  from Nil.prems(1) have "e = spawn_snoop fam mac" by simp
  then have "sp_vlans e = []" by (simp add: spawn_snoop_def)
  with Nil.prems(2) show ?case by (simp add: member_def)
next
  case (snoc ev evs)
  obtain e1 us1 out where run: "snoop_exec (spawn_snoop fam mac) evs = (e1, us1)" and turn: "snoop_turn e1 ev = (e, out)"
    using snoc.prems(1) by (rule snoop_exec_snoc)
  have "members_wf e1" and "sp_family e1 = fam" using snoop_exec_agrees [OF run] by auto
  from snoop_turn_origin [OF this(1) turn snoc.prems(2)] this(2)
  consider m0 where "member e1 v g port = Some m0" "last_report m0 = last_report m"
    | "last_report m = snd ev" "reports fam v g port (fst ev)"
    by auto
  then show ?case
  proof cases
    case (1 m0)
    with snoc.IH [OF run, of m0] show ?thesis by auto
  next
    case 2
    then show ?thesis by (intro exI [of _ "fst ev"]) simp
  qed
qed

text \<open>
  A port that joined and has not left: its last frame about the group that matters reported it, at a time
  \<open>at\<close>; the VLAN was snooped then and since, with reports remembered for at least \<open>hold\<close>; no frame of the
  port has left the group since, and \<open>hold\<close> is not over.
\<close>

definition still_member ::
  "family \<Rightarrow> mac \<Rightarrow> u16 \<Rightarrow> ip_addr \<Rightarrow> string \<Rightarrow> instant \<Rightarrow> duration \<Rightarrow> (snoop_input \<times> instant) list \<Rightarrow> bool" where
  "still_member fam mac v g port at hold evs \<longleftrightarrow>
     (\<exists>before i after. evs = before @ (i, at) # after \<and> joins fam v g port i
        \<and> admits v hold (fst (snoop_exec (spawn_snoop fam mac) before))
        \<and> list_all (stays fam v g port at hold) after)"

lemma snoop_exec_stays:
  assumes "joins fam v g port i" and "admits v hold (fst (snoop_exec (spawn_snoop fam mac) before))"
  shows "list_all (stays fam v g port at hold) after \<Longrightarrow>
    snoop_exec (spawn_snoop fam mac) ((before @ [(i, at)]) @ after) = (e, us) \<Longrightarrow>
    standing at (member e v g port) \<and> admits v hold e"
proof (induction after arbitrary: e us rule: rev_induct)
  case Nil
  then have "snoop_exec (spawn_snoop fam mac) (before @ [(i, at)]) = (e, us)" by simp
  then obtain e1 us1 out where 1: "snoop_exec (spawn_snoop fam mac) before = (e1, us1)" and 2: "snoop_turn e1 (i, at) = (e, out)"
    by (rule snoop_exec_snoc)
  with snoop_exec_agrees [OF 1] snoop_turn_joins [OF _ 2] assms show ?case by simp
next
  case (snoc ev after)
  from snoc.prems(2) have "snoop_exec (spawn_snoop fam mac) (((before @ [(i, at)]) @ after) @ [ev]) = (e, us)" by simp
  then obtain e1 us1 out where 1: "snoop_exec (spawn_snoop fam mac) ((before @ [(i, at)]) @ after) = (e1, us1)"
    and 2: "snoop_turn e1 ev = (e, out)"
    by (rule snoop_exec_snoc)
  have wf: "members_wf e1" and fam: "sp_family e1 = fam" using snoop_exec_agrees [OF 1] by auto
  have "standing at (member e1 v g port)" "admits v hold e1" using snoc.IH [OF _ 1] snoc.prems(1) by auto
  with snoop_turn_stays [OF wf 2] snoc.prems(1) fam show ?case by simp
qed

lemma distinct_remdups_adj: "sorted xs \<Longrightarrow> distinct (remdups_adj xs)"
  by (induction xs rule: remdups_adj.induct) auto

lemma sort_dedup_set: "sort_dedup xs = sorted_list_of_set (set xs)"
  unfolding sort_dedup_def by (rule sorted_distinct_set_unique) (simp_all add: distinct_remdups_adj)

lemma settled_table:
  assumes "settled e now v" and "bt_get (sp_vlans e) v = Some st"
  shows "bt_get (pushed_groups st) g =
    (let ports = {port. member e v g port \<noteq> None} in if ports = {} then None else Some (sorted_list_of_set (ports \<union> set (mrouters e v now))))"
proof (cases "bt_get (groups st) g")
  case None
  then show ?thesis using assms by (auto simp: settled_def wanted_groups_def bt_simps member_def member_in_def)
next
  case (Some ms)
  have "ms \<noteq> []" using map_of_SomeD [OF Some] assms by (auto simp: settled_def list_all_iff)
  moreover have "{port. member e v g port \<noteq> None} = set (bt_keys ms)"
    by (auto simp: member_def member_in_def assms(2) Some map_of_eq_None_iff)
  ultimately show ?thesis
    using assms Some by (auto simp: settled_def wanted_groups_def bt_simps sort_dedup_set Let_def)
qed

lemma settled_live:
  assumes "settled e now v" and "member e v g port = Some m"
  shows "live_member e now m"
proof -
  obtain st ms where "bt_get (sp_vlans e) v = Some st" "bt_get (groups st) g = Some ms" "bt_get ms port = Some m"
    using assms(2) by (auto simp: member_def member_in_def bind_eq_Some_conv)
  then show ?thesis using assms(1) map_of_SomeD [of "groups st" g ms] map_of_SomeD [of ms port m]
    by (auto simp: settled_def list_all_iff)
qed

text \<open>
  C23. The multicast table of the switch holds who asked for what. After any sequence of packets, ticks and
  configuration changes from the start, once a pass has run, and for every group of every VLAN whose last update
  reached the switch (the pusher only logs one that fails, and does not repeat it), the table forwards the group to
  exactly the ports that are members of it and the VLAN's routers, and has no entry when there are no members.
  The members are right in both directions. One is live: it reported within the membership time and its leave, if
  any, is still in its grace period; and it did report, in a frame of that port and VLAN at the time the engine
  has. A port that reported, on a VLAN that is snooped, that has not left since and whose time is not
  over is a member.
\<close>

theorem snoop_table_correct:
  assumes "snoop_exec (spawn_snoop fam mac) (evs @ [ev]) = (e, us)" and "snoop_passes (fst ev)"
  shows "(\<forall>sent. map fst sent = us \<and> up_to_date sent (v, g) \<longrightarrow>
        push_l2mc_groups sent (v, g) =
          (let ports = {port. member e v g port \<noteq> None}
           in if ports = {} then None else Some (sorted_list_of_set (ports \<union> set (mrouters e v (snd ev))))))
    \<and> (\<forall>port m. member e v g port = Some m \<longrightarrow>
         live_member e (snd ev) m \<and> (\<exists>i. (i, last_report m) \<in> set (evs @ [ev]) \<and> reports fam v g port i))
    \<and> (\<forall>port at hold. still_member fam mac v g port at hold (evs @ [ev]) \<longrightarrow> member e v g port \<noteq> None)"
proof (intro conjI allI impI)
  obtain e1 us1 out where 1: "snoop_exec (spawn_snoop fam mac) evs = (e1, us1)" and 2: "snoop_turn e1 ev = (e, out)"
    using assms(1) by (rule snoop_exec_snoc)
  have settled: "settled e (snd ev) v" if "bt_get (sp_vlans e) v = Some st" for st
    using snoop_turn_correct [OF _ _ 2] snoop_exec_agrees [OF 1] assms(2) that by blast
  {
    fix sent assume "map fst sent = us \<and> up_to_date sent (v, g)"
    then have "push_l2mc_groups sent (v, g) = install us (\<lambda>_. None) (v, g)" using push_l2mc_installs by blast
    also have "\<dots> = (case bt_get (sp_vlans e) v of None \<Rightarrow> None | Some st \<Rightarrow> bt_get (pushed_groups st) g)"
      using snoop_exec_agrees [OF assms(1)] by (simp add: table_agrees_def)
    also have "\<dots> = (let ports = {port. member e v g port \<noteq> None}
           in if ports = {} then None else Some (sorted_list_of_set (ports \<union> set (mrouters e v (snd ev)))))"
      using settled_table [OF settled] by (cases "bt_get (sp_vlans e) v") (simp_all add: member_def)
    finally show "push_l2mc_groups sent (v, g) = \<dots>" .
  next
    fix port m assume m: "member e v g port = Some m"
    then obtain st where st: "bt_get (sp_vlans e) v = Some st" by (auto simp: member_def bind_eq_Some_conv)
    show "live_member e (snd ev) m" by (rule settled_live [OF settled [OF st] m])
    show "\<exists>i. (i, last_report m) \<in> set (evs @ [ev]) \<and> reports fam v g port i" using snoop_exec_origin [OF assms(1) m] .
  next
    fix port at hold assume "still_member fam mac v g port at hold (evs @ [ev])"
    then obtain before i after where "evs @ [ev] = (before @ [(i, at)]) @ after"
      and h: "joins fam v g port i" "admits v hold (fst (snoop_exec (spawn_snoop fam mac) before))"
        "list_all (stays fam v g port at hold) after"
      by (auto simp: still_member_def)
    with assms(1) have "snoop_exec (spawn_snoop fam mac) ((before @ [(i, at)]) @ after) = (e, us)" by simp
    from snoop_exec_stays [OF h this] show "member e v g port \<noteq> None" by (auto simp: standing_def split: option.splits)
  }
qed

definition demo_report :: bytes where
  "demo_report = [0x01, 0, 0x5e, 1, 1, 1] @ [2, 0, 0, 0, 0, 5] @ [0x08, 0x00]
     @ [0x46, 0, 0, 32, 0, 0, 0, 0, 1, 2, 0, 0, 10, 0, 0, 5, 239, 1, 1, 1, 0x94, 4, 0, 0] @ [0x16, 0, 0, 0, 239, 1, 1, 1]"

definition demo_group :: ip_addr where
  "demo_group = V4 (from_be [239, 1, 1, 1])"

lemma parse_demo_report: "parse_igmp demo_report = Some [Report demo_group 2]"
  by (simp add: demo_report_def demo_group_def parse_igmp_def igmp_messages_def igmp_group_at_def Let_def idx_def slice_def slice_from_def)

definition demo_heard :: snoop where
  "demo_heard = (spawn_snoop Igmp [2, 0, 0, 0, 0, 1])
     \<lparr>sp_vlans := [(10, new_vlan_state\<lparr>groups := [(demo_group, [(''lan'', \<lparr>last_report = 0, gm_version = 2, pending_leave = None\<rparr>)])]\<rparr>)]\<rparr>"

lemma demo_packet: "packet_event ''lan'' 10 demo_report 0 (spawn_snoop Igmp [2, 0, 0, 0, 0, 1]) = demo_heard"
  by (simp add: spawn_snoop_def packet_event_def vlan_enabled_def vlan_config_of_def default_snoop_config_def
      default_vlan_config_def parse_demo_report apply_message_def hear_message_def bt_update_def bt_or_insert_def bt_map_def
      new_vlan_state_def demo_heard_def)

lemma demo_config: "vlan_config_of demo_heard 10 = default_vlan_config" "vlan_enabled demo_heard 10"
  by (simp_all add: demo_heard_def vlan_enabled_def vlan_config_of_def spawn_snoop_def default_snoop_config_def default_vlan_config_def)

lemma demo_turn:
  obtains st where "fst (snoop_turn (spawn_snoop Igmp [2, 0, 0, 0, 0, 1]) (Packet ''lan'' 10 demo_report, 0)) =
      demo_heard\<lparr>sp_vlans := [(10, st)]\<rparr>"
    and "groups st = [(demo_group, [(''lan'', \<lparr>last_report = 0, gm_version = 2, pending_leave = None\<rparr>)])]" and "dyn_mrouters st = []"
proof -
  let ?old = "new_vlan_state\<lparr>groups := [(demo_group, [(''lan'', \<lparr>last_report = 0, gm_version = 2, pending_leave = None\<rparr>)])]\<rparr>"
  let ?new = "fst (step_vlan_state demo_heard 10 0 ?old)"
  have vlans: "sp_vlans demo_heard = [(10, ?old)]" and "sno_vlans (sp_config demo_heard) = []"
    by (simp_all add: demo_heard_def spawn_snoop_def default_snoop_config_def)
  then have "fst (snoop_turn (spawn_snoop Igmp [2, 0, 0, 0, 0, 1]) (Packet ''lan'' 10 demo_report, 0)) = demo_heard\<lparr>sp_vlans := [(10, ?new)]\<rparr>"
    by (simp add: snoop_turn_def demo_packet snoop_step_def step_vlan_eq)
  moreover have "live_member demo_heard 0 \<lparr>last_report = 0, gm_version = 2, pending_leave = None\<rparr>"
    by (simp add: live_member_def membership_hold_def from_secs_def)
  ultimately show thesis
    by (intro that [of ?new]) (simp_all add: step_vlan_state_fields demo_config expire_groups expire_def new_vlan_state_def bt_retain_def bt_map_def)
qed

theorem snoop_table_correct_witness:
  "\<exists>e us. snoop_exec (spawn_snoop Igmp [2, 0, 0, 0, 0, 1]) ([] @ [(Packet ''lan'' 10 demo_report, 0)]) = (e, us)
     \<and> still_member Igmp [2, 0, 0, 0, 0, 1] 10 demo_group ''lan'' 0 1 ([] @ [(Packet ''lan'' 10 demo_report, 0)])
     \<and> member e 10 demo_group ''lan'' \<noteq> None
     \<and> push_l2mc_groups (map (\<lambda>u. (u, Pushed)) us) (10, demo_group) = Some [''lan'']"
proof -
  let ?e = "spawn_snoop Igmp [2, 0, 0, 0, 0, 1]" and ?ev = "(Packet ''lan'' 10 demo_report, 0)"
  obtain st where st: "fst (snoop_turn ?e ?ev) = demo_heard\<lparr>sp_vlans := [(10, st)]\<rparr>"
      "groups st = [(demo_group, [(''lan'', \<lparr>last_report = 0, gm_version = 2, pending_leave = None\<rparr>)])]" "dyn_mrouters st = []"
    by (rule demo_turn)
  define e us where "e = demo_heard\<lparr>sp_vlans := [(10, st)]\<rparr>" and "us = out_groups (snd (snoop_turn ?e ?ev))"
  have run: "snoop_exec ?e ([] @ [?ev]) = (e, us)"
    using st(1) by (simp add: snoop_exec_def e_def us_def split_beta)
  have "snoop_passes (fst ?ev)" by (simp add: snoop_passes_def)
  note table = snoop_table_correct [OF run this, of 10 demo_group]
  have "admits 10 1 ?e"
    by (simp add: admits_def vlan_enabled_def vlan_config_of_def spawn_snoop_def default_snoop_config_def default_vlan_config_def
        membership_hold_def from_secs_def)
  moreover have "joins Igmp 10 demo_group ''lan'' (Packet ''lan'' 10 demo_report)"
    using parse_demo_report by (auto simp: joins_def intro: exI [of _ "[]"])
  ultimately have still: "still_member Igmp [2, 0, 0, 0, 0, 1] 10 demo_group ''lan'' 0 1 ([] @ [?ev])"
    by (auto simp: still_member_def intro!: exI [of _ "[]"])
  have ports: "{port. member e 10 demo_group port \<noteq> None} = {''lan''}" "mrouters e 10 (snd ?ev) = []"
    using st(2,3) by (auto simp: e_def member_def member_in_def mrouters_def sort_dedup_def demo_config default_vlan_config_def)
  have "up_to_date (map (\<lambda>u. (u, Pushed)) us) (10, demo_group)"
    by (auto simp: up_to_date_def list_all_iff dest!: in_set_takeD)
  moreover have "map fst (map (\<lambda>u. (u, Pushed)) us) = us" by (simp add: comp_def)
  ultimately have "push_l2mc_groups (map (\<lambda>u. (u, Pushed)) us) (10, demo_group) =
      (let ports = {''lan''} in if ports = {} then None else Some (sorted_list_of_set (ports \<union> set [])))"
    using conjunct1 [OF table] unfolding ports by blast
  then have "push_l2mc_groups (map (\<lambda>u. (u, Pushed)) us) (10, demo_group) = Some [''lan'']" by simp
  with run still table show ?thesis by blast
qed

end
