(* ===== verification/Orch_Snoopsec.thy ===== *)
theory Orch_Snoopsec
  imports Common_Ip Map_Sync Net_Frame
begin

text \<open>
  DHCP snooping, dynamic ARP inspection and the DHCP relay
  (\<^verbatim>\<open>src/src/hemlock-orch/src/snoopsec.rs\<close>): the parsers, the binding table with its
  persistence, the handlers of trapped frames and relayed replies, and the redirect program. A read
  out of range, or a clamp to an empty range, panics in the source and poisons the lock, after which the engine
  ignores everything; here it is the value \<open>None\<close> of the handlers. \<open>serde_json\<close> and the effect of a
  file write are parameters. Additions on \<open>u64\<close> wrap, as in a release build.
\<close>

section \<open>State\<close>

type_synonym ipv4 = "32 word"

datatype validate = SrcMac | DstMac | Ip

record relay_vlan =
  servers :: "ipv4 list"
  giaddr :: ipv4

record static_binding =
  sb_ip :: ipv4
  sb_interface :: string

text \<open>The sets of the configuration are sorted lists.\<close>

record sec_config =
  dhcp_vlans :: "u16 list"
  arp_vlans :: "u16 list"
  validate :: "validate list"
  dhcp_trusted :: "string list"
  arp_trusted :: "string list"
  statics :: "(string \<times> u16, static_binding) btree"
  relay :: "(u16, relay_vlan) btree"

definition default_sec_config :: sec_config where
  "default_sec_config = \<lparr>dhcp_vlans = [], arp_vlans = [], validate = [], dhcp_trusted = [], arp_trusted = [],
     statics = [], relay = []\<rparr>"

record l2_view =
  vlan_ports :: "(u16, string list) btree"
  po_members :: "(string, string list) btree"

definition default_l2_view :: l2_view where
  "default_l2_view = \<lparr>vlan_ports = [], po_members = []\<rparr>"

record redirect_program =
  rp_dhcp :: "(u16 \<times> string list \<times> string list) list"
  rp_arp :: "(u16 \<times> string list) list"

record dynamic_binding =
  db_ip :: ipv4
  db_interface :: string
  expires_at :: u64

type_synonym persisted = "(string, dynamic_binding) btree"

record dhcp_vlan_stats =
  dv_packets :: u64
  dv_dropped :: u64

record relay_vlan_stats =
  to_server :: u64
  to_client :: u64
  rv_dropped :: u64

record dai_vlan_stats =
  dai_forwarded :: u64
  dai_dropped :: u64
  bad_binding :: u64
  bad_src_mac :: u64

text \<open>
  What is not of this program: the JSON text of the persisted table, and what the file holds after the
  attempt to write a text over its old contents.
\<close>

record bind_env =
  bind_text :: "persisted \<Rightarrow> string option"
  bind_read :: "string \<Rightarrow> persisted option"
  bind_write :: "string \<Rightarrow> string option \<Rightarrow> string option"

text \<open>\<open>bind_file\<close>: no store at all, or the contents of the file of the store.\<close>

record snoopsec =
  sec_config :: sec_config
  view :: l2_view
  dynamics :: "(string \<times> u16, dynamic_binding) btree"
  pending :: "(string \<times> u16, string) btree"
  dhcp_stats :: "(u16, dhcp_vlan_stats) btree"
  untrusted_server_drops :: u64
  arp_stats :: "(u16, dai_vlan_stats) btree"
  pushed_redirects :: "redirect_program option"
  bind_file :: "string option option"
  relay_stats :: "(u16, relay_vlan_stats) btree"
  sec_mac :: mac

record relay_datagram =
  rd_server :: ipv4
  rd_giaddr :: ipv4
  rd_payload :: bytes

datatype sec_out = PacketOut string bytes | Redirects redirect_program | RelayOut relay_datagram

section \<open>Parsing\<close>

record dhcp_message =
  dm_is_reply :: bool
  dm_chaddr :: mac
  dm_yiaddr :: ipv4
  message_type :: "u8 option"
  lease_secs :: "u32 option"

text \<open>
  The options after the magic cookie; the last message type and lease time count. The reads of the
  value panic when it is too short.
\<close>

definition option_type :: "u8 \<Rightarrow> u8 \<Rightarrow> bytes \<Rightarrow> u8 option \<Rightarrow> u8 option option" where
  "option_type opt len value mt =
     (if opt = 53 \<and> len = 1 then do { b \<leftarrow> idx value 0; Some (Some b) } else Some mt)"

definition option_lease :: "u8 \<Rightarrow> u8 \<Rightarrow> bytes \<Rightarrow> u32 option \<Rightarrow> u32 option option" where
  "option_lease opt len value ls =
     (if opt = 51 \<and> len = 4
      then do { b0 \<leftarrow> idx value 0; b1 \<leftarrow> idx value 1; b2 \<leftarrow> idx value 2; b3 \<leftarrow> idx value 3;
                Some (Some (from_be [b0, b1, b2, b3])) }
      else Some ls)"

function dhcp_options :: "bytes \<Rightarrow> u8 option \<Rightarrow> u32 option \<Rightarrow> (u8 option \<times> u32 option) option" where
  "dhcp_options [] mt ls = Some (mt, ls)"
| "dhcp_options (opt # rest_after) mt ls =
     (if opt = 0 then dhcp_options rest_after mt ls
      else if opt = 255 then Some (mt, ls)
      else case rest_after of
          [] \<Rightarrow> Some (mt, ls)
        | len # value \<Rightarrow>
            if length value < unat len then Some (mt, ls)
            else do {
              mt' \<leftarrow> option_type opt len value mt;
              ls' \<leftarrow> option_lease opt len value ls;
              rest \<leftarrow> slice_from value (unat len);
              dhcp_options rest mt' ls'
            })"
  by pat_completeness auto
termination
  by (relation "measure (\<lambda>(rest, _, _). length rest)") (auto dest: slice_from_length)

definition magic_cookie :: bytes where
  "magic_cookie = [99, 130, 83, 99]"

definition parse_dhcp_payload :: "bytes \<Rightarrow> dhcp_message option option" where
  "parse_dhcp_payload dhcp =
     (if length dhcp < 240 then Some None
      else do {
        op \<leftarrow> idx dhcp 0;
        if op \<noteq> 1 \<and> op \<noteq> 2 then Some None
        else do {
          chaddr \<leftarrow> slice dhcp 28 34;
          yiaddr \<leftarrow> slice dhcp 16 20;
          cookie \<leftarrow> slice dhcp 236 240;
          if cookie \<noteq> magic_cookie then Some None
          else do {
            options \<leftarrow> slice_from dhcp 240;
            (mt, ls) \<leftarrow> dhcp_options options None None;
            Some (Some \<lparr>dm_is_reply = (op = 2), dm_chaddr = chaddr, dm_yiaddr = from_be yiaddr,
                        message_type = mt, lease_secs = ls\<rparr>)
          }
        }
      })"

definition ihl_of :: "u8 \<Rightarrow> nat" where
  "ihl_of b0 = unat (b0 AND 0xf) * 4"

definition parse_dhcp :: "bytes \<Rightarrow> dhcp_message option option" where
  "parse_dhcp frame =
     (if length frame < 14 + 20 + 8 then Some None
      else do {
        ip \<leftarrow> slice_from frame 14;
        b0 \<leftarrow> idx ip 0;
        protocol \<leftarrow> idx ip 9;
        if drop_bit 4 b0 \<noteq> 4 \<or> protocol \<noteq> 17 then Some None
        else if length ip < ihl_of b0 then Some None
        else
          let udp = drop (ihl_of b0) ip in
          if length udp < 4 then Some None
          else
            let dport = from_be [udp ! 2, udp ! 3] :: u16 in
            if dport \<noteq> 67 \<and> dport \<noteq> 68 then Some None
            else if length udp < 8 then Some None
            else parse_dhcp_payload (drop 8 udp)
      })"

record arp_message =
  am_is_reply :: bool
  sha :: mac
  spa :: ipv4
  tha :: mac

definition parse_arp :: "bytes \<Rightarrow> arp_message option option" where
  "parse_arp frame =
     (if length frame < 42 then Some None
      else do {
        arp \<leftarrow> slice frame 14 42;
        hw \<leftarrow> slice arp 0 2;
        proto \<leftarrow> slice arp 2 4;
        hlen \<leftarrow> idx arp 4;
        plen \<leftarrow> idx arp 5;
        if hw \<noteq> [0, 1] \<or> proto \<noteq> [8, 0] \<or> hlen \<noteq> 6 \<or> plen \<noteq> 4 then Some None
        else do {
          oper \<leftarrow> be16_at arp 6;
          s \<leftarrow> slice arp 8 14;
          p \<leftarrow> slice arp 14 18;
          t \<leftarrow> slice arp 18 24;
          Some (Some \<lparr>am_is_reply = (oper = 2), sha = s, spa = from_be p, tha = t\<rparr>)
        }
      })"

section \<open>Relay framing\<close>

text \<open>\<open>clamp\<close> panics on an empty range.\<close>

definition clamp :: "nat \<Rightarrow> nat \<Rightarrow> nat \<Rightarrow> nat option" where
  "clamp n least most = (if most < least then None else Some (max least (min n most)))"

definition bootp_payload :: "bytes \<Rightarrow> bytes option option" where
  "bootp_payload frame =
     (if length frame < 14 then Some None
      else
        let ip = drop 14 frame in
        if length ip < 20 then Some None
        else do {
          b0 \<leftarrow> idx ip 0;
          protocol \<leftarrow> idx ip 9;
          if drop_bit 4 b0 \<noteq> 4 \<or> protocol \<noteq> 17 then Some None
          else do {
            total \<leftarrow> be16_at ip 2;
            upto \<leftarrow> clamp total (ihl_of b0 + 8) (length ip);
            Some (slice ip (ihl_of b0 + 8) upto)
          }
        })"

definition saturating_inc :: "u8 \<Rightarrow> u8" where
  "saturating_inc b = (if b = 255 then 255 else b + 1)"

text \<open>Bytes written over those from an index on, which must be there.\<close>

definition write_at :: "bytes \<Rightarrow> nat \<Rightarrow> bytes \<Rightarrow> bytes option" where
  "write_at bs a new =
     (if a + length new \<le> length bs then Some (take a bs @ new @ drop (a + length new) bs) else None)"

definition with_giaddr :: "bytes \<Rightarrow> ipv4 \<Rightarrow> bytes option" where
  "with_giaddr payload gi =
     (if length payload < 28 then Some payload
      else do {
        hops \<leftarrow> idx payload 3;
        out \<leftarrow> write_at payload 3 [saturating_inc hops];
        set_gi \<leftarrow> slice out 24 28;
        if set_gi = [0, 0, 0, 0] then write_at out 24 (to_be 4 gi) else Some out
      })"

record bootp_reply =
  br_is_reply :: bool
  br_chaddr :: mac
  br_yiaddr :: ipv4
  broadcast_flag :: bool
  br_message_type :: "u8 option"
  br_lease_secs :: "u32 option"

definition parse_bootp :: "bytes \<Rightarrow> bootp_reply option option" where
  "parse_bootp payload =
     (if length payload < 240 then Some None
      else do {
        cookie \<leftarrow> slice payload 236 240;
        if cookie \<noteq> magic_cookie then Some None
        else do {
          chaddr \<leftarrow> slice payload 28 34;
          options \<leftarrow> slice_from payload 240;
          (mt, ls) \<leftarrow> dhcp_options options None None;
          op \<leftarrow> idx payload 0;
          yiaddr \<leftarrow> slice payload 16 20;
          flags \<leftarrow> idx payload 10;
          Some (Some \<lparr>br_is_reply = (op = 2), br_chaddr = chaddr, br_yiaddr = from_be yiaddr,
                      broadcast_flag = (flags AND 0x80 \<noteq> 0), br_message_type = mt, br_lease_secs = ls\<rparr>)
        }
      })"

text \<open>The header checksum, with the test of its loop as this file has it.\<close>

function fold_high :: "u32 \<Rightarrow> u32" where
  "fold_high s = (if drop_bit 16 s \<noteq> 0 then fold_high ((s AND 0xffff) + drop_bit 16 s) else s)"
  by auto
termination
  by (relation "measure unat") (simp_all add: fold_carries_decreases drop_bit_high)

declare fold_high.simps [simp del]

definition ip_checksum :: "bytes \<Rightarrow> u16" where
  "ip_checksum header = NOT (ucast (fold_high (be16_sum header)))"

definition reply_target :: "bootp_reply \<Rightarrow> mac \<times> ipv4" where
  "reply_target reply =
     (if broadcast_flag reply \<or> br_yiaddr reply = 0 then (replicate 6 0xff, 0xffffffff)
      else (br_chaddr reply, br_yiaddr reply))"

definition reply_ip_header :: "ipv4 \<Rightarrow> ipv4 \<Rightarrow> nat \<Rightarrow> bytes" where
  "reply_ip_header gi dst_ip total_len =
     (let ip = [0x45, 0x00] @ to_be 2 (of_nat total_len :: u16) @ [0, 0, 0x40, 0x00] @ [64, 17] @ [0, 0]
               @ to_be 4 gi @ to_be 4 dst_ip
      in with_checksum 10 (ip_checksum ip) ip)"

definition pad_to :: "nat \<Rightarrow> bytes \<Rightarrow> bytes" where
  "pad_to n frame = frame @ replicate (n - length frame) 0"

definition build_client_reply :: "mac \<Rightarrow> ipv4 \<Rightarrow> bootp_reply \<Rightarrow> bytes \<Rightarrow> bytes" where
  "build_client_reply system_mac gi reply payload =
     (let (dst_mac, dst_ip) = reply_target reply;
          udp_len = 8 + length payload;
          total_len = 20 + udp_len
      in pad_to 60
          (dst_mac @ system_mac @ [0x08, 0x00] @ reply_ip_header gi dst_ip total_len
           @ to_be 2 (67 :: u16) @ to_be 2 (68 :: u16) @ to_be 2 (of_nat udp_len :: u16) @ [0, 0] @ payload))"

section \<open>Persistence\<close>

definition mac_text :: "bytes \<Rightarrow> string" where
  "mac_text bs = join_with (CHR '':'') (map (\<lambda>b. [hex_digit (unat b div 16), hex_digit (unat b mod 16)]) bs)"

definition binding_key :: "string \<times> u16 \<Rightarrow> string" where
  "binding_key k = fst k @ CHR ''@'' # show_nat (unat (snd k))"

definition read_key :: "string \<Rightarrow> (string \<times> u16) option" where
  "read_key key = do {
     (m, v) \<leftarrow> rsplit_once (CHR ''@'') key;
     vlan \<leftarrow> parse_uint 65536 v;
     Some (m, of_nat vlan)
   }"

definition load_bindings :: "bind_env \<Rightarrow> string option \<Rightarrow> u64 \<Rightarrow> (string \<times> u16, dynamic_binding) btree" where
  "load_bindings env contents now =
     (case contents of
        None \<Rightarrow> []
      | Some text \<Rightarrow>
          (case bind_read env text of
             None \<Rightarrow> []
           | Some bindings \<Rightarrow>
               bt_collect (List.map_filter (\<lambda>(key, b). map_option (\<lambda>k. (k, b)) (read_key key))
                 (filter (\<lambda>(_, b). now < expires_at b) bindings))))"

definition persist :: "(string \<times> u16, dynamic_binding) btree \<Rightarrow> persisted" where
  "persist m = bt_collect (map (\<lambda>(k, b). (binding_key k, b)) m)"

definition save_bindings :: "bind_env \<Rightarrow> snoopsec \<Rightarrow> snoopsec" where
  "save_bindings env e =
     (case bind_file e of
        None \<Rightarrow> e
      | Some contents \<Rightarrow>
          (case bind_text env (persist (dynamics e)) of
             None \<Rightarrow> e
           | Some text \<Rightarrow> e\<lparr>bind_file := Some (bind_write env text contents)\<rparr>))"

definition spawn_sec :: "bind_env \<Rightarrow> string option option \<Rightarrow> mac \<Rightarrow> u64 \<Rightarrow> snoopsec" where
  "spawn_sec env store system_mac now =
     \<lparr>sec_config = default_sec_config, view = default_l2_view,
      dynamics = (case store of None \<Rightarrow> [] | Some contents \<Rightarrow> load_bindings env contents now),
      pending = [], dhcp_stats = [], untrusted_server_drops = 0, arp_stats = [], pushed_redirects = None,
      bind_file = store, relay_stats = [], sec_mac = system_mac\<rparr>"

section \<open>The redirect program\<close>

definition expand_trusted :: "l2_view \<Rightarrow> string list \<Rightarrow> string list" where
  "expand_trusted v trusted =
     bs_collect (concat (map (\<lambda>name. case bt_get (po_members v) name of Some ms \<Rightarrow> ms | None \<Rightarrow> [name]) trusted))"

definition carriers :: "l2_view \<Rightarrow> u16 \<Rightarrow> string list" where
  "carriers v vlan = (case bt_get (vlan_ports v) vlan of None \<Rightarrow> [] | Some ports \<Rightarrow> ports)"

definition compute_redirects :: "sec_config \<Rightarrow> l2_view \<Rightarrow> redirect_program" where
  "compute_redirects c v =
     (let dhcp_trust = expand_trusted v (dhcp_trusted c); arp_trust = expand_trusted v (arp_trusted c) in
      \<lparr>rp_dhcp = map (\<lambda>vlan. (vlan, filter (\<lambda>p. p \<notin> set dhcp_trust) (carriers v vlan),
                                    filter (\<lambda>p. p \<in> set dhcp_trust) (carriers v vlan))) (dhcp_vlans c),
       rp_arp = map (\<lambda>vlan. (vlan, filter (\<lambda>p. p \<notin> set arp_trust) (carriers v vlan))) (arp_vlans c)\<rparr>)"

definition push_redirects :: "snoopsec \<Rightarrow> snoopsec \<times> sec_out list" where
  "push_redirects e =
     (let program = compute_redirects (sec_config e) (view e) in
      if pushed_redirects e = Some program then (e, [])
      else (e\<lparr>pushed_redirects := Some program\<rparr>, [Redirects program]))"

definition set_sec_config :: "sec_config \<Rightarrow> snoopsec \<Rightarrow> snoopsec \<times> sec_out list" where
  "set_sec_config c e = (if sec_config e = c then (e, []) else push_redirects (e\<lparr>sec_config := c\<rparr>))"

definition set_l2_view :: "l2_view \<Rightarrow> snoopsec \<Rightarrow> snoopsec \<times> sec_out list" where
  "set_l2_view v e = (if view e = v then (e, []) else push_redirects (e\<lparr>view := v\<rparr>))"

section \<open>DHCP\<close>

definition count_dhcp :: "u16 \<Rightarrow> (dhcp_vlan_stats \<Rightarrow> dhcp_vlan_stats) \<Rightarrow> snoopsec \<Rightarrow> snoopsec" where
  "count_dhcp vlan f e =
     e\<lparr>dhcp_stats := bt_update vlan f (bt_or_insert vlan \<lparr>dv_packets = 0, dv_dropped = 0\<rparr> (dhcp_stats e))\<rparr>"

definition count_relay :: "u16 \<Rightarrow> (relay_vlan_stats \<Rightarrow> relay_vlan_stats) \<Rightarrow> snoopsec \<Rightarrow> snoopsec" where
  "count_relay vlan f e =
     e\<lparr>relay_stats := bt_update vlan f
         (bt_or_insert vlan \<lparr>to_server = 0, to_client = 0, rv_dropped = 0\<rparr> (relay_stats e))\<rparr>"

definition dhcp_drop :: "dhcp_vlan_stats \<Rightarrow> dhcp_vlan_stats" where
  "dhcp_drop s = s\<lparr>dv_dropped := dv_dropped s + 1\<rparr>"

definition relay_drop :: "relay_vlan_stats \<Rightarrow> relay_vlan_stats" where
  "relay_drop s = s\<lparr>rv_dropped := rv_dropped s + 1\<rparr>"

definition trusted_port :: "snoopsec \<Rightarrow> string \<Rightarrow> bool" where
  "trusted_port e port \<longleftrightarrow>
     port \<in> set (expand_trusted (view e) (dhcp_trusted (sec_config e))) \<or> port \<in> set (dhcp_trusted (sec_config e))"

text \<open>An acknowledged address: bound to the port its client was last heard on.\<close>

definition bind_lease :: "bind_env \<Rightarrow> string \<times> u16 \<Rightarrow> ipv4 \<Rightarrow> u32 option \<Rightarrow> u64 \<Rightarrow> snoopsec \<Rightarrow> snoopsec" where
  "bind_lease env key ip lease now e =
     (let interface =
            (case bt_get (pending e) key of
               Some port \<Rightarrow> port
             | None \<Rightarrow> (case bt_get (dynamics e) key of Some b \<Rightarrow> db_interface b | None \<Rightarrow> []));
          secs = (case lease of Some s \<Rightarrow> s | None \<Rightarrow> 86400)
      in save_bindings env
          (e\<lparr>pending := bt_remove key (pending e),
             dynamics := bt_insert key \<lparr>db_ip = ip, db_interface = interface, expires_at = now + ucast secs\<rparr>
               (dynamics e)\<rparr>))"

definition learn :: "bind_env \<Rightarrow> string \<times> u16 \<Rightarrow> u8 option \<Rightarrow> ipv4 \<Rightarrow> u32 option \<Rightarrow> u64 \<Rightarrow> snoopsec \<Rightarrow> snoopsec" where
  "learn env key mt ip lease now e =
     (if mt = Some 5 then (if ip \<noteq> 0 then bind_lease env key ip lease now e else e)
      else if mt = Some 6 then e\<lparr>pending := bt_remove key (pending e)\<rparr>
      else e)"

definition server_message ::
  "bind_env \<Rightarrow> string \<Rightarrow> u16 \<Rightarrow> dhcp_message \<Rightarrow> u64 \<Rightarrow> snoopsec \<Rightarrow> snoopsec \<times> sec_out list" where
  "server_message env port vlan dhcp now e =
     (if \<not> trusted_port e port
      then ((count_dhcp vlan dhcp_drop e)\<lparr>untrusted_server_drops := untrusted_server_drops e + 1\<rparr>, [])
      else (learn env (mac_text (dm_chaddr dhcp), vlan) (message_type dhcp) (dm_yiaddr dhcp) (lease_secs dhcp) now e, []))"

definition relay_request :: "u16 \<Rightarrow> relay_vlan \<Rightarrow> bytes \<Rightarrow> snoopsec \<Rightarrow> (snoopsec \<times> sec_out list) option" where
  "relay_request vlan r frame e =
     (if giaddr r = 0 \<or> servers r = [] then Some (count_relay vlan relay_drop e, [])
      else do {
        payload \<leftarrow> bootp_payload frame;
        case payload of
          None \<Rightarrow> Some (count_relay vlan relay_drop e, [])
        | Some p \<Rightarrow> do {
            relayed \<leftarrow> with_giaddr p (giaddr r);
            Some (count_relay vlan (\<lambda>s. s\<lparr>to_server := to_server s + 1\<rparr>) e,
                  map (\<lambda>server. RelayOut \<lparr>rd_server = server, rd_giaddr = giaddr r, rd_payload = relayed\<rparr>) (servers r))
          }
      })"

definition note_client :: "bind_env \<Rightarrow> string \<Rightarrow> string \<times> u16 \<Rightarrow> u8 option \<Rightarrow> snoopsec \<Rightarrow> snoopsec" where
  "note_client env port key mt e =
     (if mt = Some 7 \<or> mt = Some 4 then save_bindings env (e\<lparr>dynamics := bt_remove key (dynamics e)\<rparr>)
      else e\<lparr>pending := bt_insert key port (pending e)\<rparr>)"

definition client_message ::
  "bind_env \<Rightarrow> string \<Rightarrow> u16 \<Rightarrow> bytes \<Rightarrow> dhcp_message \<Rightarrow> snoopsec \<Rightarrow> (snoopsec \<times> sec_out list) option" where
  "client_message env port vlan frame dhcp e = do {
     src \<leftarrow> slice frame 6 12;
     if dm_chaddr dhcp \<noteq> src then Some (count_dhcp vlan dhcp_drop e, [])
     else
       let e1 = note_client env port (mac_text (dm_chaddr dhcp), vlan) (message_type dhcp) e in
       case bt_get (relay (sec_config e1)) vlan of
         Some r \<Rightarrow> relay_request vlan r frame e1
       | None \<Rightarrow>
           if trusted_port e port then Some (e1, [])
           else Some (e1, map (\<lambda>p. PacketOut p frame)
                  (filter (\<lambda>p. p \<noteq> port \<and> p \<in> set (carriers (view e1) vlan))
                    (expand_trusted (view e1) (dhcp_trusted (sec_config e1)))))
   }"

definition handle_dhcp ::
  "bind_env \<Rightarrow> string \<Rightarrow> u16 \<Rightarrow> bytes \<Rightarrow> u64 \<Rightarrow> snoopsec \<Rightarrow> (snoopsec \<times> sec_out list) option" where
  "handle_dhcp env port vlan frame now e = do {
     parsed \<leftarrow> parse_dhcp frame;
     case parsed of
       None \<Rightarrow> Some (e, [])
     | Some dhcp \<Rightarrow>
         if vlan \<notin> set (dhcp_vlans (sec_config e)) then Some (e, [])
         else
           let e1 = count_dhcp vlan (\<lambda>s. s\<lparr>dv_packets := dv_packets s + 1\<rparr>) e in
           if dm_is_reply dhcp then Some (server_message env port vlan dhcp now e1)
           else client_message env port vlan frame dhcp e1
   }"

section \<open>ARP\<close>

definition count_arp :: "u16 \<Rightarrow> (dai_vlan_stats \<Rightarrow> dai_vlan_stats) \<Rightarrow> snoopsec \<Rightarrow> snoopsec" where
  "count_arp vlan f e =
     e\<lparr>arp_stats := bt_update vlan f
         (bt_or_insert vlan \<lparr>dai_forwarded = 0, dai_dropped = 0, bad_binding = 0, bad_src_mac = 0\<rparr> (arp_stats e))\<rparr>"

definition arp_drop :: "dai_vlan_stats \<Rightarrow> dai_vlan_stats" where
  "arp_drop s = s\<lparr>dai_dropped := dai_dropped s + 1\<rparr>"

definition first_octet :: "ipv4 \<Rightarrow> nat" where
  "first_octet ip = unat ip div 2 ^ 24"

definition bad_sender_ip :: "arp_message \<Rightarrow> bool" where
  "bad_sender_ip arp \<longleftrightarrow>
     spa arp = 0xffffffff \<or> 224 \<le> first_octet (spa arp) \<and> first_octet (spa arp) \<le> 239
     \<or> first_octet (spa arp) = 127 \<or> am_is_reply arp \<and> spa arp = 0"

text \<open>The sender must hold its address: a dynamic binding decides, else a static one.\<close>

definition bound_sender :: "snoopsec \<Rightarrow> string \<times> u16 \<Rightarrow> ipv4 \<Rightarrow> bool" where
  "bound_sender e key ip =
     (case bt_get (dynamics e) key of
        Some b \<Rightarrow> db_ip b = ip
      | None \<Rightarrow> (case bt_get (statics (sec_config e)) key of Some b \<Rightarrow> sb_ip b = ip | None \<Rightarrow> False))"

definition checks_of :: "sec_config \<Rightarrow> validate list" where
  "checks_of c = (if validate c = [] then [SrcMac] else validate c)"

definition handle_arp :: "string \<Rightarrow> u16 \<Rightarrow> bytes \<Rightarrow> snoopsec \<Rightarrow> (snoopsec \<times> sec_out list) option" where
  "handle_arp port vlan frame e = do {
     parsed \<leftarrow> parse_arp frame;
     case parsed of
       None \<Rightarrow> Some (e, [])
     | Some arp \<Rightarrow>
         if vlan \<notin> set (arp_vlans (sec_config e)) then Some (e, [])
         else do {
           src \<leftarrow> slice frame 6 12;
           dst \<leftarrow> slice frame 0 6;
           let sender = mac_text (sha arp);
           let checks = checks_of (sec_config e);
           if SrcMac \<in> set checks \<and> sender \<noteq> mac_text src
           then Some (count_arp vlan (\<lambda>s. (arp_drop s)\<lparr>bad_src_mac := bad_src_mac s + 1\<rparr>) e, [])
           else if DstMac \<in> set checks \<and> am_is_reply arp \<and> mac_text (tha arp) \<noteq> mac_text dst
           then Some (count_arp vlan arp_drop e, [])
           else if Ip \<in> set checks \<and> bad_sender_ip arp then Some (count_arp vlan arp_drop e, [])
           else if \<not> bound_sender e (sender, vlan) (spa arp)
           then Some (count_arp vlan (\<lambda>s. (arp_drop s)\<lparr>bad_binding := bad_binding s + 1\<rparr>) e, [])
           else Some (count_arp vlan (\<lambda>s. s\<lparr>dai_forwarded := dai_forwarded s + 1\<rparr>) e,
                      map (\<lambda>p. PacketOut p frame) (filter (\<lambda>p. p \<noteq> port) (carriers (view e) vlan)))
         }
   }"

definition handle_frame ::
  "bind_env \<Rightarrow> string \<Rightarrow> u16 \<Rightarrow> bytes \<Rightarrow> u64 \<Rightarrow> snoopsec \<Rightarrow> (snoopsec \<times> sec_out list) option" where
  "handle_frame env port vlan frame now e =
     (if length frame < 14 then Some (e, [])
      else do {
        ethertype \<leftarrow> be16_at frame 12;
        if ethertype = 0x0806 then handle_arp port vlan frame e
        else if ethertype = 0x0800 then handle_dhcp env port vlan frame now e
        else Some (e, [])
      })"

section \<open>Relayed replies, leases, snapshot\<close>

definition relay_of :: "sec_config \<Rightarrow> ipv4 \<Rightarrow> (u16 \<times> relay_vlan) option" where
  "relay_of c gi = find (\<lambda>(_, r). giaddr r = gi) (relay c)"

text \<open>The port of a client that can be reached by unicast.\<close>

definition unicast_port :: "snoopsec \<Rightarrow> string \<times> u16 \<Rightarrow> bootp_reply \<Rightarrow> string option" where
  "unicast_port e key reply =
     (if broadcast_flag reply then None
      else case bt_get (dynamics e) key of
          None \<Rightarrow> None
        | Some b \<Rightarrow> if db_interface b = [] then None else Some (db_interface b))"

definition handle_relay_reply ::
  "bind_env \<Rightarrow> ipv4 \<Rightarrow> bytes \<Rightarrow> u64 \<Rightarrow> snoopsec \<Rightarrow> (snoopsec \<times> sec_out list) option" where
  "handle_relay_reply env gi payload now e =
     (case relay_of (sec_config e) gi of
        None \<Rightarrow> Some (e, [])
      | Some (vlan, _) \<Rightarrow> do {
          parsed \<leftarrow> parse_bootp payload;
          case parsed of
            None \<Rightarrow> Some (count_relay vlan relay_drop e, [])
          | Some reply \<Rightarrow>
              if \<not> br_is_reply reply then Some (count_relay vlan relay_drop e, [])
              else
                let key = (mac_text (br_chaddr reply), vlan);
                    e1 = learn env key (br_message_type reply) (br_yiaddr reply) (br_lease_secs reply) now e;
                    frame = build_client_reply (sec_mac e1) gi reply payload;
                    targets = (case unicast_port e1 key reply of Some port \<Rightarrow> [port] | None \<Rightarrow> carriers (view e1) vlan)
                in Some (count_relay vlan (\<lambda>s. s\<lparr>to_client := to_client s + 1\<rparr>) e1,
                         map (\<lambda>p. PacketOut p frame) targets)
        })"

definition expire_leases :: "bind_env \<Rightarrow> u64 \<Rightarrow> snoopsec \<Rightarrow> snoopsec" where
  "expire_leases env now e =
     (let live = bt_retain (\<lambda>_ b. now < expires_at b) (dynamics e); e1 = e\<lparr>dynamics := live\<rparr> in
      if length live \<noteq> length (dynamics e) then save_bindings env e1 else e1)"

definition clear_bindings :: "bind_env \<Rightarrow> string option \<Rightarrow> snoopsec \<Rightarrow> u32 \<times> snoopsec" where
  "clear_bindings env m e =
     (let kept = (case m of Some mac \<Rightarrow> bt_retain (\<lambda>(k, _) _. k \<noteq> mac) (dynamics e) | None \<Rightarrow> []);
          cleared = of_nat (length (dynamics e) - length kept) :: u32;
          e1 = e\<lparr>dynamics := kept\<rparr>
      in (cleared, if 0 < cleared then save_bindings env e1 else e1))"

record binding_snapshot =
  bs_mac :: string
  bs_vlan :: u16
  bs_ip :: ipv4
  bs_interface :: string
  bs_lease :: "u64 option"

record sec_snapshot =
  ss_dhcp_vlans :: "u16 list"
  ss_arp_vlans :: "u16 list"
  ss_validate :: "validate list"
  ss_dhcp_trusted :: "string list"
  ss_arp_trusted :: "string list"
  ss_bindings :: "binding_snapshot list"
  ss_dhcp_stats :: "(u16, dhcp_vlan_stats) btree"
  ss_server_drops :: u64
  ss_arp_stats :: "(u16, dai_vlan_stats) btree"
  ss_relay :: "(u16, relay_vlan \<times> relay_vlan_stats) btree"

definition saturating_sub :: "u64 \<Rightarrow> u64 \<Rightarrow> u64" where
  "saturating_sub a b = (if a < b then 0 else a - b)"

definition snapshot_sec :: "u64 \<Rightarrow> snoopsec \<Rightarrow> sec_snapshot" where
  "snapshot_sec now e =
     \<lparr>ss_dhcp_vlans = dhcp_vlans (sec_config e), ss_arp_vlans = arp_vlans (sec_config e),
      ss_validate = checks_of (sec_config e), ss_dhcp_trusted = dhcp_trusted (sec_config e),
      ss_arp_trusted = arp_trusted (sec_config e),
      ss_bindings = sort_key (\<lambda>b. (bs_vlan b, bs_ip b))
        (map (\<lambda>((m, v), b). \<lparr>bs_mac = m, bs_vlan = v, bs_ip = db_ip b, bs_interface = db_interface b,
                             bs_lease = Some (saturating_sub (expires_at b) now)\<rparr>) (dynamics e)
         @ map (\<lambda>((m, v), b). \<lparr>bs_mac = m, bs_vlan = v, bs_ip = sb_ip b, bs_interface = sb_interface b,
                               bs_lease = None\<rparr>) (statics (sec_config e))),
      ss_dhcp_stats = dhcp_stats e, ss_server_drops = untrusted_server_drops e, ss_arp_stats = arp_stats e,
      ss_relay = bt_map (\<lambda>v r. (r, case bt_get (relay_stats e) v of Some s \<Rightarrow> s
                                      | None \<Rightarrow> \<lparr>to_server = 0, to_client = 0, rv_dropped = 0\<rparr>)) (relay (sec_config e))\<rparr>"

section \<open>Runs\<close>

text \<open>
  The tasks and callers take the lock one at a time: an event is one call. A change of configuration or view locks twice;
  calls that overlap there are treated below.
\<close>

datatype sec_event =
    SetConfig sec_config
  | SetView l2_view
  | Trapped string u16 bytes u64
  | RelayReply ipv4 bytes u64
  | ExpireLeases u64
  | ClearBindings "string option"

fun sec_step :: "bind_env \<Rightarrow> snoopsec \<Rightarrow> sec_event \<Rightarrow> (snoopsec \<times> sec_out list) option" where
  "sec_step env e (SetConfig c) = Some (set_sec_config c e)"
| "sec_step env e (SetView v) = Some (set_l2_view v e)"
| "sec_step env e (Trapped port vlan frame now) = handle_frame env port vlan frame now e"
| "sec_step env e (RelayReply gi payload now) = handle_relay_reply env gi payload now e"
| "sec_step env e (ExpireLeases now) = Some (expire_leases env now e, [])"
| "sec_step env e (ClearBindings m) = Some (snd (clear_bindings env m e), [])"

definition sec_moves :: "bind_env \<Rightarrow> snoopsec \<Rightarrow> sec_event \<Rightarrow> snoopsec \<Rightarrow> bool" where
  "sec_moves env e ev e' \<longleftrightarrow> (\<exists>outs. sec_step env e ev = Some (e', outs))"

section \<open>No frame can panic the engine\<close>

lemmas returns_reads = returns_Some returns_bind returns_if returns_be16_at

lemma returns_write_at [simp]: "returns (write_at bs a new) \<longleftrightarrow> a + length new \<le> length bs"
  by (simp add: returns_def write_at_def)

lemma length_write_at: "write_at bs a new = Some out \<Longrightarrow> length out = length bs"
  by (auto simp: write_at_def split: if_splits)

lemma returns_dhcp_options: "returns (dhcp_options options mt ls)"
proof (induction options mt ls rule: dhcp_options.induct)
  case (2 opt rest_after mt ls)
  have "returns (option_type opt len v mt)" "returns (option_lease opt len v ls)"
    if "\<not> length v < unat len" for len v
    using that unfolding option_type_def option_lease_def by (auto intro!: returns_reads)
  with 2 show ?case
    unfolding dhcp_options.simps by (intro returns_if) (auto split: list.split intro!: returns_reads)
qed auto

lemma returns_with_giaddr: "returns (with_giaddr payload gi)"
  unfolding with_giaddr_def by (auto dest: length_write_at intro!: returns_reads)

lemma returns_parse_dhcp: "returns (parse_dhcp frame)"
  unfolding parse_dhcp_def parse_dhcp_payload_def Let_def
  by (intro returns_reads) (auto simp: slice_from_length returns_dhcp_options split: prod.split)

lemma returns_parse_arp: "returns (parse_arp frame)"
  unfolding parse_arp_def by (intro returns_reads) (auto simp: slice_def split: if_splits)

lemma returns_parse_bootp: "returns (parse_bootp payload)"
  unfolding parse_bootp_def Let_def by (intro returns_reads) (auto split: prod.split intro!: returns_reads returns_dhcp_options)

text \<open>A frame that parses holds the UDP header, so the clamp of the payload's end has a range.\<close>

lemma parse_dhcp_room:
  assumes "parse_dhcp frame = Some (Some dhcp)"
  shows "42 \<le> length frame" and "ihl_of (frame ! 14) + 248 \<le> length frame - 14"
  using assms
  by (auto simp: parse_dhcp_def parse_dhcp_payload_def Let_def idx_def slice_from_def bind_eq_Some_conv split: if_splits)

lemma returns_bootp_payload:
  assumes "parse_dhcp frame = Some (Some dhcp)"
  shows "returns (bootp_payload frame)"
  unfolding bootp_payload_def Let_def
  using parse_dhcp_room [OF assms]
  by (intro returns_reads) (auto simp: idx_def clamp_def returns_def split: if_splits)

lemma returns_relay_request:
  assumes "parse_dhcp frame = Some (Some dhcp)"
  shows "returns (relay_request vlan r frame e)"
  unfolding relay_request_def
  by (intro returns_reads returns_bootp_payload [OF assms])
    (auto split: option.split intro!: returns_reads returns_with_giaddr)

lemma returns_client_message:
  assumes "parse_dhcp frame = Some (Some dhcp)"
  shows "returns (client_message env port vlan frame dhcp e)"
  using parse_dhcp_room(1) [OF assms] unfolding client_message_def Let_def
  by (intro returns_reads) (auto intro: returns_relay_request [OF assms] split: option.split)

lemma returns_handle_dhcp: "returns (handle_dhcp env port vlan frame now e)"
  unfolding handle_dhcp_def Let_def
  by (intro returns_reads returns_parse_dhcp) (auto intro: returns_client_message split: option.split)

lemma parse_arp_room: "parse_arp frame = Some (Some arp) \<Longrightarrow> 42 \<le> length frame"
  by (auto simp: parse_arp_def split: if_splits)

lemma parse_arp_sha: "parse_arp frame = Some (Some arp) \<Longrightarrow> length (sha arp) = 6"
  by (auto simp: parse_arp_def bind_eq_Some_conv slice_def split: if_splits)

lemma returns_handle_arp: "returns (handle_arp port vlan frame e)"
  unfolding handle_arp_def Let_def
  by (intro returns_reads returns_parse_arp) (auto dest!: parse_arp_room split: option.split intro!: returns_reads)

lemma returns_handle_frame: "returns (handle_frame env port vlan frame now e)"
  unfolding handle_frame_def
  by (intro returns_reads returns_handle_arp returns_handle_dhcp) auto

lemma returns_handle_relay_reply: "returns (handle_relay_reply env gi payload now e)"
  unfolding handle_relay_reply_def Let_def
  by (auto split: option.split intro!: returns_reads returns_parse_bootp)

text \<open>
  C27. No input panics the engine: whatever its state, every configuration, view, trapped frame (of any length and
  contents), relayed reply, sweep and clear request is handled to the end, so that the lock is never
  poisoned and inspection never stops. Every index and slice the code takes of a frame, a payload or the value
  of a DHCP option is in range; integers wrap as in a release build.
\<close>

theorem snoopsec_never_panics: "\<exists>e' outs. sec_step env e ev = Some (e', outs)"
proof -
  have "returns (sec_step env e ev)"
    by (cases ev) (auto intro: returns_handle_frame returns_handle_relay_reply)
  then show ?thesis by (auto simp: returns_def)
qed

section \<open>Where bindings come from\<close>

text \<open>
  The events that grant an address: an acknowledgement received on a trusted port of a snooped VLAN, or
  a relayed one addressed to a configured relay.
\<close>

definition grants :: "snoopsec \<Rightarrow> sec_event \<Rightarrow> string \<times> u16 \<Rightarrow> ipv4 \<Rightarrow> bool" where
  "grants e ev key ip \<longleftrightarrow> ip \<noteq> 0 \<and>
     (case ev of
        Trapped port vlan frame now \<Rightarrow>
          (\<exists>d. parse_dhcp frame = Some (Some d) \<and> dm_is_reply d \<and> message_type d = Some 5
            \<and> key = (mac_text (dm_chaddr d), vlan) \<and> ip = dm_yiaddr d)
          \<and> trusted_port e port \<and> vlan \<in> set (dhcp_vlans (sec_config e))
      | RelayReply gi payload now \<Rightarrow>
          (\<exists>vlan r reply. relay_of (sec_config e) gi = Some (vlan, r) \<and> parse_bootp payload = Some (Some reply)
            \<and> br_is_reply reply \<and> br_message_type reply = Some 5
            \<and> key = (mac_text (br_chaddr reply), vlan) \<and> ip = br_yiaddr reply)
      | _ \<Rightarrow> False)"

lemma counter_fields [frame_simps]:
  "dynamics (count_dhcp vlan f e) = dynamics e" "dynamics (count_relay vlan g e) = dynamics e"
  "dynamics (count_arp vlan h e) = dynamics e"
  "sec_config (count_dhcp vlan f e) = sec_config e" "sec_config (count_relay vlan g e) = sec_config e"
  "sec_config (count_arp vlan h e) = sec_config e"
  "view (count_dhcp vlan f e) = view e" "view (count_relay vlan g e) = view e" "view (count_arp vlan h e) = view e"
  "pushed_redirects (count_dhcp vlan f e) = pushed_redirects e" "pushed_redirects (count_relay vlan g e) = pushed_redirects e"
  "pushed_redirects (count_arp vlan h e) = pushed_redirects e"
  "bind_file (count_dhcp vlan f e) = bind_file e" "bind_file (count_relay vlan g e) = bind_file e"
  "bind_file (count_arp vlan h e) = bind_file e" "pending (count_dhcp vlan f e) = pending e"
  by (simp_all add: count_dhcp_def count_relay_def count_arp_def)

lemma save_fields [frame_simps]:
  "dynamics (save_bindings env e) = dynamics e" "sec_config (save_bindings env e) = sec_config e"
  "view (save_bindings env e) = view e" "pushed_redirects (save_bindings env e) = pushed_redirects e"
  by (simp_all add: save_bindings_def split: option.split)

lemma note_client_fields [frame_simps]:
  "sec_config (note_client env port key mt e) = sec_config e" "view (note_client env port key mt e) = view e"
  "pushed_redirects (note_client env port key mt e) = pushed_redirects e"
  by (simp_all add: note_client_def frame_simps)

lemma trusted_port_count [frame_simps]: "trusted_port (count_dhcp vlan f e) port = trusted_port e port"
  by (simp add: trusted_port_def frame_simps)

lemma learn_dynamics:
  "(k, b) \<in> set (dynamics (learn env key mt ip lease now e)) \<Longrightarrow>
     (k, b) \<in> set (dynamics e) \<or> (mt = Some 5 \<and> ip \<noteq> 0 \<and> k = key \<and> db_ip b = ip)"
  using bt_insert_subset [of key _ "dynamics e"]
  by (fastforce simp: learn_def bind_lease_def Let_def frame_simps split: if_splits)

lemma note_client_dynamics: "set (dynamics (note_client env port key mt e)) \<subseteq> set (dynamics e)"
  by (auto simp: note_client_def frame_simps bt_remove_def)

lemma relay_request_dynamics:
  "relay_request vlan r frame e = Some (e', outs) \<Longrightarrow> dynamics e' = dynamics e"
  by (auto simp: relay_request_def frame_simps Let_def split: if_splits option.splits Option.bind_splits)

text \<open>The outcomes of a client message.\<close>

lemma client_message_cases:
  assumes "client_message env port vlan frame d e = Some (e', outs)"
  obtains (mismatch) "e' = count_dhcp vlan dhcp_drop e" and "outs = []"
  | (relayed) r where "dm_chaddr d = take 6 (drop 6 frame)" and "bt_get (relay (sec_config e)) vlan = Some r"
      and "relay_request vlan r frame (note_client env port (mac_text (dm_chaddr d), vlan) (message_type d) e) = Some (e', outs)"
  | (noted) "dm_chaddr d = take 6 (drop 6 frame)" and "bt_get (relay (sec_config e)) vlan = None"
      and "e' = note_client env port (mac_text (dm_chaddr d), vlan) (message_type d) e"
      and "outs = (if trusted_port e port then [] else map (\<lambda>p. PacketOut p frame)
        (filter (\<lambda>p. p \<noteq> port \<and> p \<in> set (carriers (view e) vlan)) (expand_trusted (view e) (dhcp_trusted (sec_config e)))))"
proof -
  obtain src where src: "slice frame 6 12 = Some src"
    using assms by (cases "slice frame 6 12") (simp_all add: client_message_def)
  then have take: "src = take 6 (drop 6 frame)" by (simp add: slice_def split: if_splits)
  show thesis
  proof (cases "dm_chaddr d = src")
    case True
    show thesis
    proof (cases "bt_get (relay (sec_config e)) vlan")
      case None
      with True assms src take show thesis
        by (intro noted) (simp_all add: client_message_def Let_def frame_simps split: if_splits)
    next
      case (Some r)
      with True assms src take show thesis
        by (intro relayed [of r]) (simp_all add: client_message_def Let_def frame_simps)
    qed
  qed (use assms src mismatch in \<open>simp add: client_message_def\<close>)
qed

lemma client_message_dynamics:
  assumes "client_message env port vlan frame d e = Some (e', outs)"
  shows "set (dynamics e') \<subseteq> set (dynamics e)"
  using assms
proof (cases rule: client_message_cases)
  case (relayed r)
  from relay_request_dynamics [OF relayed(3)] note_client_dynamics show ?thesis by simp
qed (simp_all add: frame_simps note_client_dynamics)

lemma handle_arp_dynamics: "handle_arp port vlan frame e = Some (e', outs) \<Longrightarrow> dynamics e' = dynamics e"
  by (auto simp: handle_arp_def Let_def frame_simps split: if_splits option.splits Option.bind_splits)

lemma handle_dhcp_dynamics:
  assumes "handle_dhcp env port vlan frame now e = Some (e', outs)" and "(k, b) \<in> set (dynamics e')"
  shows "(k, b) \<in> set (dynamics e) \<or> grants e (Trapped port vlan frame now) k (db_ip b)"
  using assms client_message_dynamics
  by (fastforce simp: handle_dhcp_def server_message_def Let_def frame_simps grants_def
      split: if_splits option.splits Option.bind_splits dest: learn_dynamics)

lemma handle_relay_reply_dynamics:
  assumes "handle_relay_reply env gi payload now e = Some (e', outs)" and "(k, b) \<in> set (dynamics e')"
  shows "(k, b) \<in> set (dynamics e) \<or> grants e (RelayReply gi payload now) k (db_ip b)"
  using assms
  by (fastforce simp: handle_relay_reply_def Let_def frame_simps grants_def
      split: if_splits option.splits Option.bind_splits prod.splits dest: learn_dynamics)

lemma push_redirects_fields [frame_simps]:
  "dynamics (fst (push_redirects e)) = dynamics e" "sec_config (fst (push_redirects e)) = sec_config e"
  "view (fst (push_redirects e)) = view e" "bind_file (fst (push_redirects e)) = bind_file e"
  by (simp_all add: push_redirects_def Let_def)

lemma set_dynamics [frame_simps]:
  "dynamics (fst (set_sec_config c e)) = dynamics e" "dynamics (fst (set_l2_view v e)) = dynamics e"
  by (simp_all add: set_sec_config_def set_l2_view_def frame_simps)

lemma step_dynamics:
  assumes "sec_step env e ev = Some (e', outs)" and "(k, b) \<in> set (dynamics e')"
  shows "(k, b) \<in> set (dynamics e) \<or> grants e ev k (db_ip b)"
proof (cases ev)
  case (SetConfig c)
  with assms show ?thesis by (metis frame_simps fst_conv option.inject sec_step.simps(1) set_dynamics(1))
next
  case (SetView v)
  with assms show ?thesis by (metis fst_conv option.inject sec_step.simps(2) set_dynamics(2))
next
  case (Trapped port vlan frame now)
  with assms show ?thesis
    by (auto simp: handle_frame_def split: if_splits Option.bind_splits
        dest: handle_dhcp_dynamics handle_arp_dynamics)
next
  case (RelayReply gi payload now)
  with assms handle_relay_reply_dynamics show ?thesis by auto
next
  case (ExpireLeases now)
  with assms show ?thesis
    by (auto simp: expire_leases_def Let_def frame_simps bt_retain_def split: if_splits)
next
  case (ClearBindings m)
  with assms show ?thesis
    by (auto simp: clear_bindings_def Let_def frame_simps bt_retain_def split: if_splits option.splits)
qed

lemma run_dynamics:
  assumes "run (sec_moves env) e evs e'" and "(k, b) \<in> set (dynamics e')"
  shows "(k, b) \<in> set (dynamics e)
    \<or> (\<exists>evs1 ev evs2 e1. evs = evs1 @ ev # evs2 \<and> run (sec_moves env) e evs1 e1 \<and> grants e1 ev k (db_ip b))"
  using assms
proof (induction rule: run.induct)
  case (run_Cons s ev s1 evs s')
  from run_Cons.IH [OF run_Cons.prems] show ?case
  proof (elim disjE exE conjE)
    assume "(k, b) \<in> set (dynamics s1)"
    moreover obtain outs where "sec_step env s ev = Some (s1, outs)" using run_Cons.hyps(1) by (auto simp: sec_moves_def)
    ultimately consider "(k, b) \<in> set (dynamics s)" | "grants s ev k (db_ip b)" using step_dynamics by blast
    then show ?thesis by cases (auto intro!: exI [of _ "[]"] exI [of _ s] run.intros)
  next
    fix evs1 ev' evs2 e1
    assume "evs = evs1 @ ev' # evs2" and "run (sec_moves env) s1 evs1 e1" and "grants e1 ev' k (db_ip b)"
    then show ?thesis
      by (intro disjI2 exI [of _ "ev # evs1"]) (auto intro: run.intros run_Cons.hyps(1))
  qed
qed simp

section \<open>What is forwarded\<close>

definition is_arp_frame :: "bytes \<Rightarrow> bool" where
  "is_arp_frame frame \<longleftrightarrow> 14 \<le> length frame \<and> be16_at frame 12 = Some 0x0806"

lemma last_branch:
  assumes "(if a then Some (e1, []) else if b then Some (e2, []) else if c then Some (e3, [])
      else if \<not> d then Some (e4, []) else Some (e5, ys)) = Some (e', outs)"
    and "out \<in> set outs"
  shows "\<not> a" and "\<not> c" and "d" and "out \<in> set ys"
  using assms by (auto split: if_splits)

lemma handle_arp_forwards:
  assumes "handle_arp port vlan frame e = Some (e', outs)" and "out \<in> set outs"
  obtains p arp where "out = PacketOut p frame" and "p \<noteq> port" and "p \<in> set (carriers (view e) vlan)"
    and "parse_arp frame = Some (Some arp)" and "vlan \<in> set (arp_vlans (sec_config e))"
    and "bound_sender e (mac_text (sha arp), vlan) (spa arp)"
    and "\<not> (SrcMac \<in> set (checks_of (sec_config e)) \<and> mac_text (sha arp) \<noteq> mac_text (take 6 (drop 6 frame)))"
    and "\<not> (Ip \<in> set (checks_of (sec_config e)) \<and> bad_sender_ip arp)"
proof -
  obtain arp where arp: "parse_arp frame = Some (Some arp)" "vlan \<in> set (arp_vlans (sec_config e))"
    using assms by (auto simp: handle_arp_def split: if_splits option.splits Option.bind_splits)
  have src: "slice frame 6 12 = Some (take 6 (drop 6 frame))" "slice frame 0 6 = Some (take 6 frame)"
    using parse_arp_room [OF arp(1)] by (simp_all add: slice_def)
  note branches = assms(1) [unfolded handle_arp_def arp(1) Let_def, simplified arp(2) src if_True not_True_eq_False
    if_False bind.bind_lunit option.case not_not]
  from last_branch [OF branches assms(2)] arp show thesis by (auto intro!: that)
qed

lemma handle_frame_arp:
  "is_arp_frame frame \<Longrightarrow> handle_frame env port vlan frame now e = handle_arp port vlan frame e"
  by (simp add: handle_frame_def is_arp_frame_def)

lemma hex_pair_inject:
  "[hex_digit (unat a div 16), hex_digit (unat a mod 16)] = [hex_digit (unat b div 16), hex_digit (unat b mod 16)]
    \<longleftrightarrow> a = (b :: u8)"
proof -
  have d: "unat a div 16 < 16" "unat b div 16 < 16"
    using unat_u8_less [of a] unat_u8_less [of b] by (simp_all add: less_mult_imp_div_less)
  have inj: "hex_digit x = hex_digit y \<longleftrightarrow> x = y" if "x < 16" "y < 16" for x y
    using hex_digit_props(2) [OF that(1)] hex_digit_props(2) [OF that(2)] by metis
  have "unat a = unat b" if "unat a div 16 = unat b div 16" "unat a mod 16 = unat b mod 16"
    using div_mult_mod_eq [of "unat a" 16] div_mult_mod_eq [of "unat b" 16] that by linarith
  then show ?thesis by (simp add: inj d) (metis word_unat_eq_iff)
qed

lemma mac_text_split: "bs \<noteq> [] \<Longrightarrow>
  split_on (CHR '':'') (mac_text bs) = map (\<lambda>b. [hex_digit (unat b div 16), hex_digit (unat b mod 16)]) bs"
proof -
  have "\<not> is_hexdigit (CHR '':'')" by (simp add: is_hexdigit_def is_digit_def code_def)
  then have "CHR '':'' \<noteq> hex_digit d" if "d < 16" for d
    using hex_digit_props(1) [OF that] by metis
  moreover have "unat b div 16 < 16" for b :: u8 using unat_u8_less [of b] by (simp add: less_mult_imp_div_less)
  ultimately show "bs \<noteq> [] \<Longrightarrow> ?thesis"
    unfolding mac_text_def by (intro split_on_join) auto
qed

lemma mac_text_inject: "length a = length b \<Longrightarrow> mac_text a = mac_text b \<longleftrightarrow> a = b"
proof
  assume l: "length a = length b" and eq: "mac_text a = mac_text b"
  show "a = b"
  proof (cases "a = []")
    case False
    with l have "b \<noteq> []" by auto
    have "map (\<lambda>b. [hex_digit (unat b div 16), hex_digit (unat b mod 16)]) a
        = map (\<lambda>b. [hex_digit (unat b div 16), hex_digit (unat b mod 16)]) b"
      unfolding mac_text_split [OF False, symmetric] mac_text_split [OF \<open>b \<noteq> []\<close>, symmetric] eq ..
    then show ?thesis by (rule map_injective) (simp only: inj_def hex_pair_inject, simp)
  qed (use l in simp)
qed simp

text \<open>
  C17. Dynamic ARP inspection. Take any run of the engine from an empty binding table, and an ARP frame
  trapped after it. If the engine forwards anything, it forwards that very frame to other ports of its
  VLAN; the VLAN is inspected; the configured checks of the source address (on by default) and of the sender IP
  hold; and the sender holds the address it claims: by a static binding, or because earlier in
  the run a server granted that address to that station on that VLAN, in an acknowledgement that came in on a
  trusted port or through a configured relay. Frames and replies of any contents, sweeps, releases,
  clears and changes of configuration may come in any order.
\<close>

theorem arp_inspection_safe:
  assumes "run (sec_moves env) (spawn_sec env None system_mac t0) evs e" and "is_arp_frame frame"
    and "sec_step env e (Trapped port vlan frame now) = Some (e', outs)" and "out \<in> set outs"
  shows "\<exists>p arp. out = PacketOut p frame \<and> p \<noteq> port \<and> p \<in> set (carriers (view e) vlan)
    \<and> vlan \<in> set (arp_vlans (sec_config e)) \<and> parse_arp frame = Some (Some arp)
    \<and> (SrcMac \<in> set (checks_of (sec_config e)) \<longrightarrow> sha arp = take 6 (drop 6 frame))
    \<and> (Ip \<in> set (checks_of (sec_config e)) \<longrightarrow> \<not> bad_sender_ip arp)
    \<and> ((\<exists>b. bt_get (statics (sec_config e)) (mac_text (sha arp), vlan) = Some b \<and> sb_ip b = spa arp)
       \<or> (\<exists>evs1 ev evs2 e1. evs = evs1 @ ev # evs2 \<and> run (sec_moves env) (spawn_sec env None system_mac t0) evs1 e1
            \<and> grants e1 ev (mac_text (sha arp), vlan) (spa arp)))"
proof -
  have "handle_arp port vlan frame e = Some (e', outs)" using assms(2,3) by (simp add: handle_frame_arp)
  then show ?thesis using assms(4)
  proof (rule handle_arp_forwards)
    fix p arp
    assume arp: "out = PacketOut p frame" "p \<noteq> port" "p \<in> set (carriers (view e) vlan)"
      "parse_arp frame = Some (Some arp)" "vlan \<in> set (arp_vlans (sec_config e))"
      "bound_sender e (mac_text (sha arp), vlan) (spa arp)"
      "\<not> (SrcMac \<in> set (checks_of (sec_config e)) \<and> mac_text (sha arp) \<noteq> mac_text (take 6 (drop 6 frame)))"
      "\<not> (Ip \<in> set (checks_of (sec_config e)) \<and> bad_sender_ip arp)"
    have "length (sha arp) = length (take 6 (drop 6 frame))"
      using parse_arp_sha [OF arp(4)] parse_arp_room [OF arp(4)] by simp
    then have src: "SrcMac \<in> set (checks_of (sec_config e)) \<longrightarrow> sha arp = take 6 (drop 6 frame)"
      using arp(7) mac_text_inject [of "sha arp" "take 6 (drop 6 frame)"] by blast
    have empty: "dynamics (spawn_sec env None system_mac t0) = []" by (simp add: spawn_sec_def)
    have "(\<exists>b. bt_get (statics (sec_config e)) (mac_text (sha arp), vlan) = Some b \<and> sb_ip b = spa arp)
       \<or> (\<exists>evs1 ev evs2 e1. evs = evs1 @ ev # evs2 \<and> run (sec_moves env) (spawn_sec env None system_mac t0) evs1 e1
            \<and> grants e1 ev (mac_text (sha arp), vlan) (spa arp))"
    proof (cases "bt_get (dynamics e) (mac_text (sha arp), vlan)")
      case None
      with arp(6) show ?thesis by (simp add: bound_sender_def split: option.splits)
    next
      case (Some b)
      then have "db_ip b = spa arp" using arp(6) by (simp add: bound_sender_def)
      with run_dynamics [OF assms(1) map_of_SomeD [OF Some]] show ?thesis by (simp add: empty)
    qed
    with arp(1-5,8) src show ?thesis by blast
  qed
qed

lemma relay_request_outs:
  assumes "relay_request vlan r frame e = Some (e', outs)" and "out \<in> set outs"
  obtains dg where "out = RelayOut dg" and "rd_server dg \<in> set (servers r)" and "rd_giaddr dg = giaddr r"
  using assms by (auto simp: relay_request_def Let_def split: if_splits option.splits Option.bind_splits)

definition dhcp_out_ok :: "snoopsec \<Rightarrow> string \<Rightarrow> u16 \<Rightarrow> bytes \<Rightarrow> sec_out \<Rightarrow> bool" where
  "dhcp_out_ok e port vlan frame out =
     (case out of
        PacketOut p f \<Rightarrow> f = frame \<and> p \<noteq> port \<and> p \<in> set (carriers (view e) vlan) \<and> trusted_port e p
      | RelayOut dg \<Rightarrow>
          (case bt_get (relay (sec_config e)) vlan of
             None \<Rightarrow> False
           | Some r \<Rightarrow> rd_server dg \<in> set (servers r) \<and> rd_giaddr dg = giaddr r)
      | Redirects _ \<Rightarrow> False)"

lemma client_message_outs:
  assumes "client_message env port vlan frame d e = Some (e', outs)" and "out \<in> set outs"
  shows "dm_chaddr d = take 6 (drop 6 frame) \<and> dhcp_out_ok e port vlan frame out"
  using assms(1)
proof (cases rule: client_message_cases)
  case (relayed r)
  obtain dg where "out = RelayOut dg" "rd_server dg \<in> set (servers r)" "rd_giaddr dg = giaddr r"
    using relayed(3) assms(2) by (rule relay_request_outs)
  with relayed(1,2) show ?thesis by (simp add: dhcp_out_ok_def)
next
  case noted
  from assms(2) [unfolded noted(4)] obtain p where "out = PacketOut p frame" "p \<noteq> port" "p \<in> set (carriers (view e) vlan)"
      "p \<in> set (expand_trusted (view e) (dhcp_trusted (sec_config e)))"
    by (simp split: if_splits) blast
  with noted(1) show ?thesis by (simp add: dhcp_out_ok_def trusted_port_def)
qed (use assms(2) in simp)

text \<open>
  C19. DHCP snooping. Of the frames trapped as DHCP on a snooped VLAN, only client messages whose hardware
  address is the source of the frame leave the engine: unchanged towards other trusted ports of the VLAN, or as
  datagrams to the servers of the VLAN's relay with the relay's address. A server message that arrives on an untrusted
  port is never forwarded and touches neither the bindings nor the record of pending clients.
\<close>

theorem dhcp_guard:
  assumes "sec_step env e (Trapped port vlan frame now) = Some (e', outs)" and "\<not> is_arp_frame frame"
    and "parse_dhcp frame = Some (Some d)"
  shows "(\<forall>out \<in> set outs. vlan \<in> set (dhcp_vlans (sec_config e)) \<and> \<not> dm_is_reply d
      \<and> dm_chaddr d = take 6 (drop 6 frame) \<and> dhcp_out_ok e port vlan frame out)
    \<and> (dm_is_reply d \<and> \<not> trusted_port e port \<longrightarrow> outs = [] \<and> dynamics e' = dynamics e \<and> pending e' = pending e)"
proof -
  let ?e = "count_dhcp vlan (\<lambda>s. s\<lparr>dv_packets := dv_packets s + 1\<rparr>) e"
  have ok: "dhcp_out_ok ?e = dhcp_out_ok e"
    by (simp add: fun_eq_iff dhcp_out_ok_def frame_simps split: sec_out.split)
  have "handle_dhcp env port vlan frame now e = Some (e', outs) \<or> (e' = e \<and> outs = [])"
    using assms(1,2) by (auto simp: handle_frame_def is_arp_frame_def split: if_splits Option.bind_splits)
  then consider "e' = e" "outs = []"
    | "vlan \<in> set (dhcp_vlans (sec_config e))" "dm_is_reply d" "server_message env port vlan d now ?e = (e', outs)"
    | "vlan \<in> set (dhcp_vlans (sec_config e))" "\<not> dm_is_reply d" "client_message env port vlan frame d ?e = Some (e', outs)"
    using assms(3) by (auto simp: handle_dhcp_def Let_def split: if_splits)
  then show ?thesis
  proof cases
    case 2
    then show ?thesis by (auto simp: server_message_def frame_simps split: if_splits)
  next
    case 3
    with client_message_outs [OF 3(3)] ok show ?thesis by auto
  qed simp
qed

text \<open>A station that got its address through a relay, and its ARP request.\<close>

definition demo_station :: mac where
  "demo_station = [2, 0, 0, 0, 0, 9]"

definition demo_ack :: bytes where
  "demo_ack = [2, 1, 6, 0] @ replicate 12 0 @ [10, 0, 0, 9] @ replicate 8 0 @ demo_station @ replicate 202 0
     @ magic_cookie @ [53, 1, 5, 255]"

definition demo_request :: bytes where
  "demo_request = replicate 6 0xff @ demo_station @ [8, 6] @ [0, 1, 8, 0, 6, 4, 0, 1] @ demo_station @ [10, 0, 0, 9]
     @ replicate 6 0 @ [10, 0, 0, 1]"

definition demo_sec_config :: sec_config where
  "demo_sec_config = default_sec_config\<lparr>dhcp_vlans := [10], arp_vlans := [10], dhcp_trusted := [''up''],
     relay := [(10, \<lparr>servers = [0x0a000002], giaddr = 0x0a000001\<rparr>)]\<rparr>"

definition demo_view :: l2_view where
  "demo_view = \<lparr>vlan_ports = [(10, [''lan'', ''up''])], po_members = []\<rparr>"

definition demo_env :: bind_env where
  "demo_env = \<lparr>bind_text = (\<lambda>_. None), bind_read = (\<lambda>_. None), bind_write = (\<lambda>t _. Some t)\<rparr>"

lemma demo_ack_reads:
  "length demo_ack = 244" "slice demo_ack 236 240 = Some magic_cookie" "slice demo_ack 28 34 = Some demo_station"
  "slice demo_ack 16 20 = Some [10, 0, 0, 9]" "slice_from demo_ack 240 = Some [53, 1, 5, 255]"
  "idx demo_ack 0 = Some 2" "idx demo_ack 10 = Some 0"
  by (simp_all add: demo_ack_def demo_station_def magic_cookie_def slice_def slice_from_def idx_def nth_append)

lemma parse_demo_ack:
  "parse_bootp demo_ack = Some (Some \<lparr>br_is_reply = True, br_chaddr = demo_station, br_yiaddr = 0x0a000009,
     broadcast_flag = False, br_message_type = Some 5, br_lease_secs = None\<rparr>)"
  by (simp add: parse_bootp_def demo_ack_reads from_be_def undigits_def option_type_def option_lease_def
      slice_from_def [of "[_, _]"] idx_def [of "[_, _]"])

lemma parse_demo_request:
  "parse_arp demo_request = Some (Some \<lparr>am_is_reply = False, sha = demo_station, spa = 0x0a000009, tha = replicate 6 0\<rparr>)"
  "is_arp_frame demo_request" "slice demo_request 6 12 = Some demo_station" "slice demo_request 0 6 = Some (replicate 6 0xff)"
  by (simp_all add: parse_arp_def demo_request_def demo_station_def slice_def idx_def be16_at_def from_be_def undigits_def is_arp_frame_def nth_append)

definition demo_configured :: snoopsec where
  "demo_configured = (spawn_sec demo_env None [2, 0, 0, 0, 0, 1] 0)\<lparr>sec_config := demo_sec_config, view := demo_view,
     pushed_redirects := Some (compute_redirects demo_sec_config demo_view)\<rparr>"

definition demo_bound :: snoopsec where
  "demo_bound = count_relay 10 (\<lambda>s. s\<lparr>to_client := to_client s + 1\<rparr>) (demo_configured\<lparr>dynamics :=
     [((mac_text demo_station, 10), \<lparr>db_ip = 0x0a000009, db_interface = [], expires_at = 86500\<rparr>)]\<rparr>)"

lemma demo_configure:
  "run (sec_moves demo_env) (spawn_sec demo_env None [2, 0, 0, 0, 0, 1] 0) [SetConfig demo_sec_config, SetView demo_view] demo_configured"
proof -
  let ?s = "spawn_sec demo_env None [2, 0, 0, 0, 0, 1] 0"
  have neq: "sec_config ?s \<noteq> demo_sec_config" "view ?s \<noteq> demo_view"
    by (simp_all add: spawn_sec_def demo_sec_config_def demo_view_def default_sec_config_def default_l2_view_def)
  have red: "compute_redirects demo_sec_config default_l2_view \<noteq> compute_redirects demo_sec_config demo_view"
    by (simp add: compute_redirects_def demo_sec_config_def demo_view_def default_sec_config_def default_l2_view_def
        carriers_def expand_trusted_def bs_collect_def Let_def)
  have "sec_step demo_env ?s (SetConfig demo_sec_config) = Some (?s\<lparr>sec_config := demo_sec_config,
      pushed_redirects := Some (compute_redirects demo_sec_config default_l2_view)\<rparr>, [Redirects (compute_redirects demo_sec_config default_l2_view)])"
    using neq by (simp add: set_sec_config_def push_redirects_def Let_def spawn_sec_def)
  moreover have "sec_step demo_env (?s\<lparr>sec_config := demo_sec_config,
      pushed_redirects := Some (compute_redirects demo_sec_config default_l2_view)\<rparr>) (SetView demo_view)
      = Some (demo_configured, [Redirects (compute_redirects demo_sec_config demo_view)])"
    using neq red by (simp add: set_l2_view_def push_redirects_def Let_def demo_configured_def spawn_sec_def)
  ultimately show ?thesis by (auto intro!: run.intros simp: sec_moves_def)
qed

lemma demo_granted:
  "run (sec_moves demo_env) demo_configured [RelayReply 0x0a000001 demo_ack 100] demo_bound"
proof -
  have "relay_of (sec_config demo_configured) 0x0a000001 = Some (10, \<lparr>servers = [0x0a000002], giaddr = 0x0a000001\<rparr>)"
    by (simp add: relay_of_def demo_configured_def demo_sec_config_def)
  moreover have "learn demo_env (mac_text demo_station, 10) (Some 5) 0x0a000009 None 100 demo_configured
      = demo_configured\<lparr>dynamics :=
     [((mac_text demo_station, 10), \<lparr>db_ip = 0x0a000009, db_interface = [], expires_at = 86500\<rparr>)]\<rparr>"
    by (simp add: learn_def bind_lease_def demo_configured_def spawn_sec_def save_bindings_def bt_remove_def)
  ultimately have "\<exists>outs. sec_step demo_env demo_configured (RelayReply 0x0a000001 demo_ack 100) = Some (demo_bound, outs)"
    by (simp add: handle_relay_reply_def parse_demo_ack Let_def demo_bound_def)
  then show ?thesis by (auto intro!: run.intros simp: sec_moves_def)
qed

lemma demo_forwarded:
  "\<exists>e'. sec_step demo_env demo_bound (Trapped ''lan'' 10 demo_request 105) = Some (e', [PacketOut ''up'' demo_request])"
proof -
  have "checks_of (sec_config demo_bound) = [SrcMac]" "10 \<in> set (arp_vlans (sec_config demo_bound))"
    "bound_sender demo_bound (mac_text demo_station, 10) 0x0a000009" "carriers (view demo_bound) 10 = [''lan'', ''up'']"
    by (simp_all add: demo_bound_def frame_simps demo_configured_def checks_of_def demo_sec_config_def default_sec_config_def
        bound_sender_def carriers_def demo_view_def)
  then show ?thesis
    by (simp add: handle_frame_arp parse_demo_request handle_arp_def Let_def)
qed

theorem arp_inspection_safe_witness:
  "\<exists>evs1 ev evs2 e1.
     [SetConfig demo_sec_config, SetView demo_view, RelayReply 0x0a000001 demo_ack 100] = evs1 @ ev # evs2
     \<and> run (sec_moves demo_env) (spawn_sec demo_env None [2, 0, 0, 0, 0, 1] 0) evs1 e1
     \<and> grants e1 ev (mac_text demo_station, 10) 0x0a000009"
proof -
  have r: "run (sec_moves demo_env) (spawn_sec demo_env None [2, 0, 0, 0, 0, 1] 0)
      [SetConfig demo_sec_config, SetView demo_view, RelayReply 0x0a000001 demo_ack 100] demo_bound"
    using run_append [OF demo_configure demo_granted] by simp
  obtain e' where "sec_step demo_env demo_bound (Trapped ''lan'' 10 demo_request 105) = Some (e', [PacketOut ''up'' demo_request])"
    using demo_forwarded by blast
  note safe = arp_inspection_safe [OF r parse_demo_request(2) this list.set_intros(1)]
  obtain arp where arp: "parse_arp demo_request = Some (Some arp)"
    "(\<exists>b. bt_get (statics (sec_config demo_bound)) (mac_text (sha arp), 10) = Some b \<and> sb_ip b = spa arp)
     \<or> (\<exists>evs1 ev evs2 e1. [SetConfig demo_sec_config, SetView demo_view, RelayReply 0x0a000001 demo_ack 100] = evs1 @ ev # evs2
          \<and> run (sec_moves demo_env) (spawn_sec demo_env None [2, 0, 0, 0, 0, 1] 0) evs1 e1
          \<and> grants e1 ev (mac_text (sha arp), 10) (spa arp))"
    using safe by (elim exE conjE) blast
  moreover have "sha arp = demo_station" "spa arp = 0x0a000009" using arp by (auto simp: parse_demo_request)
  moreover have "statics (sec_config demo_bound) = []"
    by (simp add: demo_bound_def frame_simps demo_configured_def demo_sec_config_def default_sec_config_def)
  ultimately show ?thesis by simp
qed

definition demo_discover :: bytes where
  "demo_discover = replicate 6 0xff @ demo_station @ [8, 0] @ [0x45, 0, 1, 16, 0, 0, 0, 0, 64, 17, 0, 0] @ replicate 4 0 @ replicate 4 0xff
     @ [0, 68, 0, 67, 0, 252, 0, 0] @ [1, 1, 6, 0] @ replicate 24 0 @ demo_station @ replicate 202 0 @ magic_cookie @ [53, 1, 1, 255]"

lemma demo_discover_reads:
  "length demo_discover = 286" "slice demo_discover 6 12 = Some demo_station" "be16_at demo_discover 12 = Some 0x0800"
  "slice_from demo_discover 14 = Some (drop 14 demo_discover)" "idx (drop 14 demo_discover) 0 = Some 0x45"
  "idx (drop 14 demo_discover) 9 = Some 17" "drop 34 demo_discover ! 2 = 0" "drop 34 demo_discover ! 3 = 67"
  "drop 42 demo_discover = [1, 1, 6, 0] @ replicate 24 0 @ demo_station @ replicate 202 0 @ magic_cookie @ [53, 1, 1, 255]"
  by (simp_all add: demo_discover_def demo_station_def magic_cookie_def slice_def slice_from_def be16_at_def idx_def nth_append
      from_be_def undigits_def)

definition demo_client :: dhcp_message where
  "demo_client = \<lparr>dm_is_reply = False, dm_chaddr = demo_station, dm_yiaddr = 0, message_type = Some 1, lease_secs = None\<rparr>"

lemma parse_demo_discover: "parse_dhcp demo_discover = Some (Some demo_client)"
proof -
  have "replicate 4 (0 :: u8) = [0, 0, 0, 0]" by (simp add: numeral_eq_Suc)
  then have "parse_dhcp_payload (drop 42 demo_discover) = Some (Some demo_client)"
    unfolding demo_discover_reads(9)
    by (simp add: parse_dhcp_payload_def demo_client_def demo_station_def magic_cookie_def slice_def slice_from_def idx_def nth_append
        from_be_def undigits_def option_type_def option_lease_def)
  then show ?thesis
    by (simp add: parse_dhcp_def demo_discover_reads ihl_of_def from_be_def undigits_def Let_def)
qed

definition demo_snooping :: snoopsec where
  "demo_snooping = demo_configured\<lparr>sec_config := demo_sec_config\<lparr>relay := []\<rparr>\<rparr>"

theorem dhcp_guard_witness:
  "\<exists>e'. sec_step demo_env demo_snooping (Trapped ''lan'' 10 demo_discover 105) = Some (e', [PacketOut ''up'' demo_discover])
    \<and> dm_chaddr demo_client = take 6 (drop 6 demo_discover)
    \<and> dhcp_out_ok demo_snooping ''lan'' 10 demo_discover (PacketOut ''up'' demo_discover)"
proof -
  have cfg: "dhcp_vlans (sec_config demo_snooping) = [10]" "\<not> trusted_port demo_snooping ''lan''"
    "carriers (view demo_snooping) 10 = [''lan'', ''up'']" "relay (sec_config demo_snooping) = []"
    "expand_trusted (view demo_snooping) (dhcp_trusted (sec_config demo_snooping)) = [''up'']"
    by (simp_all add: demo_snooping_def demo_configured_def demo_sec_config_def default_sec_config_def demo_view_def
        carriers_def trusted_port_def expand_trusted_def bs_collect_def)
  obtain e' where s: "sec_step demo_env demo_snooping (Trapped ''lan'' 10 demo_discover 105) = Some (e', [PacketOut ''up'' demo_discover])"
    using cfg by (simp add: handle_frame_def demo_discover_reads handle_dhcp_def parse_demo_discover client_message_def
        demo_client_def frame_simps Let_def)
  moreover have "\<not> is_arp_frame demo_discover" by (simp add: is_arp_frame_def demo_discover_reads)
  ultimately show ?thesis using dhcp_guard [OF s _ parse_demo_discover] by simp
qed


section \<open>The redirect program\<close>

lemma learn_fields [frame_simps]:
  "sec_config (learn env key mt ip lease now e) = sec_config e" "view (learn env key mt ip lease now e) = view e"
  "pushed_redirects (learn env key mt ip lease now e) = pushed_redirects e" "sec_mac (learn env key mt ip lease now e) = sec_mac e"
  by (simp_all add: learn_def bind_lease_def Let_def frame_simps save_bindings_def split: option.split)


definition is_redirects :: "sec_out \<Rightarrow> bool" where
  "is_redirects out = (case out of Redirects _ \<Rightarrow> True | _ \<Rightarrow> False)"



lemma handle_dhcp_cases:
  assumes "handle_dhcp env port vlan frame now e = Some (e', outs)"
  obtains (ignored) "e' = e" and "outs = []"
  | (server) d where "server_message env port vlan d now (count_dhcp vlan (\<lambda>s. s\<lparr>dv_packets := dv_packets s + 1\<rparr>) e) = (e', outs)"
  | (client) d where "client_message env port vlan frame d (count_dhcp vlan (\<lambda>s. s\<lparr>dv_packets := dv_packets s + 1\<rparr>) e) = Some (e', outs)"
  using assms by (auto simp: handle_dhcp_def Let_def bind_eq_Some_conv split: if_splits option.splits)


lemma handle_arp_state:
  assumes "handle_arp port vlan frame e = Some (e', outs)"
  shows "e' = e \<or> (\<exists>f. e' = count_arp vlan f e)"
proof -
  obtain parsed where p: "parse_arp frame = Some parsed"
    using returns_parse_arp [of frame] by (auto simp: returns_def)
  show ?thesis
  proof (cases "parsed = None \<or> vlan \<notin> set (arp_vlans (sec_config e))")
    case True
    with assms p show ?thesis by (auto simp: handle_arp_def split: option.splits)
  next
    case False
    then obtain arp where arp: "parse_arp frame = Some (Some arp)" using p by auto
    have src: "slice frame 6 12 = Some (take 6 (drop 6 frame))" "slice frame 0 6 = Some (take 6 frame)"
      using parse_arp_room [OF arp] by (simp_all add: slice_def)
    have pick: "(if a then Some (e1, xs) else r) = Some (e', outs) \<Longrightarrow> e1 = e' \<or> r = Some (e', outs)" for a e1 xs r
      by (auto split: if_splits)
    show ?thesis
      using assms False unfolding handle_arp_def arp Let_def
      by (simp add: src) (drule pick | erule disjE | blast | simp)+
  qed
qed


lemma handle_frame_cases:
  assumes "handle_frame env port vlan frame now e = Some (e', outs)"
  obtains (ignored) "e' = e" and "outs = []"
  | (arp) "handle_arp port vlan frame e = Some (e', outs)"
  | (dhcp) "handle_dhcp env port vlan frame now e = Some (e', outs)"
proof -
  have "(e', outs) = (e, []) \<or> handle_arp port vlan frame e = Some (e', outs)
      \<or> handle_dhcp env port vlan frame now e = Some (e', outs)"
    using assms by (cases "be16_at frame 12") (simp_all add: handle_frame_def split: if_splits)
  then show thesis using that by blast
qed

lemma handle_relay_reply_state:
  assumes "handle_relay_reply env gi payload now e = Some (e', outs)"
  shows "(e' = e \<or> (\<exists>vlan f. e' = count_relay vlan f e)
    \<or> (\<exists>vlan f key mt ip lease. e' = count_relay vlan f (learn env key mt ip lease now e)))
    \<and> (\<forall>out \<in> set outs. \<not> is_redirects out)"
proof (cases "relay_of (sec_config e) gi")
  case None
  with assms show ?thesis by (simp add: handle_relay_reply_def)
next
  case (Some vr)
  then obtain vlan r where r: "relay_of (sec_config e) gi = Some (vlan, r)" by (cases vr) simp
  obtain parsed where p: "parse_bootp payload = Some parsed"
    using returns_parse_bootp [of payload] by (auto simp: returns_def)
  show ?thesis
  proof (cases "\<exists>reply. parsed = Some reply \<and> br_is_reply reply")
    case True
    then obtain reply where "parsed = Some reply" "br_is_reply reply" by blast
    then have "e' = count_relay vlan (\<lambda>s. s\<lparr>to_client := to_client s + 1\<rparr>)
        (learn env (mac_text (br_chaddr reply), vlan) (br_message_type reply) (br_yiaddr reply) (br_lease_secs reply) now e)"
      and "\<forall>out \<in> set outs. \<not> is_redirects out"
      using assms r p by (auto simp: handle_relay_reply_def Let_def is_redirects_def)
    then show ?thesis by blast
  next
    case False
    then have "handle_relay_reply env gi payload now e = Some (count_relay vlan relay_drop e, [])"
      using r p by (cases parsed) (simp_all add: handle_relay_reply_def)
    with assms show ?thesis by auto
  qed
qed











lemma map_filter_total: "(\<And>x. x \<in> set xs \<Longrightarrow> f x = Some (g x)) \<Longrightarrow> List.map_filter f xs = map g xs"
  by (induction xs) (simp_all add: map_filter_simps)


section \<open>Overlapping pushes\<close>

text \<open>
  \<open>set_config\<close> and \<open>set_l2_view\<close> store under the lock, release it, compute the program under the
  lock again and send it after releasing that. They are called from different tasks, the configuration
  handler and the poller of the port view, so the parts of two calls may interleave.
\<close>

datatype race_event = StoreConfig sec_config | StoreView l2_view | ComputePush | SendPush sec_out

record race =
  rc_engine :: snoopsec
  rc_owed :: nat
  rc_flight :: "sec_out list"
  rc_sent :: "sec_out list"

inductive race_step :: "race \<Rightarrow> race_event \<Rightarrow> race \<Rightarrow> bool" where
  StoreConfig: "sec_config (rc_engine r) \<noteq> c \<Longrightarrow>
    race_step r (StoreConfig c) (r\<lparr>rc_engine := (rc_engine r)\<lparr>sec_config := c\<rparr>, rc_owed := rc_owed r + 1\<rparr>)"
| StoreView: "view (rc_engine r) \<noteq> v \<Longrightarrow>
    race_step r (StoreView v) (r\<lparr>rc_engine := (rc_engine r)\<lparr>view := v\<rparr>, rc_owed := rc_owed r + 1\<rparr>)"
| ComputePush: "0 < rc_owed r \<Longrightarrow> push_redirects (rc_engine r) = (e, outs) \<Longrightarrow>
    race_step r ComputePush (r\<lparr>rc_engine := e, rc_owed := rc_owed r - 1, rc_flight := rc_flight r @ outs\<rparr>)"
| SendPush: "out \<in> set (rc_flight r) \<Longrightarrow>
    race_step r (SendPush out) (r\<lparr>rc_flight := remove1 out (rc_flight r), rc_sent := rc_sent r @ [out]\<rparr>)"

definition race_start :: "snoopsec \<Rightarrow> race" where
  "race_start e = \<lparr>rc_engine = e, rc_owed = 0, rc_flight = [], rc_sent = []\<rparr>"

text \<open>
  C31. Two overlapping pushes can leave the hardware with a stale program. From a fresh engine, a
  change of the configuration and a change of the port view, each run to its end, can be ordered so that the last program
  sent is the one without the new view, while the engine records the new one as pushed: setting the
  same configuration or the same view again then sends nothing.
\<close>

theorem redirects_can_go_stale:
  assumes "c \<noteq> default_sec_config" and "v \<noteq> default_l2_view"
    and "compute_redirects c default_l2_view \<noteq> compute_redirects c v"
  shows "\<exists>evs r. run race_step (race_start (spawn_sec env store system_mac t0)) evs r
    \<and> rc_owed r = 0 \<and> rc_flight r = [] \<and> sec_config (rc_engine r) = c \<and> view (rc_engine r) = v
    \<and> pushed_redirects (rc_engine r) = Some (compute_redirects c v)
    \<and> last (rc_sent r) = Redirects (compute_redirects c default_l2_view)
    \<and> set_sec_config c (rc_engine r) = (rc_engine r, []) \<and> set_l2_view v (rc_engine r) = (rc_engine r, [])"
proof -
  let ?e = "spawn_sec env store system_mac t0" and ?old = "compute_redirects c default_l2_view" and ?new = "compute_redirects c v"
  have e: "sec_config ?e = default_sec_config" "view ?e = default_l2_view" "pushed_redirects ?e = None"
    by (simp_all add: spawn_sec_def)
  define e1 where "e1 = ?e\<lparr>sec_config := c\<rparr>"
  define e2 where "e2 = e1\<lparr>pushed_redirects := Some ?old\<rparr>"
  define e3 where "e3 = e2\<lparr>view := v\<rparr>"
  define e4 where "e4 = e3\<lparr>pushed_redirects := Some ?new\<rparr>"
  note es = e1_def e2_def e3_def e4_def
  have push: "push_redirects e1 = (e2, [Redirects ?old])" "push_redirects e3 = (e4, [Redirects ?new])"
    using assms(3) e by (simp_all add: push_redirects_def es Let_def)
  have "race_step (race_start ?e) (StoreConfig c) \<lparr>rc_engine = e1, rc_owed = 1, rc_flight = [], rc_sent = []\<rparr>"
    using race_step.StoreConfig [of "race_start ?e" c] assms(1) e(1) by (simp add: race_start_def es)
  moreover have "race_step \<lparr>rc_engine = e1, rc_owed = 1, rc_flight = [], rc_sent = []\<rparr> ComputePush
      \<lparr>rc_engine = e2, rc_owed = 0, rc_flight = [Redirects ?old], rc_sent = []\<rparr>"
    using race_step.ComputePush [of "\<lparr>rc_engine = e1, rc_owed = 1, rc_flight = [], rc_sent = []\<rparr>" e2 "[Redirects ?old]"] push(1)
    by simp
  moreover have "race_step \<lparr>rc_engine = e2, rc_owed = 0, rc_flight = [Redirects ?old], rc_sent = []\<rparr> (StoreView v)
      \<lparr>rc_engine = e3, rc_owed = 1, rc_flight = [Redirects ?old], rc_sent = []\<rparr>"
    using race_step.StoreView [of "\<lparr>rc_engine = e2, rc_owed = 0, rc_flight = [Redirects ?old], rc_sent = []\<rparr>" v] assms(2) e(2)
    by (simp add: es)
  moreover have "race_step \<lparr>rc_engine = e3, rc_owed = 1, rc_flight = [Redirects ?old], rc_sent = []\<rparr> ComputePush
      \<lparr>rc_engine = e4, rc_owed = 0, rc_flight = [Redirects ?old, Redirects ?new], rc_sent = []\<rparr>"
    using race_step.ComputePush [of "\<lparr>rc_engine = e3, rc_owed = 1, rc_flight = [Redirects ?old], rc_sent = []\<rparr>" e4 "[Redirects ?new]"] push(2)
    by simp
  moreover have "race_step \<lparr>rc_engine = e4, rc_owed = 0, rc_flight = [Redirects ?old, Redirects ?new], rc_sent = []\<rparr> (SendPush (Redirects ?new))
      \<lparr>rc_engine = e4, rc_owed = 0, rc_flight = [Redirects ?old], rc_sent = [Redirects ?new]\<rparr>"
    using race_step.SendPush [of "Redirects ?new" "\<lparr>rc_engine = e4, rc_owed = 0, rc_flight = [Redirects ?old, Redirects ?new], rc_sent = []\<rparr>"] assms(3)
    by simp
  moreover have "race_step \<lparr>rc_engine = e4, rc_owed = 0, rc_flight = [Redirects ?old], rc_sent = [Redirects ?new]\<rparr> (SendPush (Redirects ?old))
      \<lparr>rc_engine = e4, rc_owed = 0, rc_flight = [], rc_sent = [Redirects ?new, Redirects ?old]\<rparr>"
    using race_step.SendPush [of "Redirects ?old" "\<lparr>rc_engine = e4, rc_owed = 0, rc_flight = [Redirects ?old], rc_sent = [Redirects ?new]\<rparr>"]
    by simp
  ultimately have run: "run race_step (race_start ?e)
      [StoreConfig c, ComputePush, StoreView v, ComputePush, SendPush (Redirects ?new), SendPush (Redirects ?old)]
      \<lparr>rc_engine = e4, rc_owed = 0, rc_flight = [], rc_sent = [Redirects ?new, Redirects ?old]\<rparr>"
    by (blast intro: run.intros)
  have "sec_config e4 = c" "view e4 = v" "pushed_redirects e4 = Some ?new" by (simp_all add: es)
  then have "set_sec_config c e4 = (e4, [])" "set_l2_view v e4 = (e4, [])" by (simp_all add: set_sec_config_def set_l2_view_def)
  show ?thesis
    by (rule exI, rule exI, rule conjI, rule run) (simp add: \<open>sec_config e4 = c\<close> \<open>view e4 = v\<close> \<open>pushed_redirects e4 = Some ?new\<close>
      \<open>set_sec_config c e4 = (e4, [])\<close> \<open>set_l2_view v e4 = (e4, [])\<close>)
qed

theorem redirects_can_go_stale_witness:
  "\<exists>evs r. run race_step (race_start (spawn_sec demo_env None [2, 0, 0, 0, 0, 1] 0)) evs r
    \<and> pushed_redirects (rc_engine r) = Some (compute_redirects demo_sec_config demo_view)
    \<and> last (rc_sent r) = Redirects (compute_redirects demo_sec_config default_l2_view)"
proof -
  have "demo_sec_config \<noteq> default_sec_config" "demo_view \<noteq> default_l2_view"
    by (simp_all add: demo_sec_config_def demo_view_def default_sec_config_def default_l2_view_def)
  moreover have "compute_redirects demo_sec_config default_l2_view \<noteq> compute_redirects demo_sec_config demo_view"
    by (simp add: compute_redirects_def demo_sec_config_def demo_view_def default_sec_config_def default_l2_view_def
        carriers_def expand_trusted_def bs_collect_def Let_def)
  ultimately show ?thesis
    using redirects_can_go_stale [of demo_sec_config demo_view demo_env None "[2, 0, 0, 0, 0, 1]" 0] by blast
qed

section \<open>Restarts\<close>

lemma read_key_binding_key: "read_key (binding_key k) = Some k"
proof -
  have "CHR ''@'' \<notin> set (show_nat (unat (snd k)))"
    by (rule show_nat_no_char) (simp add: is_digit_def code_def)
  moreover have "unat (snd k) < 65536" using unsigned_less [of "snd k"] by simp
  ultimately show ?thesis
    by (simp add: read_key_def binding_key_def rsplit_once_append parse_uint_show_nat)
qed

lemma inj_binding_key: "inj binding_key"
  by (rule inj_on_inverseI [where g = "\<lambda>k. the (read_key k)"]) (simp add: read_key_binding_key)

lemma set_bt_collect:
  assumes "distinct (map fst xs)"
  shows "set (bt_collect xs) = set xs"
proof -
  have "(k, v) \<in> set (bt_collect xs) \<longleftrightarrow> (k, v) \<in> set xs" for k v
    using assms bt_get_in_set [OF bt_wf_collect [of xs], of k v]
    by (simp add: bt_get_collect distinct_map map_of_eq_Some_iff rev_map flip: bt_get_in_set)
  then show ?thesis by auto
qed

lemma load_persisted:
  assumes "bt_wf m" and "bind_read env text = Some (persist m)"
  shows "load_bindings env (Some text) now = bt_retain (\<lambda>_ b. now < expires_at b) m"
proof -
  let ?xs = "map (\<lambda>(k, b). (binding_key k, b)) m" and ?live = "\<lambda>(_, b). now < expires_at b"
  let ?ys = "map (\<lambda>(key, b). (the (read_key key), b)) (filter ?live (persist m))"
  have "map fst ?xs = map binding_key (map fst m)" by (simp add: split_beta comp_def)
  then have "distinct (map fst ?xs)"
    using bt_wf_distinct [OF assms(1)] inj_binding_key by (simp only: distinct_map inj_on_subset [OF _ subset_UNIV])
  then have p: "set (persist m) = set ?xs" unfolding persist_def by (rule set_bt_collect)
  have keys: "\<exists>k. key = binding_key k" if "(key, b) \<in> set (persist m)" for key b
    using that p by auto
  have ys: "List.map_filter (\<lambda>(key, b). map_option (\<lambda>k. (k, b)) (read_key key)) (filter ?live (persist m)) = ?ys"
    by (rule map_filter_total) (auto dest!: keys simp: read_key_binding_key)
  have "distinct (map fst (filter ?live (persist m)))"
    using bt_wf_distinct [OF bt_wf_filter [of "persist m" ?live]] by (simp add: persist_def)
  moreover have "inj_on (\<lambda>key. the (read_key key)) (fst ` set (filter ?live (persist m)))"
    by (rule inj_onI) (auto dest!: keys simp: read_key_binding_key)
  ultimately have "distinct (map (\<lambda>key. the (read_key key)) (map fst (filter ?live (persist m))))"
    by (simp only: distinct_map set_map)
  then have "distinct (map fst ?ys)" by (simp add: comp_def split_beta)
  then have "set (bt_collect ?ys) = set ?ys" by (rule set_bt_collect)
  also have "\<dots> = set (bt_retain (\<lambda>_ b. now < expires_at b) m)"
    by (force simp: p bt_retain_def read_key_binding_key)
  finally show ?thesis
    using assms bt_wf_collect [of ?ys] by (intro alist_ext) (simp_all add: load_bindings_def ys flip: bt_wf_def)
qed

text \<open>The file and the table.\<close>

definition saved :: "bind_env \<Rightarrow> snoopsec \<Rightarrow> bool" where
  "saved env e \<longleftrightarrow> bt_wf (dynamics e) \<and>
     (case bind_file e of
        None \<Rightarrow> False
      | Some None \<Rightarrow> dynamics e = []
      | Some (Some text) \<Rightarrow> bind_read env text = Some (persist (dynamics e)))"

definition good_store :: "bind_env \<Rightarrow> bool" where
  "good_store env \<longleftrightarrow> (\<forall>p. \<exists>text. bind_text env p = Some text \<and> bind_read env text = Some p)
     \<and> (\<forall>text c. bind_write env text c = Some text)"

lemma saved_save:
  assumes "good_store env" and "bind_file e \<noteq> None" and "bt_wf (dynamics e)"
  shows "saved env (save_bindings env e)"
proof -
  obtain body where "bind_text env (persist (dynamics e)) = Some body" "bind_read env body = Some (persist (dynamics e))"
    using assms(1) unfolding good_store_def by blast
  moreover have "bind_write env t c = Some t" for t c using assms(1) by (simp add: good_store_def)
  ultimately show ?thesis using assms(2,3) by (auto simp: saved_def save_bindings_def)
qed

lemma saved_cong: "saved env e \<Longrightarrow> dynamics e' = dynamics e \<Longrightarrow> bind_file e' = bind_file e \<Longrightarrow> saved env e'"
  by (simp add: saved_def split: option.splits)

lemma saved_file: "saved env e \<Longrightarrow> bind_file e \<noteq> None \<and> bt_wf (dynamics e)"
  by (auto simp: saved_def split: option.splits)

lemma saved_learn: "good_store env \<Longrightarrow> saved env e \<Longrightarrow> saved env (learn env key mt ip lease now e)"
  by (auto simp: learn_def bind_lease_def Let_def intro!: saved_save dest: saved_file elim: saved_cong)

lemma saved_note_client: "good_store env \<Longrightarrow> saved env e \<Longrightarrow> saved env (note_client env port key mt e)"
  by (auto simp: note_client_def intro!: saved_save dest: saved_file elim: saved_cong)

lemma saved_counts:
  "saved env e \<Longrightarrow> saved env (count_dhcp vlan f e)" "saved env e \<Longrightarrow> saved env (count_relay vlan g e)"
  "saved env e \<Longrightarrow> saved env (count_arp vlan h e)"
  by (auto elim: saved_cong simp: frame_simps)

lemma relay_request_file:
  "relay_request vlan r frame e = Some (e', outs) \<Longrightarrow> bind_file e' = bind_file e"
  by (auto simp: relay_request_def Let_def frame_simps bind_eq_Some_conv split: if_splits option.splits)

lemma saved_client_message:
  assumes "good_store env" and "saved env e" and "client_message env port vlan frame d e = Some (e', outs)"
  shows "saved env e'"
  using assms(3)
proof (cases rule: client_message_cases)
  case (relayed r)
  from relay_request_file [OF relayed(3)] relay_request_dynamics [OF relayed(3)] saved_note_client [OF assms(1,2)]
  show ?thesis by (metis saved_cong)
qed (simp_all add: assms saved_note_client saved_counts)

lemma saved_handle_dhcp:
  assumes "good_store env" and "saved env e" and "handle_dhcp env port vlan frame now e = Some (e', outs)"
  shows "saved env e'"
  using assms(3)
proof (cases rule: handle_dhcp_cases)
  case (server d)
  let ?e = "count_dhcp vlan (\<lambda>s. s\<lparr>dv_packets := dv_packets s + 1\<rparr>) e"
  have e: "saved env ?e" using assms(2) by (rule saved_counts)
  then have "saved env ((count_dhcp vlan dhcp_drop ?e)\<lparr>untrusted_server_drops := n\<rparr>)" for n
    by (auto elim: saved_cong simp: frame_simps)
  with saved_learn [OF assms(1) e] have "saved env (fst (server_message env port vlan d now ?e))"
    by (simp add: server_message_def)
  with server show ?thesis by simp
next
  case (client d)
  show ?thesis by (rule saved_client_message [OF assms(1) saved_counts(1) [OF assms(2)] client])
qed (use assms(2) in simp)

lemma saved_handle_relay_reply:
  assumes "good_store env" and "saved env e" and "handle_relay_reply env gi payload now e = Some (e', outs)"
  shows "saved env e'"
  using handle_relay_reply_state [OF assms(3)] assms(1,2) by (auto intro!: saved_counts saved_learn)

lemma filter_full: "length (filter P xs) = length xs \<Longrightarrow> filter P xs = xs"
proof (induction xs)
  case (Cons x xs)
  then show ?case using length_filter_le [of P xs] by (cases "P x") simp_all
qed simp

lemma saved_expire:
  assumes "good_store env" and "saved env e"
  shows "saved env (expire_leases env now e)"
proof (cases "length (bt_retain (\<lambda>_ b. now < expires_at b) (dynamics e)) = length (dynamics e)")
  case True
  then have "bt_retain (\<lambda>_ b. now < expires_at b) (dynamics e) = dynamics e"
    unfolding bt_retain_def by (rule filter_full)
  with assms(2) show ?thesis by (simp add: expire_leases_def)
next
  case False
  with assms saved_file [OF assms(2)] show ?thesis by (simp add: expire_leases_def Let_def saved_save)
qed

lemma saved_clear:
  assumes "good_store env" and "saved env e" and "length (dynamics e) < 2 ^ 32"
  shows "saved env (snd (clear_bindings env m e))"
proof -
  define kept where "kept = (case m of Some mac \<Rightarrow> bt_retain (\<lambda>(k, _) _. k \<noteq> mac) (dynamics e) | None \<Rightarrow> [])"
  have wf: "bt_wf kept" using saved_file [OF assms(2)] by (simp add: kept_def split: option.split)
  have le: "length kept \<le> length (dynamics e)" by (simp add: kept_def bt_retain_def split: option.split)
  show ?thesis
  proof (cases "length kept = length (dynamics e)")
    case True
    then have "kept = dynamics e"
      unfolding kept_def bt_retain_def by (cases m) (simp_all add: filter_full)
    with assms(2) show ?thesis by (simp add: clear_bindings_def flip: kept_def)
  next
    case False
    have "unat (of_nat (length (dynamics e) - length kept) :: u32) = length (dynamics e) - length kept"
      using assms(3) by (simp add: unat_of_nat)
    then have "0 < (of_nat (length (dynamics e) - length kept) :: u32)"
      using False le by (simp add: word_less_nat_alt)
    with assms wf saved_file [OF assms(2)] show ?thesis
      by (simp add: clear_bindings_def Let_def saved_save flip: kept_def)
  qed
qed
lemma saved_step:
  assumes "good_store env" and "saved env e" and "length (dynamics e) < 2 ^ 32" and "sec_step env e ev = Some (e', outs)"
  shows "saved env e'"
proof (cases ev)
  case (SetConfig c)
  then have "e' = fst (set_sec_config c e)" using assms(4) by (metis fst_conv option.inject sec_step.simps(1))
  with assms(2) show ?thesis by (auto elim: saved_cong simp: set_sec_config_def frame_simps)
next
  case (SetView v)
  then have "e' = fst (set_l2_view v e)" using assms(4) by (metis fst_conv option.inject sec_step.simps(2))
  with assms(2) show ?thesis by (auto elim: saved_cong simp: set_l2_view_def frame_simps)
next
  case (Trapped port vlan frame now)
  have "handle_frame env port vlan frame now e = Some (e', outs)" using assms(4) Trapped by simp
  then show ?thesis
  proof (cases rule: handle_frame_cases)
    case arp
    from handle_arp_state [OF arp] assms(2) show ?thesis by (auto intro: saved_counts)
  next
    case dhcp
    show ?thesis by (rule saved_handle_dhcp [OF assms(1,2) dhcp])
  qed (use assms(2) in simp)
next
  case (RelayReply gi payload now)
  with assms saved_handle_relay_reply show ?thesis by simp
next
  case (ExpireLeases now)
  with assms saved_expire show ?thesis by auto
next
  case (ClearBindings m)
  with assms saved_clear show ?thesis by auto
qed

lemma length_bt_insert: "length (bt_insert k v m) \<le> length m + 1"
  by (induction k v m rule: bt_insert.induct) auto

lemma length_bt_remove: "length (bt_remove k m) \<le> length m"
  by (simp add: bt_remove_def)

lemma learn_length: "length (dynamics (learn env key mt ip lease now e)) \<le> length (dynamics e) + 1"
  using length_bt_insert [of key _ "dynamics e"] by (simp add: learn_def bind_lease_def Let_def frame_simps)

lemma note_client_length:
  "length (dynamics (note_client env port key mt (count_dhcp vlan f e))) \<le> Suc (length (dynamics e))"
  using length_bt_remove [of key "dynamics e"] by (simp add: note_client_def frame_simps)

lemma handle_dhcp_length:
  assumes "handle_dhcp env port vlan frame now e = Some (e', outs)"
  shows "length (dynamics e') \<le> length (dynamics e) + 1"
  using assms
proof (cases rule: handle_dhcp_cases)
  case (server d)
  then show ?thesis
    using learn_length [of env _ _ _ _ now "count_dhcp vlan (\<lambda>s. s\<lparr>dv_packets := dv_packets s + 1\<rparr>) e"]
    by (auto simp: server_message_def frame_simps split: if_splits)
next
  case (client d)
  then show ?thesis
  proof (cases rule: client_message_cases)
    case (relayed r)
    from relay_request_dynamics [OF relayed(3)] show ?thesis by (simp add: note_client_length)
  next
    case noted
    from noted(3) show ?thesis by (simp add: note_client_length)
  qed (simp add: frame_simps)
qed simp

lemma handle_relay_reply_length:
  assumes "handle_relay_reply env gi payload now e = Some (e', outs)"
  shows "length (dynamics e') \<le> length (dynamics e) + 1"
  using handle_relay_reply_state [OF assms] learn_length
  by (auto simp: frame_simps)

lemma step_length:
  assumes "sec_step env e ev = Some (e', outs)"
  shows "length (dynamics e') \<le> length (dynamics e) + 1"
proof (cases ev)
  case (SetConfig c)
  then have "e' = fst (set_sec_config c e)" using assms by (metis fst_conv option.inject sec_step.simps(1))
  then show ?thesis by (simp add: frame_simps)
next
  case (SetView v)
  then have "e' = fst (set_l2_view v e)" using assms by (metis fst_conv option.inject sec_step.simps(2))
  then show ?thesis by (simp add: frame_simps)
next
  case (Trapped port vlan frame now)
  have "handle_frame env port vlan frame now e = Some (e', outs)" using assms Trapped by simp
  then show ?thesis
    by (cases rule: handle_frame_cases) (auto dest: handle_arp_dynamics handle_dhcp_length)
next
  case (RelayReply gi payload now)
  with assms handle_relay_reply_length show ?thesis by simp
next
  case (ExpireLeases now)
  then have "e' = expire_leases env now e" using assms by simp
  then show ?thesis by (simp add: expire_leases_def Let_def frame_simps bt_retain_def le_SucI)
next
  case (ClearBindings m)
  then have "e' = snd (clear_bindings env m e)" using assms by simp
  then show ?thesis by (simp add: clear_bindings_def Let_def frame_simps bt_retain_def le_SucI split: option.split)
qed

lemma saved_run:
  assumes "run (sec_moves env) e evs e'" and "good_store env" and "saved env e" and "length (dynamics e) + length evs < 2 ^ 32"
  shows "saved env e'"
  using assms
proof (induction rule: run.induct)
  case (run_Cons s ev s1 evs s')
  then obtain outs where s1: "sec_step env s ev = Some (s1, outs)" by (auto simp: sec_moves_def)
  have "saved env s1" using run_Cons.prems by (intro saved_step [OF _ _ _ s1]) simp_all
  with run_Cons step_length [OF s1] show ?case by simp
qed

text \<open>
  C18. Bindings survive a restart. With a store whose texts read back and whose writes succeed, start the
  engine on a missing file, let it run through any events (fewer than two to the thirty-second), and
  start it again on the file at any time: it has exactly the bindings it had, without those whose
  lease is over. So inspection goes on protecting every station with a lease.
\<close>

theorem restart_restores_bindings:
  assumes "good_store env" and "run (sec_moves env) (spawn_sec env (Some None) system_mac t0) evs e" and "length evs < 2 ^ 32"
  shows "dynamics (spawn_sec env (bind_file e) system_mac now) = bt_retain (\<lambda>_ b. now < expires_at b) (dynamics e)"
proof -
  have "saved env (spawn_sec env (Some None) system_mac t0)" "dynamics (spawn_sec env (Some None) system_mac t0) = []"
    by (simp_all add: saved_def spawn_sec_def load_bindings_def)
  with assms have s: "saved env e" by (intro saved_run [OF assms(2)]) simp_all
  show ?thesis
  proof (cases "bind_file e")
    case (Some c)
    show ?thesis
    proof (cases c)
      case None
      with s Some show ?thesis by (simp add: saved_def spawn_sec_def load_bindings_def bt_retain_def)
    next
      case (Some t)
      with s \<open>bind_file e = Some c\<close> show ?thesis by (simp add: saved_def spawn_sec_def load_persisted)
    qed
  qed (use s in \<open>simp add: saved_def\<close>)
qed
text \<open>A store in a plain text format: four fields to a binding, every character of a field marked, fields ended by a dot.\<close>

definition write_field :: "string \<Rightarrow> string" where
  "write_field s = concat (map (\<lambda>c. [CHR ''-'', c]) s) @ ''.''"

fun read_fields :: "string \<Rightarrow> string \<Rightarrow> string list" where
  "read_fields cur [] = []"
| "read_fields cur [c] = (if c = CHR ''.'' then [rev cur] else [])"
| "read_fields cur (c # d # cs) =
     (if c = CHR ''.'' then rev cur # read_fields [] (d # cs) else read_fields (d # cur) cs)"

fun read_bindings :: "string list \<Rightarrow> persisted" where
  "read_bindings (key # ip # port # ends # fs) =
     (key, \<lparr>db_ip = of_nat (the (dec_acc 0 ip)), db_interface = port, expires_at = of_nat (the (dec_acc 0 ends))\<rparr>)
       # read_bindings fs"
| "read_bindings _ = []"

definition plain_bind_env :: bind_env where
  "plain_bind_env =
     \<lparr>bind_text = (\<lambda>p. Some (concat (map (\<lambda>(key, b). write_field key @ write_field (show_nat (unat (db_ip b)))
          @ write_field (db_interface b) @ write_field (show_nat (unat (expires_at b)))) p))),
      bind_read = (\<lambda>t. Some (read_bindings (read_fields [] t))), bind_write = (\<lambda>t _. Some t)\<rparr>"

lemma read_field: "read_fields cur (write_field s @ rest) = (rev cur @ s) # read_fields [] rest"
proof (induction s arbitrary: cur)
  case Nil
  show ?case by (cases rest) (simp_all add: write_field_def)
qed (simp add: write_field_def)

lemma plain_bind_env_good: "good_store plain_bind_env"
proof -
  have "read_bindings (read_fields [] (concat (map (\<lambda>(key, b). write_field key @ write_field (show_nat (unat (db_ip b)))
      @ write_field (db_interface b) @ write_field (show_nat (unat (expires_at b)))) p))) = p" for p :: persisted
    by (induction p) (auto simp: read_field dec_acc_show_nat)
  then show ?thesis by (simp add: good_store_def plain_bind_env_def)
qed

theorem restart_restores_bindings_witness:
  "\<exists>e. run (sec_moves plain_bind_env) (spawn_sec plain_bind_env (Some None) [2, 0, 0, 0, 0, 1] 0)
      [SetConfig demo_sec_config, RelayReply 0x0a000001 demo_ack 100] e
    \<and> bt_get (dynamics (spawn_sec plain_bind_env (bind_file e) [2, 0, 0, 0, 0, 1] 500)) (mac_text demo_station, 10)
      = Some \<lparr>db_ip = 0x0a000009, db_interface = [], expires_at = 86500\<rparr>"
proof -
  let ?s = "spawn_sec plain_bind_env (Some None) [2, 0, 0, 0, 0, 1] 0"
  let ?c = "fst (set_sec_config demo_sec_config ?s)" and ?b = "\<lparr>db_ip = 0x0a000009, db_interface = [], expires_at = 86500\<rparr>"
  have c: "dynamics ?c = []" "pending ?c = []" "sec_config ?c = demo_sec_config"
    by (auto simp: set_sec_config_def push_redirects_def Let_def spawn_sec_def load_bindings_def)
  have r: "relay_of demo_sec_config 0x0a000001 = Some (10, \<lparr>servers = [0x0a000002], giaddr = 0x0a000001\<rparr>)"
    by (simp add: relay_of_def demo_sec_config_def)
  obtain e outs where e: "sec_step plain_bind_env ?c (RelayReply 0x0a000001 demo_ack 100) = Some (e, outs)"
      "dynamics e = [((mac_text demo_station, 10), ?b)]"
    using c r by (simp add: handle_relay_reply_def parse_demo_ack Let_def frame_simps learn_def bind_lease_def bt_remove_def)
  have run: "run (sec_moves plain_bind_env) ?s [SetConfig demo_sec_config, RelayReply 0x0a000001 demo_ack 100] e"
    using e(1) by (auto intro!: run.intros simp: sec_moves_def prod_eq_iff)
  have "dynamics (spawn_sec plain_bind_env (bind_file e) [2, 0, 0, 0, 0, 1] 500) = [((mac_text demo_station, 10), ?b)]"
    using restart_restores_bindings [OF plain_bind_env_good run, of 500] e(2) by (simp add: bt_retain_def)
  with run show ?thesis by (intro exI [of _ e] conjI) (simp_all only: map_of.simps fun_upd_apply fst_conv snd_conv if_True refl)
qed

section \<open>Relayed replies on the wire\<close>

lemma fold_high: "fold_high s = fold_carries s"
  by (induction s rule: fold_carries.induct) (simp add: fold_carries.simps fold_high.simps drop_bit_high)

text \<open>
  C26. The two checksum routines of the orchestrator, whose loops test the carry differently, compute the same value,
  and it is the one of RFC 1071: the complement of the one's complement sum of the 16-bit words (for inputs whose
  sum cannot overflow 32 bits). A packet carrying it in place of two zero bytes checks to zero at the receiver.
\<close>

theorem checksum_equivalence:
  "ip_checksum header = checksum [header]
   \<and> (length header \<le> 131072 \<longrightarrow> unat (ip_checksum header) = 65535 - ones_complement (word_total header))
   \<and> (even (length pre) \<and> length pre + length post < 131071 \<longrightarrow>
        ip_checksum (pre @ to_be 2 (ip_checksum (pre @ [0, 0] @ post)) @ post) = 0)"
proof -
  have eq: "ip_checksum h = checksum [h]" for h
    by (simp add: ip_checksum_def checksum_def fold_high)
  then show ?thesis using unat_checksum [of "[header]"] checksum_verifies [of pre post] by simp
qed

theorem checksum_equivalence_witness:
  "unat (ip_checksum [0x45, 0, 0, 20]) = 65535 - ones_complement (word_total [0x45, 0, 0, 20])
   \<and> ip_checksum ([0x45, 0] @ to_be 2 (ip_checksum ([0x45, 0] @ [0, 0] @ [7])) @ [7]) = 0"
proof -
  have "length [0x45, 0, 0, 20 :: u8] \<le> 131072"
    "even (length [0x45, 0 :: u8]) \<and> length [0x45, 0 :: u8] + length [7 :: u8] < 131071"
    by simp_all
  with checksum_equivalence [of "[0x45, 0, 0, 20]" "[0x45, 0]" "[7]"] show ?thesis by blast
qed

lemma dhcp_options_the: "dhcp_options options mt ls = Some (the (dhcp_options options mt ls))"
  using returns_dhcp_options [of options mt ls] by (simp add: returns_def)

lemma parse_bootp_unfold:
  "parse_bootp payload =
     (if length payload < 240 \<or> take 4 (drop 236 payload) \<noteq> magic_cookie then Some None
      else Some (Some \<lparr>br_is_reply = (payload ! 0 = 2), br_chaddr = take 6 (drop 28 payload),
        br_yiaddr = from_be (take 4 (drop 16 payload)), broadcast_flag = (payload ! 10 AND 0x80 \<noteq> 0),
        br_message_type = fst (the (dhcp_options (drop 240 payload) None None)),
        br_lease_secs = snd (the (dhcp_options (drop 240 payload) None None))\<rparr>))"
  using dhcp_options_the [of "drop 240 payload" None None]
  by (cases "dhcp_options (drop 240 payload) None None")
    (auto simp: parse_bootp_def slice_def slice_from_def idx_def split_beta)

lemma parse_bootp_payload:
  assumes "parse_bootp payload = Some (Some reply)" and "br_is_reply reply"
  shows "parse_dhcp_payload payload = Some (Some \<lparr>dm_is_reply = True, dm_chaddr = br_chaddr reply, dm_yiaddr = br_yiaddr reply,
      message_type = br_message_type reply, lease_secs = br_lease_secs reply\<rparr>)"
    and "240 \<le> length payload" and "length (br_chaddr reply) = 6"
proof -
  have p: "240 \<le> length payload" "take 4 (drop 236 payload) = magic_cookie" "payload ! 0 = 2"
    and r: "reply = \<lparr>br_is_reply = (payload ! 0 = 2), br_chaddr = take 6 (drop 28 payload),
        br_yiaddr = from_be (take 4 (drop 16 payload)), broadcast_flag = (payload ! 10 AND 0x80 \<noteq> 0),
        br_message_type = fst (the (dhcp_options (drop 240 payload) None None)),
        br_lease_secs = snd (the (dhcp_options (drop 240 payload) None None))\<rparr>"
    using assms by (auto simp: parse_bootp_unfold split: if_splits)
  from p show "240 \<le> length payload" "length (br_chaddr reply) = 6" by (simp_all add: r)
  have "payload \<noteq> []" using p(1) by auto
  with p show "parse_dhcp_payload payload = Some (Some \<lparr>dm_is_reply = True, dm_chaddr = br_chaddr reply, dm_yiaddr = br_yiaddr reply,
      message_type = br_message_type reply, lease_secs = br_lease_secs reply\<rparr>)"
    using dhcp_options_the [of "drop 240 payload" None None]
    by (cases "dhcp_options (drop 240 payload) None None")
      (auto simp: r parse_dhcp_payload_def slice_def slice_from_def idx_def split_beta)
qed

lemma reply_header_shape:
  obtains t1 t2 c1 c2 rest where "reply_ip_header gi dst n = [0x45, 0, t1, t2, 0, 0, 0x40, 0, 64, 17, c1, c2] @ rest"
    and "length rest = 8" and "from_be [t1, t2] = (of_nat n :: u16)" and "checksum [reply_ip_header gi dst n] = 0"
proof -
  obtain t1 t2 where t: "to_be 2 (of_nat n :: u16) = [t1, t2]" "from_be [t1, t2] = (of_nat n :: u16)" by (rule to_be_2_cases)
  let ?pre = "[0x45, 0, t1, t2, 0, 0, 0x40, 0, 64, 17]" and ?post = "to_be 4 gi @ to_be 4 dst"
  have h: "reply_ip_header gi dst n = ?pre @ to_be 2 (checksum [?pre @ [0, 0] @ ?post]) @ ?post"
    by (simp add: reply_ip_header_def t with_checksum_def ip_checksum_def checksum_def fold_high Let_def)
  obtain c1 c2 where c: "to_be 2 (checksum [?pre @ [0, 0] @ ?post]) = [c1, c2]" by (rule to_be_2_cases)
  show thesis
  proof (rule that [of t1 t2 c1 c2 ?post])
    show "checksum [reply_ip_header gi dst n] = 0" unfolding h by (rule checksum_verifies) simp_all
  qed (use c in \<open>simp_all add: h t(2)\<close>)
qed

text \<open>
  What the relay sends to a client. The frame built from a server's reply is addressed to the client or to everyone,
  as the reply asks; its header checksum verifies; it parses as the DHCP reply it carries, with the same client,
  address, message type and lease; and the payload cut out of it by its IP length is the server's,
  byte for byte.
\<close>

lemma relayed_reply_roundtrip:
  assumes "length system_mac = 6" and "parse_bootp payload = Some (Some reply)" and "br_is_reply reply"
    and "length payload \<le> 65507" and "frame = build_client_reply system_mac gi reply payload"
  shows "parse_dhcp frame = Some (Some \<lparr>dm_is_reply = True, dm_chaddr = br_chaddr reply, dm_yiaddr = br_yiaddr reply,
      message_type = br_message_type reply, lease_secs = br_lease_secs reply\<rparr>)
    \<and> bootp_payload frame = Some (Some payload)
    \<and> checksum [take 20 (drop 14 frame)] = 0
    \<and> take 6 frame = fst (reply_target reply) \<and> take 6 (drop 6 frame) = system_mac"
proof -
  note p = parse_bootp_payload [OF assms(2,3)]
  let ?dst = "fst (reply_target reply)" and ?ip = "reply_ip_header gi (snd (reply_target reply)) (28 + length payload)"
  have dst: "length ?dst = 6"
    using p(3) by (simp add: reply_target_def)
  obtain t1 t2 c1 c2 rest where h: "?ip = [0x45, 0, t1, t2, 0, 0, 0x40, 0, 64, 17, c1, c2] @ rest" "length rest = 8"
      "from_be [t1, t2] = (of_nat (28 + length payload) :: u16)" "checksum [?ip] = 0"
    by (rule reply_header_shape)
  obtain u1 u2 where u: "to_be 2 (of_nat (8 + length payload) :: u16) = [u1, u2]" by (rule to_be_2_cases)
  have ports: "to_be 2 (67 :: u16) = [0, 67]" "to_be 2 (68 :: u16) = [0, 68]"
    by (simp_all add: to_be_def digits_be_2)
  have frame: "frame = ?dst @ system_mac @ [8, 0] @ ?ip @ [0, 67, 0, 68, u1, u2, 0, 0] @ payload"
    using p(2) dst assms(1) h(1,2) u
    by (simp add: assms(5) build_client_reply_def split_beta Let_def ports pad_to_def)
  have ip: "drop 14 frame = ?ip @ [0, 67, 0, 68, u1, u2, 0, 0] @ payload" "length frame = 42 + length payload"
    using dst assms(1) h(1,2) by (simp_all add: frame)
  have t: "unat (from_be [t1, t2] :: u16) = 28 + length payload"
    using assms(4) by (simp add: h(3) unat_of_nat del: of_nat_add)
  have "parse_dhcp frame = parse_dhcp_payload payload"
    using p(2) h(1,2) by (simp add: parse_dhcp_def ip slice_from_def idx_def ihl_of_def from_be_def undigits_def Let_def)
  moreover have "bootp_payload frame = Some (Some payload)"
    using p(2) h(1,2) t by (simp add: bootp_payload_def ip idx_def ihl_of_def be16_at_def clamp_def slice_def Let_def)
  moreover have "take 20 (drop 14 frame) = ?ip" using h(1,2) by (simp add: ip)
  ultimately show ?thesis using p(1) h(4) dst assms(1) by (simp add: frame)
qed

lemma relayed_reply_roundtrip_example:
  "bootp_payload (build_client_reply [2, 0, 0, 0, 0, 1] 0x0a000001
      \<lparr>br_is_reply = True, br_chaddr = demo_station, br_yiaddr = 0x0a000009, broadcast_flag = False,
       br_message_type = Some 5, br_lease_secs = None\<rparr> demo_ack) = Some (Some demo_ack)"
  using relayed_reply_roundtrip [OF _ parse_demo_ack _ _ refl, where system_mac = "[2, 0, 0, 0, 0, 1]" and gi = "0x0a000001"] by (simp add: demo_ack_reads(1))

end
