(* ===== verification/Utf8_Text.thy ===== *)
theory Utf8_Text
  imports Hemlock_Prelude
begin

text \<open>
  Rust strings as the bytes of their UTF-8 encoding, for code that turns received bytes into text:
  \<open>String::from_utf8_lossy\<close> of the standard library, which replaces each maximal ill-formed
  piece by U+FFFD. A string is well formed when nothing in it would be replaced.
\<close>

type_synonym utf8 = bytes

definition byte_at :: "bytes \<Rightarrow> nat \<Rightarrow> u8" where
  "byte_at bs i = (if i < length bs then bs ! i else 0)"

definition is_cont :: "u8 \<Rightarrow> bool" where
  "is_cont b \<longleftrightarrow> 0x80 \<le> b \<and> b \<le> 0xbf"

definition char_width :: "u8 \<Rightarrow> nat" where
  "char_width b =
     (if b < 0x80 then 1 else if 0xc2 \<le> b \<and> b \<le> 0xdf then 2
      else if 0xe0 \<le> b \<and> b \<le> 0xef then 3 else if 0xf0 \<le> b \<and> b \<le> 0xf4 then 4 else 0)"

text \<open>The second byte of a sequence of three or four excludes overlong forms, surrogates and what is beyond U+10FFFF.\<close>

definition second_ok :: "u8 \<Rightarrow> u8 \<Rightarrow> bool" where
  "second_ok a b \<longleftrightarrow>
     (if a = 0xe0 then 0xa0 \<le> b \<and> b \<le> 0xbf
      else if a = 0xed then 0x80 \<le> b \<and> b \<le> 0x9f
      else if a = 0xf0 then 0x90 \<le> b \<and> b \<le> 0xbf
      else if a = 0xf4 then 0x80 \<le> b \<and> b \<le> 0x8f
      else is_cont b)"

text \<open>Whether a character begins the bytes, and how many of them the character, or the ill-formed piece, takes.\<close>

definition utf8_chunk :: "bytes \<Rightarrow> bool \<times> nat" where
  "utf8_chunk bs =
     (let a = byte_at bs 0; b = byte_at bs 1; c = byte_at bs 2; d = byte_at bs 3 in
      if char_width a = 1 then (True, 1)
      else if char_width a = 2 then (if is_cont b then (True, 2) else (False, 1))
      else if char_width a = 3 then
        (if \<not> second_ok a b then (False, 1) else if \<not> is_cont c then (False, 2) else (True, 3))
      else if char_width a = 4 then
        (if \<not> second_ok a b then (False, 1) else if \<not> is_cont c then (False, 2)
         else if \<not> is_cont d then (False, 3) else (True, 4))
      else (False, 1))"

lemma utf8_chunk_pos: "0 < snd (utf8_chunk bs)"
  by (simp add: utf8_chunk_def Let_def)

definition replacement :: utf8 where
  "replacement = [0xef, 0xbf, 0xbd]"

function from_utf8_lossy :: "bytes \<Rightarrow> utf8" where
  "from_utf8_lossy bs =
     (if bs = [] then []
      else (if fst (utf8_chunk bs) then take (snd (utf8_chunk bs)) bs else replacement)
           @ from_utf8_lossy (drop (snd (utf8_chunk bs)) bs))"
  by pat_completeness auto
termination
  by (relation "measure length") (simp_all add: utf8_chunk_pos)

function valid_utf8 :: "bytes \<Rightarrow> bool" where
  "valid_utf8 bs \<longleftrightarrow>
     (if bs = [] then True else fst (utf8_chunk bs) \<and> valid_utf8 (drop (snd (utf8_chunk bs)) bs))"
  by pat_completeness auto
termination
  by (relation "measure length") (simp_all add: utf8_chunk_pos)

declare from_utf8_lossy.simps [simp del] valid_utf8.simps [simp del]

lemma from_utf8_lossy_Nil [simp]: "from_utf8_lossy [] = []"
  by (simp add: from_utf8_lossy.simps)

lemma valid_utf8_Nil [simp]: "valid_utf8 []"
  by (simp add: valid_utf8.simps)

text \<open>\<open>trim_end_matches('\0')\<close>.\<close>

definition trim_nul :: "utf8 \<Rightarrow> utf8" where
  "trim_nul s = rev (dropWhile (\<lambda>b. b = 0) (rev s))"

definition ascii :: "string \<Rightarrow> utf8" where
  "ascii s = map (\<lambda>c. of_nat (code c)) s"

definition latin :: "bytes \<Rightarrow> string" where
  "latin bs = map (\<lambda>b. char_of (unat b)) bs"

section \<open>Well-formed text\<close>

lemma from_utf8_lossy_valid: "valid_utf8 bs \<Longrightarrow> from_utf8_lossy bs = bs"
proof (induction bs rule: valid_utf8.induct)
  case (1 bs)
  then show ?case
    by (subst from_utf8_lossy.simps) (use 1 valid_utf8.simps [of bs] in simp)
qed

lemma byte_at_append: "i < length xs \<Longrightarrow> byte_at (xs @ ys) i = byte_at xs i"
  by (simp add: byte_at_def nth_append)

lemma byte_at_nonzero: "byte_at bs i \<noteq> 0 \<Longrightarrow> i < length bs"
  by (auto simp: byte_at_def split: if_splits)

lemma is_cont_nonzero: "is_cont b \<Longrightarrow> b \<noteq> 0" "second_ok a b \<Longrightarrow> b \<noteq> 0"
  by (auto simp: is_cont_def second_ok_def split: if_splits)

lemma utf8_chunk_length:
  assumes "utf8_chunk bs = (True, n)" and "bs \<noteq> []"
  shows "n \<le> length bs"
proof -
  have b: "is_cont (byte_at bs i) \<Longrightarrow> i < length bs" "second_ok a (byte_at bs i) \<Longrightarrow> i < length bs" for i a
    using is_cont_nonzero byte_at_nonzero by blast+
  show ?thesis
    using assms b(1) [of 1] b(2) [of _ 1] b(1) [of 2] b(1) [of 3]
    by (cases bs) (auto simp: utf8_chunk_def Let_def Suc_le_eq split: if_splits)
qed

lemma utf8_chunk_append:
  assumes "utf8_chunk bs = (True, n)" and "bs \<noteq> []"
  shows "utf8_chunk (take n bs @ ys) = (True, n)"
proof -
  have n: "n \<le> length bs" by (rule utf8_chunk_length [OF assms])
  have e: "byte_at (take n bs @ ys) i = byte_at bs i" if "i < n" for i
    using that n by (simp add: byte_at_def nth_append)
  have "n = 1 \<or> n = 2 \<or> n = 3 \<or> n = 4"
    using assms(1) by (auto simp: utf8_chunk_def Let_def split: if_splits)
  then show ?thesis
    using assms(1) e [of 0] e [of 1] e [of 2] e [of 3]
    by (elim disjE) (auto simp: utf8_chunk_def Let_def split: if_splits)
qed

lemma valid_utf8_chunk:
  assumes "utf8_chunk bs = (True, n)" and "bs \<noteq> []" and "valid_utf8 ys"
  shows "valid_utf8 (take n bs @ ys)"
proof -
  have "length (take n bs) = n" "take n bs \<noteq> []"
    using utf8_chunk_length [OF assms(1,2)] assms(1,2) utf8_chunk_pos [of bs] by simp_all
  then show ?thesis
    using utf8_chunk_append [OF assms(1,2), of ys] assms(3) by (subst valid_utf8.simps) simp
qed

lemma utf8_chunk_replacement: "utf8_chunk replacement = (True, 3)"
  by (simp add: utf8_chunk_def replacement_def byte_at_def char_width_def second_ok_def is_cont_def)

text \<open>Whatever was received, the text is well formed; so a second reading changes nothing.\<close>

lemma valid_from_utf8_lossy: "valid_utf8 (from_utf8_lossy bs)"
proof (induction bs rule: from_utf8_lossy.induct)
  case (1 bs)
  obtain ok n where c: "utf8_chunk bs = (ok, n)" by (cases "utf8_chunk bs")
  show ?case
  proof (cases "bs = []")
    case False
    let ?rest = "from_utf8_lossy (drop n bs)"
    have rest: "valid_utf8 ?rest" using 1 False c by simp
    have "valid_utf8 (replacement @ ?rest)"
      using valid_utf8_chunk [OF utf8_chunk_replacement _ rest] by (simp add: replacement_def)
    with valid_utf8_chunk [of bs n, OF _ False rest] c False show ?thesis
      by (subst from_utf8_lossy.simps) (cases ok; simp)
  qed simp
qed

lemma valid_utf8_ascii_Cons: "b < 0x80 \<Longrightarrow> valid_utf8 (b # bs) \<longleftrightarrow> valid_utf8 bs"
  by (subst valid_utf8.simps) (simp add: utf8_chunk_def byte_at_def char_width_def)

lemma valid_utf8_ascii: "list_all (\<lambda>b. b < 0x80) bs \<Longrightarrow> valid_utf8 bs"
  by (induction bs) (simp_all add: valid_utf8_ascii_Cons)

lemma trim_nul_id: "s \<noteq> [] \<Longrightarrow> last s \<noteq> 0 \<Longrightarrow> trim_nul s = s"
  by (cases s rule: rev_cases) (simp_all add: trim_nul_def)

end
