(* ===== verification/Orch_Lldp.thy ===== *)
theory Orch_Lldp
  imports Net_Frame Common_Ip Utf8_Text
begin

text \<open>
  The LLDP engine (\<open>hemlock-orch/src/lldp.rs\<close>) and the request that configures it
  (\<open>set_lldp_config\<close> of \<open>hemlock-orch/src/main.rs\<close>): the configuration, the advertised identity, the ports with
  their neighbours, the frame codec, the handlers and the pass that sends advertisements and ages
  neighbours. Strings are UTF-8 bytes here, because neighbours send arbitrary ones. A handler that
  would panic is \<open>None\<close>. The tokio tasks are the order of the events; an event carries the instant
  its handler reads.
\<close>

section \<open>State\<close>

definition lldp_dst :: mac where
  "lldp_dst = [0x01, 0x80, 0xc2, 0x00, 0x00, 0x0e]"

definition lldp_ethertype :: u16 where
  "lldp_ethertype = 0x88cc"

definition default_tx_interval :: u32 where
  "default_tx_interval = 30"

definition default_hold_multiplier :: u8 where
  "default_hold_multiplier = 4"

record lldp_config =
  lldp_disabled :: bool
  lldp_interval :: duration
  hold_multiplier :: u8
  disabled_ports :: "utf8 list"

definition default_lldp_config :: lldp_config where
  "default_lldp_config = \<lparr>lldp_disabled = False, lldp_interval = from_secs (unat default_tx_interval),
     hold_multiplier = default_hold_multiplier, disabled_ports = []\<rparr>"

record lldp_system =
  chassis_mac :: mac
  sys_name :: utf8
  sys_description :: utf8
  management_address :: utf8

record port_info =
  info_mac :: mac
  info_description :: utf8

record neighbor =
  chassis_id :: utf8
  chassis_id_subtype :: utf8
  port_id :: utf8
  port_id_subtype :: utf8
  port_description :: utf8
  system_name :: utf8
  system_description :: utf8
  nb_management_address :: utf8
  nb_ttl :: u16

record learned =
  learned_neighbor :: neighbor
  last_seen :: instant

record lldp_port =
  port_info :: port_info
  port_up :: bool
  frames_tx :: u64
  frames_rx :: u64
  frames_discarded :: u64
  ageouts :: u64
  port_last_tx :: "instant option"
  neighbors :: "(utf8 \<times> utf8, learned) btree"

definition default_lldp_port :: lldp_port where
  "default_lldp_port = \<lparr>port_info = \<lparr>info_mac = replicate 6 0, info_description = []\<rparr>, port_up = False,
     frames_tx = 0, frames_rx = 0, frames_discarded = 0, ageouts = 0, port_last_tx = None, neighbors = []\<rparr>"

record lldp =
  lldp_config :: lldp_config
  lldp_system :: lldp_system
  lldp_ports :: "(utf8, lldp_port) btree"

definition spawn_lldp :: "mac \<Rightarrow> lldp" where
  "spawn_lldp system_mac = \<lparr>lldp_config = default_lldp_config,
     lldp_system = \<lparr>chassis_mac = system_mac, sys_name = [], sys_description = [], management_address = []\<rparr>,
     lldp_ports = []\<rparr>"

text \<open>The product is one of \<open>u64\<close>.\<close>

definition advertised_ttl :: "lldp \<Rightarrow> u16" where
  "advertised_ttl e =
     (let secs = as_secs (lldp_interval (lldp_config e)) * unat (max (hold_multiplier (lldp_config e)) 1) mod 2 ^ 64 in
      if secs < 2 ^ 16 then of_nat secs else - 1)"

definition port_enabled :: "lldp \<Rightarrow> utf8 \<Rightarrow> bool" where
  "port_enabled e port \<longleftrightarrow> \<not> lldp_disabled (lldp_config e) \<and> port \<notin> set (disabled_ports (lldp_config e))"

section \<open>Configuration\<close>

definition set_lldp :: "lldp_config \<Rightarrow> lldp \<Rightarrow> lldp" where
  "set_lldp c e =
     (let c1 = (if lldp_interval c = 0 then c\<lparr>lldp_interval := from_secs (unat default_tx_interval)\<rparr> else c);
          c2 = (if hold_multiplier c1 = 0 then c1\<lparr>hold_multiplier := default_hold_multiplier\<rparr> else c1)
      in e\<lparr>lldp_config := c2\<rparr>)"

definition set_system :: "lldp_system \<Rightarrow> lldp \<Rightarrow> lldp" where
  "set_system s e = e\<lparr>lldp_system := s\<rparr>"

definition add_port :: "utf8 \<times> port_info \<Rightarrow> (utf8, lldp_port) btree \<Rightarrow> (utf8, lldp_port) btree" where
  "add_port port m =
     bt_update (fst port) (\<lambda>st. st\<lparr>port_info := snd port\<rparr>) (bt_or_insert (fst port) default_lldp_port m)"

definition set_ports :: "(utf8, port_info) btree \<Rightarrow> lldp \<Rightarrow> lldp" where
  "set_ports ports e =
     e\<lparr>lldp_ports := fold add_port ports (bt_retain (\<lambda>name _. bt_contains ports name) (lldp_ports e))\<rparr>"

definition clear_port :: "lldp_port \<Rightarrow> lldp_port" where
  "clear_port st = st\<lparr>frames_tx := 0, frames_rx := 0, frames_discarded := 0, ageouts := 0\<rparr>"

definition clear_lldp_counters :: "utf8 \<Rightarrow> lldp \<Rightarrow> u32 \<times> lldp" where
  "clear_lldp_counters port e =
     (let cleared = (\<lambda>name. port = [] \<or> name = port) in
      (of_nat (length (filter (\<lambda>(name, _). cleared name) (lldp_ports e))),
       e\<lparr>lldp_ports := bt_map (\<lambda>name st. if cleared name then clear_port st else st) (lldp_ports e)\<rparr>))"

text \<open>The request: absent values are zero, the others are checked.\<close>

datatype lldp_error = BadTxInterval u32 | BadHoldMultiplier u32

record lldp_request =
  rq_disabled :: bool
  rq_tx_interval :: u32
  rq_hold_multiplier :: u32
  rq_disabled_ports :: "utf8 list"

definition set_lldp_config :: "lldp_request \<Rightarrow> lldp \<Rightarrow> lldp_error + lldp" where
  "set_lldp_config req e =
     (let tx = (if rq_tx_interval req = 0 then default_tx_interval else rq_tx_interval req) in
      if \<not> (5 \<le> tx \<and> tx \<le> 300) then Inl (BadTxInterval tx)
      else if rq_hold_multiplier req \<noteq> 0 \<and>
        \<not> (rq_hold_multiplier req \<le> 255 \<and> 2 \<le> rq_hold_multiplier req \<and> rq_hold_multiplier req \<le> 10)
      then Inl (BadHoldMultiplier (rq_hold_multiplier req))
      else Inr (set_lldp \<lparr>lldp_disabled = rq_disabled req, lldp_interval = from_secs (unat tx),
        hold_multiplier = (if rq_hold_multiplier req = 0 then default_hold_multiplier else ucast (rq_hold_multiplier req)),
        disabled_ports = bs_collect (rq_disabled_ports req)\<rparr> e))"

section \<open>Frames\<close>

definition lldp_mac_text :: "bytes \<Rightarrow> utf8" where
  "lldp_mac_text mac =
     ascii (join_with (CHR '':'') (map (\<lambda>b. [hex_digit (unat b div 16), hex_digit (unat b mod 16)]) mac))"

definition tlv_len :: "bytes \<Rightarrow> u16" where
  "tlv_len payload = (if length payload < 2 ^ 16 then of_nat (length payload) else 0) AND 0x1ff"

definition tlv :: "u8 \<Rightarrow> bytes \<Rightarrow> bytes" where
  "tlv kind payload =
     to_be 2 (push_bit 9 (ucast kind) OR tlv_len payload) @ take (unat (tlv_len payload)) payload"

definition parse_ipv4 :: "utf8 \<Rightarrow> bytes option" where
  "parse_ipv4 s =
     (if 15 < length s then None
      else case read_ipv4_addr (latin s) of Some (ds, []) \<Rightarrow> Some (map of_nat ds) | _ \<Rightarrow> None)"

definition octets_text :: "bytes \<Rightarrow> utf8" where
  "octets_text bs = ascii (join_with (CHR ''.'') (map (\<lambda>b. show_nat (unat b)) bs))"

definition address_tlv :: "utf8 \<Rightarrow> bytes" where
  "address_tlv address =
     (case parse_ipv4 address of
        Some bs \<Rightarrow> tlv 8 ([5, 1] @ bs @ [1] @ to_be 4 (0 :: u32) @ [0])
      | None \<Rightarrow> [])"

definition text_tlv :: "u8 \<Rightarrow> utf8 \<Rightarrow> bytes" where
  "text_tlv kind s = (if s \<noteq> [] then tlv kind s else [])"

definition lldp_tlvs :: "lldp_system \<Rightarrow> utf8 \<Rightarrow> port_info \<Rightarrow> u16 \<Rightarrow> bytes" where
  "lldp_tlvs system port info ttl =
     tlv 1 (4 # chassis_mac system) @ tlv 2 (5 # port) @ tlv 3 (to_be 2 ttl)
     @ text_tlv 4 (info_description info) @ text_tlv 5 (sys_name system) @ text_tlv 6 (sys_description system)
     @ address_tlv (management_address system) @ tlv 0 []"

definition lldp_frame :: "lldp_system \<Rightarrow> utf8 \<Rightarrow> port_info \<Rightarrow> u16 \<Rightarrow> bytes" where
  "lldp_frame system port info ttl =
     lldp_dst @ info_mac info @ to_be 2 lldp_ethertype @ lldp_tlvs system port info ttl"

definition encode_lldp :: "lldp_system \<Rightarrow> utf8 \<Rightarrow> port_info \<Rightarrow> u16 \<Rightarrow> bytes" where
  "encode_lldp system port info ttl =
     (let frame = lldp_frame system port info ttl in
      if length frame < 60 then frame @ replicate (60 - length frame) 0 else frame)"

definition chassis_subtype :: "u8 \<Rightarrow> utf8" where
  "chassis_subtype subtype =
     ascii (if subtype = 1 then ''chassis-component'' else if subtype = 2 then ''interface-alias''
       else if subtype = 3 then ''port-component'' else if subtype = 4 then ''mac''
       else if subtype = 5 then ''network-address'' else if subtype = 6 then ''interface-name''
       else if subtype = 7 then ''local'' else ''unknown'')"

definition port_subtype :: "u8 \<Rightarrow> utf8" where
  "port_subtype subtype =
     ascii (if subtype = 1 then ''interface-alias'' else if subtype = 2 then ''port-component''
       else if subtype = 3 then ''mac'' else if subtype = 4 then ''network-address''
       else if subtype = 5 then ''interface-name'' else if subtype = 6 then ''agent-circuit-id''
       else if subtype = 7 then ''local'' else ''unknown'')"

definition lldp_identifier :: "u8 \<Rightarrow> u8 \<Rightarrow> bytes \<Rightarrow> utf8" where
  "lldp_identifier subtype mac_subtype body =
     (if subtype = mac_subtype \<and> length body = 6 then lldp_mac_text body
      else trim_nul (from_utf8_lossy body))"

text \<open>
  The decoder. The outer \<open>option\<close> is a panic, the inner one the \<open>None\<close> of the source; \<open>attempt\<close>
  is its \<open>?\<close>. The kind of a TLV has seven bits, so that the conversion to \<open>u8\<close> succeeds.
\<close>

type_synonym 'a decoded = "'a option option"

definition attempt :: "'a option \<Rightarrow> ('a \<Rightarrow> 'b decoded) \<Rightarrow> 'b decoded" where
  "attempt m f = (case m of None \<Rightarrow> Some None | Some x \<Rightarrow> f x)"

definition decode_tlv :: "u16 \<Rightarrow> bytes \<Rightarrow> neighbor \<Rightarrow> bool \<Rightarrow> (neighbor \<times> bool) decoded" where
  "decode_tlv kind body nb seen =
     (if kind = 1 then
        attempt (idx body 0) (\<lambda>subtype. do { id \<leftarrow> slice_from body 1;
          Some (Some (nb\<lparr>chassis_id_subtype := chassis_subtype subtype, chassis_id := lldp_identifier subtype 4 id\<rparr>, seen)) })
      else if kind = 2 then
        attempt (idx body 0) (\<lambda>subtype. do { id \<leftarrow> slice_from body 1;
          Some (Some (nb\<lparr>port_id_subtype := port_subtype subtype, port_id := lldp_identifier subtype 3 id\<rparr>, seen)) })
      else if kind = 3 then
        attempt (idx body 0) (\<lambda>hi. attempt (idx body 1) (\<lambda>lo. Some (Some (nb\<lparr>nb_ttl := from_be [hi, lo]\<rparr>, True))))
      else if kind = 4 then Some (Some (nb\<lparr>port_description := from_utf8_lossy body\<rparr>, seen))
      else if kind = 5 then Some (Some (nb\<lparr>system_name := from_utf8_lossy body\<rparr>, seen))
      else if kind = 6 then Some (Some (nb\<lparr>system_description := from_utf8_lossy body\<rparr>, seen))
      else if kind = 8 \<and> idx body 0 = Some 5 \<and> idx body 1 = Some 1 then
        (case slice body 2 6 of
           Some bs \<Rightarrow> Some (Some (nb\<lparr>nb_management_address := octets_text bs\<rparr>, seen))
         | None \<Rightarrow> Some (Some (nb, seen)))
      else Some (Some (nb, seen)))"

function decode_tlvs :: "bytes \<Rightarrow> neighbor \<Rightarrow> bool \<Rightarrow> (neighbor \<times> bool) decoded" where
  "decode_tlvs rest nb seen =
     (if length rest < 2 then Some (Some (nb, seen))
      else
        let header = from_be (take 2 rest) :: u16; kind = drop_bit 9 header; len = unat (header AND 0x1ff) in
        case slice rest 2 (2 + len) of
          None \<Rightarrow> Some None
        | Some body \<Rightarrow>
            (case slice_from rest (2 + len) of
               None \<Rightarrow> None
             | Some rest' \<Rightarrow>
                 if kind = 0 then Some (Some (nb, seen))
                 else (case decode_tlv kind body nb seen of
                         None \<Rightarrow> None
                       | Some None \<Rightarrow> Some None
                       | Some (Some (nb', seen')) \<Rightarrow> decode_tlvs rest' nb' seen')))"
  by pat_completeness auto
termination
  by (relation "measure (\<lambda>(rest, _, _). length rest)") (auto simp: slice_from_def split: if_splits)

declare decode_tlvs.simps [simp del]

definition no_neighbor :: neighbor where
  "no_neighbor = \<lparr>chassis_id = [], chassis_id_subtype = [], port_id = [], port_id_subtype = [], port_description = [],
     system_name = [], system_description = [], nb_management_address = [], nb_ttl = 0\<rparr>"

definition decode_lldp :: "bytes \<Rightarrow> neighbor decoded" where
  "decode_lldp frame =
     attempt (idx frame 12) (\<lambda>hi. attempt (idx frame 13) (\<lambda>lo.
       if from_be [hi, lo] \<noteq> lldp_ethertype then Some None
       else attempt (slice_from frame 14) (\<lambda>rest.
         case decode_tlvs rest no_neighbor False of
           None \<Rightarrow> None
         | Some None \<Rightarrow> Some None
         | Some (Some (nb, seen)) \<Rightarrow>
             if chassis_id nb = [] \<or> port_id nb = [] \<or> \<not> seen then Some None else Some (Some nb))))"

section \<open>Events\<close>

definition change_port_link :: "bool \<Rightarrow> lldp_port \<Rightarrow> lldp_port" where
  "change_port_link up st =
     (if port_up st = up then st
      else st\<lparr>port_up := up, port_last_tx := None, neighbors := (if up then neighbors st else [])\<rparr>)"

definition lldp_link_event :: "utf8 \<Rightarrow> bool \<Rightarrow> lldp \<Rightarrow> lldp" where
  "lldp_link_event port up e = e\<lparr>lldp_ports := bt_update port (change_port_link up) (lldp_ports e)\<rparr>"

definition neighbor_key :: "neighbor \<Rightarrow> utf8 \<times> utf8" where
  "neighbor_key nb = (chassis_id nb, port_id nb)"

definition hear_neighbor :: "neighbor option \<Rightarrow> instant \<Rightarrow> lldp_port \<Rightarrow> lldp_port" where
  "hear_neighbor heard now st =
     (case heard of
        Some nb \<Rightarrow>
          if nb_ttl nb = 0 then st\<lparr>frames_rx := frames_rx st + 1, neighbors := bt_remove (neighbor_key nb) (neighbors st)\<rparr>
          else st\<lparr>frames_rx := frames_rx st + 1,
            neighbors := bt_insert (neighbor_key nb) \<lparr>learned_neighbor = nb, last_seen = now\<rparr> (neighbors st)\<rparr>
      | None \<Rightarrow> st\<lparr>frames_rx := frames_rx st + 1, frames_discarded := frames_discarded st + 1\<rparr>)"

definition receive_lldp :: "utf8 \<Rightarrow> bytes \<Rightarrow> instant \<Rightarrow> lldp \<Rightarrow> lldp option" where
  "receive_lldp port frame now e =
     (if \<not> port_enabled e port then Some e
      else case bt_get (lldp_ports e) port of
        None \<Rightarrow> Some e
      | Some _ \<Rightarrow>
          do { heard \<leftarrow> decode_lldp frame;
            Some (e\<lparr>lldp_ports := bt_update port (hear_neighbor heard now) (lldp_ports e)\<rparr>) })"

definition expired_at :: "instant \<Rightarrow> learned \<Rightarrow> bool" where
  "expired_at now l \<longleftrightarrow> unat (nb_ttl (learned_neighbor l)) \<le> as_secs (since now (last_seen l))"

definition age_neighbors :: "instant \<Rightarrow> lldp_port \<Rightarrow> lldp_port" where
  "age_neighbors now st =
     fold (\<lambda>key st. st\<lparr>neighbors := bt_remove key (neighbors st), ageouts := ageouts st + 1\<rparr>)
       (map fst (filter (\<lambda>(_, l). expired_at now l) (neighbors st))) st"

definition tx_due :: "duration \<Rightarrow> instant \<Rightarrow> lldp_port \<Rightarrow> bool" where
  "tx_due interval now st = (case port_last_tx st of Some at \<Rightarrow> interval \<le> since now at | None \<Rightarrow> True)"

definition pass_port :: "lldp \<Rightarrow> instant \<Rightarrow> utf8 \<Rightarrow> lldp_port \<Rightarrow> lldp_port \<times> (utf8 \<times> bytes) list" where
  "pass_port e now port st =
     (if \<not> port_enabled e port then (st\<lparr>neighbors := [], port_last_tx := None\<rparr>, [])
      else
        let st1 = age_neighbors now st in
        if \<not> port_up st1 then (st1\<lparr>port_last_tx := None\<rparr>, [])
        else if \<not> tx_due (lldp_interval (lldp_config e)) now st1 then (st1, [])
        else (st1\<lparr>port_last_tx := Some now, frames_tx := frames_tx st1 + 1\<rparr>,
              [(port, encode_lldp (lldp_system e) port (port_info st1) (advertised_ttl e))]))"

definition lldp_step :: "instant \<Rightarrow> lldp \<Rightarrow> lldp \<times> (utf8 \<times> bytes) list" where
  "lldp_step now e =
     (e\<lparr>lldp_ports := bt_map (\<lambda>port st. fst (pass_port e now port st)) (lldp_ports e)\<rparr>,
      concat (map (\<lambda>(port, st). snd (pass_port e now port st)) (lldp_ports e)))"

text \<open>
  The atomic actions under the lock. The engine's task runs \<open>LldpStep\<close> after every link event, frame,
  tick and wake-up; calls from other tasks can come between the two.
\<close>

datatype lldp_event =
    LldpConfigure lldp_request
  | LldpSystem lldp_system
  | LldpPorts "(utf8, port_info) btree"
  | LldpClear utf8
  | LldpLink utf8 bool
  | LldpFrame utf8 bytes instant
  | LldpStep instant

fun lldp_turn :: "lldp \<Rightarrow> lldp_event \<Rightarrow> (lldp \<times> (utf8 \<times> bytes) list) option" where
  "lldp_turn e (LldpConfigure req) = Some (case set_lldp_config req e of Inl _ \<Rightarrow> e | Inr e' \<Rightarrow> e', [])"
| "lldp_turn e (LldpSystem s) = Some (set_system s e, [])"
| "lldp_turn e (LldpPorts ps) = Some (set_ports ps e, [])"
| "lldp_turn e (LldpClear port) = Some (snd (clear_lldp_counters port e), [])"
| "lldp_turn e (LldpLink port up) = Some (lldp_link_event port up e, [])"
| "lldp_turn e (LldpFrame port frame now) = map_option (\<lambda>e'. (e', [])) (receive_lldp port frame now e)"
| "lldp_turn e (LldpStep now) = Some (lldp_step now e)"

section \<open>The view of the operator\<close>

record neighbor_snapshot =
  ns_neighbor :: neighbor
  ns_age_secs :: nat

record lldp_port_snapshot =
  lps_port :: utf8
  lps_enabled :: bool
  lps_frames_tx :: u64
  lps_frames_rx :: u64
  lps_frames_discarded :: u64
  lps_ageouts :: u64
  lps_neighbors :: "neighbor_snapshot list"

record lldp_snapshot =
  ls_enabled :: bool
  ls_tx_interval_secs :: u32
  ls_hold_multiplier :: u8
  ls_chassis_id :: utf8
  ls_system_name :: utf8
  ls_system_description :: utf8
  ls_management_address :: utf8
  ls_ports :: "lldp_port_snapshot list"

definition snapshot_lldp_port :: "lldp \<Rightarrow> instant \<Rightarrow> utf8 \<Rightarrow> lldp_port \<Rightarrow> lldp_port_snapshot" where
  "snapshot_lldp_port e now name st =
     \<lparr>lps_port = name, lps_enabled = port_enabled e name, lps_frames_tx = frames_tx st, lps_frames_rx = frames_rx st,
      lps_frames_discarded = frames_discarded st, lps_ageouts = ageouts st,
      lps_neighbors = map (\<lambda>(_, l). \<lparr>ns_neighbor = learned_neighbor l, ns_age_secs = as_secs (since now (last_seen l))\<rparr>)
        (neighbors st)\<rparr>"

definition snapshot_lldp :: "instant \<Rightarrow> lldp \<Rightarrow> lldp_snapshot" where
  "snapshot_lldp now e =
     (let secs = as_secs (lldp_interval (lldp_config e)) in
      \<lparr>ls_enabled = (\<not> lldp_disabled (lldp_config e)),
       ls_tx_interval_secs = (if secs < 2 ^ 32 then of_nat secs else - 1),
       ls_hold_multiplier = hold_multiplier (lldp_config e),
       ls_chassis_id = lldp_mac_text (chassis_mac (lldp_system e)),
       ls_system_name = sys_name (lldp_system e),
       ls_system_description = sys_description (lldp_system e),
       ls_management_address = management_address (lldp_system e),
       ls_ports = map (\<lambda>(name, st). snapshot_lldp_port e now name st) (lldp_ports e)\<rparr>)"


section \<open>No frame panics the engine\<close>

lemma returns_attempt [intro]: "(\<And>x. m = Some x \<Longrightarrow> returns (f x)) \<Longrightarrow> returns (attempt m f)"
  by (auto simp: attempt_def split: option.split)

lemma returns_decode_tlv: "returns (decode_tlv kind body nb seen)"
proof -
  have "idx body 0 = Some b \<Longrightarrow> returns (slice_from body 1)" for b
    by (auto simp: idx_def Suc_le_eq split: if_splits)
  then show ?thesis
    unfolding decode_tlv_def
    by (intro returns_if returns_attempt returns_bind returns_Some) (auto split: option.split)
qed

lemma slice_tail: "slice rest 2 (2 + n) = Some body \<Longrightarrow> slice_from rest (2 + n) = Some (drop (2 + n) rest)"
  by (auto simp: slice_def slice_from_def split: if_splits)

lemma returns_decode_tlvs: "returns (decode_tlvs rest nb seen)"
proof (induction rest nb seen rule: decode_tlvs.induct)
  case (1 rest nb seen)
  show ?case
    by (subst decode_tlvs.simps)
      (use 1 returns_decode_tlv slice_tail in \<open>fastforce simp: Let_def returns_def split: option.split\<close>)
qed

lemma returns_decode_lldp: "returns (decode_lldp frame)"
  using returns_decode_tlvs unfolding decode_lldp_def
  by (intro returns_attempt returns_if) (auto simp: returns_def split: option.split)

lemma lldp_turn_total: "\<exists>e' outs. lldp_turn e ev = Some (e', outs)"
proof (cases ev)
  case (LldpFrame port frame now)
  then show ?thesis
    using returns_decode_lldp [of frame] by (auto simp: receive_lldp_def returns_def split: option.split)
next
  case (LldpStep now)
  then show ?thesis by (simp add: lldp_step_def)
qed simp_all

section \<open>Frames are read back\<close>

definition clip :: "bytes \<Rightarrow> bytes" where
  "clip payload = take (unat (tlv_len payload)) payload"

lemma unat_tlv_len: "unat (tlv_len payload) = (if length payload < 2 ^ 16 then length payload mod 512 else 0)"
proof -
  have m: "(0x1ff :: u16) = mask 9" by (simp add: mask_eq_exp_minus_1)
  show ?thesis
    unfolding tlv_len_def m by (simp add: unat_of_nat unat_mod take_bit_eq_mod flip: take_bit_eq_mask)
qed

lemma clip_id: "length s \<le> 511 \<Longrightarrow> clip s = s"
  by (simp add: clip_def unat_tlv_len)

lemma length_clip: "length (clip s) = unat (tlv_len s)"
  by (simp add: clip_def unat_tlv_len)

lemma tlv_header:
  assumes "kind < 128"
  shows "drop_bit 9 (push_bit 9 (ucast kind) OR tlv_len payload) = (ucast kind :: u16)"
    and "(push_bit 9 (ucast (kind :: u8)) OR tlv_len payload) AND 0x1ff = tlv_len payload"
proof -
  have m: "(0x1ff :: u16) = mask 9" by (simp add: mask_eq_exp_minus_1)
  have k: "\<not> bit kind n" if "7 \<le> n" for n
  proof
    assume "bit kind n"
    then have "n < 8" using bit_imp_le_length by fastforce
    with that have n: "n = 7" by simp
    have "take_bit 7 kind = kind"
      using assms by (simp add: word_unat_eq_iff unsigned_take_bit_eq take_bit_nat_eq_self_iff word_less_nat_alt)
    with \<open>bit kind n\<close> n show False by (metis bit_take_bit_iff less_irrefl)
  qed
  show "drop_bit 9 (push_bit 9 (ucast kind) OR tlv_len payload) = (ucast kind :: u16)"
    by (rule bit_word_eqI) (use k in \<open>auto simp: m bit_simps tlv_len_def not_le [symmetric]\<close>)
  show "(push_bit 9 (ucast kind) OR tlv_len payload) AND 0x1ff = tlv_len payload"
    by (rule bit_word_eqI) (auto simp: m bit_simps tlv_len_def)
qed

definition after_tlv :: "(neighbor \<times> bool) decoded \<Rightarrow> bytes \<Rightarrow> (neighbor \<times> bool) decoded" where
  "after_tlv r rest = (case r of None \<Rightarrow> None | Some None \<Rightarrow> Some None | Some (Some (nb, seen)) \<Rightarrow> decode_tlvs rest nb seen)"

lemma decode_tlvs_tlv:
  assumes "kind < 128"
  shows "decode_tlvs (tlv kind payload @ rest) nb seen =
    (if kind = 0 then Some (Some (nb, seen)) else after_tlv (decode_tlv (ucast kind) (clip payload) nb seen) rest)"
proof -
  define h :: u16 where "h = push_bit 9 (ucast kind) OR tlv_len payload"
  obtain a b where ab: "to_be 2 h = [a, b]" "from_be [a, b] = h" by (rule to_be_2_cases)
  have t: "tlv kind payload @ rest = a # b # clip payload @ rest"
    by (simp add: tlv_def clip_def ab flip: h_def)
  have z: "(ucast kind :: u16) = 0 \<longleftrightarrow> kind = 0"
    using unat_u8_less [of kind] by (simp add: word_unat_eq_iff unsigned_ucast_eq take_bit_nat_eq_self)
  have h: "drop_bit 9 h = ucast kind" "unat (h AND 0x1ff) = length (clip payload)"
    using tlv_header [OF assms, of payload] by (simp_all only: h_def length_clip)
  show ?thesis
    unfolding t
    by (subst decode_tlvs.simps)
      (simp add: ab h z slice_def slice_from_def after_tlv_def split: option.split)
qed

lemma decode_tlv_texts:
  "decode_tlv 4 body nb seen = Some (Some (nb\<lparr>port_description := from_utf8_lossy body\<rparr>, seen))"
  "decode_tlv 5 body nb seen = Some (Some (nb\<lparr>system_name := from_utf8_lossy body\<rparr>, seen))"
  "decode_tlv 6 body nb seen = Some (Some (nb\<lparr>system_description := from_utf8_lossy body\<rparr>, seen))"
  by (simp_all add: decode_tlv_def)

lemma decode_tlv_ids:
  "decode_tlv 1 (b # bs) nb seen =
     Some (Some (nb\<lparr>chassis_id_subtype := chassis_subtype b, chassis_id := lldp_identifier b 4 bs\<rparr>, seen))"
  "decode_tlv 2 (b # bs) nb seen =
     Some (Some (nb\<lparr>port_id_subtype := port_subtype b, port_id := lldp_identifier b 3 bs\<rparr>, seen))"
  by (simp_all add: decode_tlv_def attempt_def idx_def slice_from_def)

lemma decode_tlv_ttl: "decode_tlv 3 (to_be 2 w) nb seen = Some (Some (nb\<lparr>nb_ttl := w\<rparr>, True))"
  by (rule to_be_2_cases [of w]) (simp add: decode_tlv_def attempt_def idx_def)

lemma decode_tlvs_text:
  "decode_tlvs (text_tlv 4 s @ rest) nb seen =
     decode_tlvs rest (if s = [] then nb else nb\<lparr>port_description := from_utf8_lossy (clip s)\<rparr>) seen"
  "decode_tlvs (text_tlv 5 s @ rest) nb seen =
     decode_tlvs rest (if s = [] then nb else nb\<lparr>system_name := from_utf8_lossy (clip s)\<rparr>) seen"
  "decode_tlvs (text_tlv 6 s @ rest) nb seen =
     decode_tlvs rest (if s = [] then nb else nb\<lparr>system_description := from_utf8_lossy (clip s)\<rparr>) seen"
  by (simp_all add: text_tlv_def decode_tlvs_tlv decode_tlv_texts after_tlv_def)

lemma length_read_octets: "read_octets i n cs = Some (ds, rest) \<Longrightarrow> length ds = n"
  by (induction i n cs arbitrary: ds rest rule: read_octets.induct) (auto split: option.splits)

lemma length_parse_ipv4: "parse_ipv4 s = Some bs \<Longrightarrow> length bs = 4"
  using length_read_octets [of 0 4 "latin s"]
  by (auto simp: parse_ipv4_def read_ipv4_addr_def split: if_splits option.splits list.splits)

definition address_text :: "utf8 \<Rightarrow> utf8" where
  "address_text s = (case parse_ipv4 s of Some bs \<Rightarrow> octets_text bs | None \<Rightarrow> [])"

lemma decode_tlvs_address:
  "decode_tlvs (address_tlv s @ rest) nb seen =
     decode_tlvs rest (if parse_ipv4 s = None then nb else nb\<lparr>nb_management_address := address_text s\<rparr>) seen"
proof (cases "parse_ipv4 s")
  case (Some bs)
  let ?body = "[5, 1] @ bs @ [1] @ to_be 4 (0 :: u32) @ [0 :: u8]"
  have l: "length bs = 4" by (rule length_parse_ipv4 [OF Some])
  then have "slice ?body 2 6 = Some bs" "clip ?body = ?body"
    by (simp_all add: slice_def clip_id)
  then have "decode_tlv 8 (clip ?body) nb' seen = Some (Some (nb'\<lparr>nb_management_address := octets_text bs\<rparr>, seen))" for nb'
    by (simp add: decode_tlv_def idx_def)
  then show ?thesis
    using decode_tlvs_tlv [of 8 ?body rest] Some by (simp add: address_tlv_def address_text_def after_tlv_def)
qed (simp add: address_tlv_def address_text_def)

text \<open>What the receiver of an advertisement reads.\<close>

definition advertised :: "lldp_system \<Rightarrow> utf8 \<Rightarrow> port_info \<Rightarrow> u16 \<Rightarrow> neighbor" where
  "advertised sys port info t =
     \<lparr>chassis_id = lldp_mac_text (chassis_mac sys), chassis_id_subtype = ascii ''mac'',
      port_id = port, port_id_subtype = ascii ''interface-name'',
      port_description = from_utf8_lossy (clip (info_description info)),
      system_name = from_utf8_lossy (clip (sys_name sys)), system_description = from_utf8_lossy (clip (sys_description sys)),
      nb_management_address = address_text (management_address sys), nb_ttl = t\<rparr>"

definition port_name_ok :: "utf8 \<Rightarrow> bool" where
  "port_name_ok port \<longleftrightarrow> valid_utf8 port \<and> port \<noteq> [] \<and> last port \<noteq> 0 \<and> length port \<le> 510"

lemma decode_lldp_tlvs:
  assumes "length (chassis_mac sys) = 6" and "port_name_ok port"
  shows "decode_tlvs (lldp_tlvs sys port info t @ pad) no_neighbor False = Some (Some (advertised sys port info t, True))"
proof -
  have ids: "lldp_identifier 4 4 (chassis_mac sys) = lldp_mac_text (chassis_mac sys)" "lldp_identifier 5 3 port = port"
    "chassis_subtype 4 = ascii ''mac''" "port_subtype 5 = ascii ''interface-name''"
    using assms by (simp_all add: lldp_identifier_def port_name_ok_def from_utf8_lossy_valid trim_nul_id chassis_subtype_def port_subtype_def)
  have clips: "clip (4 # chassis_mac sys) = 4 # chassis_mac sys" "clip (5 # port) = 5 # port" "clip (to_be 2 t) = to_be 2 t"
    using assms by (simp_all add: clip_id port_name_ok_def)
  have "clip [] = []" by (simp add: clip_def)
  then show ?thesis
    by (simp add: lldp_tlvs_def decode_tlvs_tlv clips ids decode_tlv_ids decode_tlv_ttl after_tlv_def decode_tlvs_text
        decode_tlvs_address advertised_def no_neighbor_def address_text_def split: option.split)
qed

lemma lldp_mac_text_not_Nil: "mac \<noteq> [] \<Longrightarrow> lldp_mac_text mac \<noteq> []"
  by (cases mac) (simp_all add: lldp_mac_text_def ascii_def join_with_Cons)

lemma encode_lldp_eq:
  "encode_lldp sys port info t = lldp_frame sys port info t @ replicate (60 - length (lldp_frame sys port info t)) 0"
  by (simp add: encode_lldp_def Let_def)

lemma decode_encode_lldp:
  assumes "length (chassis_mac sys) = 6" and "port_name_ok port" and "length (info_mac info) = 6"
  shows "decode_lldp (encode_lldp sys port info t) = Some (Some (advertised sys port info t))"
proof -
  obtain pad where pad: "encode_lldp sys port info t = lldp_dst @ info_mac info @ to_be 2 lldp_ethertype @ lldp_tlvs sys port info t @ pad"
    by (simp add: encode_lldp_eq lldp_frame_def)
  obtain a b where ab: "to_be 2 lldp_ethertype = [a, b]" "from_be [a, b] = lldp_ethertype"
    by (rule to_be_2_cases)
  let ?head = "lldp_dst @ info_mac info"
  have "length ?head = 12" using assms(3) by (simp add: lldp_dst_def)
  then have "idx (encode_lldp sys port info t) 12 = Some a" "idx (encode_lldp sys port info t) 13 = Some b"
    "slice_from (encode_lldp sys port info t) 14 = Some (lldp_tlvs sys port info t @ pad)"
    unfolding pad ab using assms(3) by (auto simp: idx_def slice_from_def nth_append lldp_dst_def)
  moreover have "chassis_id (advertised sys port info t) \<noteq> []" "port_id (advertised sys port info t) \<noteq> []"
    using assms(1,2) lldp_mac_text_not_Nil [of "chassis_mac sys"]
    by (cases "chassis_mac sys"; simp add: advertised_def port_name_ok_def)+
  ultimately show ?thesis
    by (simp add: decode_lldp_def attempt_def ab decode_lldp_tlvs [OF assms(1,2)])
qed



lemma octets_from_be: "length bs = 4 \<Longrightarrow> octets (from_be bs) = map unat bs"
  using to_be_from_be [of bs, where 'a = 32] map_unat_to_be [of 4 "from_be bs :: 32 word"] by (simp add: octets_def)

lemma latin_ascii: "latin (ascii s) = s"
proof -
  have "char_of (unat (of_nat (code c) :: u8)) = c" for c
    by (simp add: unat_of_nat code_def)
  then show ?thesis by (simp add: latin_def ascii_def comp_def)
qed

lemma length_octets_text: "length bs = 4 \<Longrightarrow> length (octets_text bs) \<le> 15"
proof -
  assume "length bs = 4"
  then obtain a b c d where "bs = [a, b, c, d]" by (auto simp: numeral_eq_Suc length_Suc_conv)
  moreover have "length (show_nat (unat x)) \<le> 3" for x :: u8
    by (rule length_show_nat) (use unat_u8_less [of x] in simp_all)
  from this [of a] this [of b] this [of c] this [of d]
  have "length (show_nat (unat a)) + length (show_nat (unat b)) + length (show_nat (unat c)) + length (show_nat (unat d)) \<le> 12"
    by linarith
  ultimately show ?thesis by (simp add: octets_text_def ascii_def join_with_Cons sep_tail_def)
qed

lemma parse_octets_text: "length bs = 4 \<Longrightarrow> parse_ipv4 (octets_text bs) = Some bs"
proof -
  assume l: "length bs = 4"
  have "octets_text bs = ascii (show_ipv4 (from_be bs))"
    by (simp add: octets_text_def show_ipv4_def octets_from_be [OF l] comp_def)
  then have "read_ipv4_addr (latin (octets_text bs)) = Some (map unat bs, [])"
    using read_ipv4_show [of "[]" "from_be bs"] by (simp add: latin_ascii octets_from_be [OF l])
  with length_octets_text [OF l] show ?thesis by (simp add: parse_ipv4_def comp_def)
qed

definition text_ok :: "utf8 \<Rightarrow> bool" where
  "text_ok s \<longleftrightarrow> valid_utf8 s \<and> length s \<le> 511"

text \<open>
  C24. An advertisement is read as it was written. A receiver decodes it to the sender's chassis address, port name,
  description, system name and description, management address and lifetime, exactly, for every identity whose
  texts fit into a TLV (511 bytes; a port name that is not empty and does not end in NUL, an address that is empty or in
  dotted form); the frame has at least the 60 bytes of the wire.
\<close>

theorem lldp_frame_roundtrip:
  assumes "length (chassis_mac sys) = 6" and "length (info_mac info) = 6" and "port_name_ok port"
    and "text_ok (info_description info)" and "text_ok (sys_name sys)" and "text_ok (sys_description sys)"
    and "management_address sys = [] \<or> (\<exists>bs. length bs = 4 \<and> management_address sys = octets_text bs)"
  shows "decode_lldp (encode_lldp sys port info t) =
      Some (Some \<lparr>chassis_id = lldp_mac_text (chassis_mac sys), chassis_id_subtype = ascii ''mac'',
        port_id = port, port_id_subtype = ascii ''interface-name'', port_description = info_description info,
        system_name = sys_name sys, system_description = sys_description sys,
        nb_management_address = management_address sys, nb_ttl = t\<rparr>) \<and>
    60 \<le> length (encode_lldp sys port info t)"
proof -
  have "parse_ipv4 [] = None" by (simp add: parse_ipv4_def latin_def read_ipv4_colon)
  then have "address_text (management_address sys) = management_address sys"
    using assms(7) by (auto simp: address_text_def parse_octets_text)
  moreover have "from_utf8_lossy (clip s) = s" if "text_ok s" for s
    using that by (simp add: text_ok_def clip_id from_utf8_lossy_valid)
  ultimately show ?thesis
    using decode_encode_lldp [OF assms(1,3,2), of t] assms(4-6)
    by (auto simp: advertised_def encode_lldp_eq)
qed
section \<open>The neighbour table\<close>

text \<open>What is known of a port, where an unknown port is like a fresh one.\<close>

definition port_view :: "(lldp_port \<Rightarrow> 'a) \<Rightarrow> lldp \<Rightarrow> utf8 \<Rightarrow> 'a" where
  "port_view g e port = (case bt_get (lldp_ports e) port of None \<Rightarrow> g default_lldp_port | Some st \<Rightarrow> g st)"

definition listed :: "lldp \<Rightarrow> utf8 \<Rightarrow> utf8 \<times> utf8 \<Rightarrow> learned option" where
  "listed e port key = bt_get (port_view neighbors e port) key"

definition lldp_config_ok :: "lldp_config \<Rightarrow> bool" where
  "lldp_config_ok c \<longleftrightarrow> (\<exists>n. lldp_interval c = from_secs n \<and> 5 \<le> n \<and> n \<le> 300) \<and>
     2 \<le> unat (hold_multiplier c) \<and> unat (hold_multiplier c) \<le> 10"

definition lldp_wf :: "lldp \<Rightarrow> bool" where
  "lldp_wf e \<longleftrightarrow> lldp_config_ok (lldp_config e) \<and> bt_wf (lldp_ports e) \<and>
     list_all (\<lambda>(_, st). bt_wf (neighbors st)) (lldp_ports e)"

definition lldp_moves :: "lldp \<Rightarrow> lldp_event \<Rightarrow> lldp \<Rightarrow> bool" where
  "lldp_moves e ev e' \<longleftrightarrow> (\<exists>outs. lldp_turn e ev = Some (e', outs))"

lemma lldp_config_ok_default: "lldp_config_ok default_lldp_config"
  by (auto simp: lldp_config_ok_def default_lldp_config_def default_tx_interval_def default_hold_multiplier_def)

lemma set_lldp_config_ok:
  assumes "set_lldp_config req e = Inr e'"
  shows "lldp_config_ok (lldp_config e')" and "lldp_ports e' = lldp_ports e"
    and "disabled_ports (lldp_config e') = bs_collect (rq_disabled_ports req)"
    and "lldp_disabled (lldp_config e') = rq_disabled req"
proof -
  define tx where "tx = (if rq_tx_interval req = 0 then default_tx_interval else rq_tx_interval req)"
  define hold where "hold = (if rq_hold_multiplier req = 0 then default_hold_multiplier else ucast (rq_hold_multiplier req))"
  have tx: "5 \<le> unat tx" "unat tx \<le> 300" and h: "rq_hold_multiplier req = 0 \<or> 2 \<le> rq_hold_multiplier req \<and> rq_hold_multiplier req \<le> 10"
    and e': "e' = set_lldp \<lparr>lldp_disabled = rq_disabled req, lldp_interval = from_secs (unat tx), hold_multiplier = hold,
      disabled_ports = bs_collect (rq_disabled_ports req)\<rparr> e"
    using assms by (auto simp: set_lldp_config_def Let_def tx_def hold_def word_le_nat_alt split: if_splits)
  have hold: "2 \<le> unat hold" "unat hold \<le> 10"
    using h by (auto simp: hold_def default_hold_multiplier_def word_le_nat_alt unsigned_ucast_eq take_bit_nat_eq_self)
  then have c: "lldp_config e' = \<lparr>lldp_disabled = rq_disabled req, lldp_interval = from_secs (unat tx), hold_multiplier = hold,
      disabled_ports = bs_collect (rq_disabled_ports req)\<rparr>"
    using tx by (auto simp: e' set_lldp_def Let_def from_secs_def)
  show "lldp_config_ok (lldp_config e')" using tx hold by (auto simp: c lldp_config_ok_def)
  show "lldp_ports e' = lldp_ports e" by (simp add: e' set_lldp_def Let_def)
  show "disabled_ports (lldp_config e') = bs_collect (rq_disabled_ports req)" "lldp_disabled (lldp_config e') = rq_disabled req"
    by (simp_all add: c)
qed

subsection \<open>Ageing\<close>

lemma age_neighbors_fields [simp]:
  "port_up (age_neighbors now st) = port_up st" "port_last_tx (age_neighbors now st) = port_last_tx st"
  "port_info (age_neighbors now st) = port_info st"
proof -
  have "port_up (fold (\<lambda>key st. st\<lparr>neighbors := bt_remove key (neighbors st), ageouts := ageouts st + 1\<rparr>) ks st) = port_up st \<and>
    port_last_tx (fold (\<lambda>key st. st\<lparr>neighbors := bt_remove key (neighbors st), ageouts := ageouts st + 1\<rparr>) ks st) = port_last_tx st \<and>
    port_info (fold (\<lambda>key st. st\<lparr>neighbors := bt_remove key (neighbors st), ageouts := ageouts st + 1\<rparr>) ks st) = port_info st" for ks
    by (induction ks arbitrary: st) simp_all
  then show "port_up (age_neighbors now st) = port_up st" "port_last_tx (age_neighbors now st) = port_last_tx st"
    "port_info (age_neighbors now st) = port_info st"
    by (simp_all add: age_neighbors_def)
qed

lemma neighbors_fold_remove:
  "neighbors (fold (\<lambda>key st. st\<lparr>neighbors := bt_remove key (neighbors st), ageouts := ageouts st + 1\<rparr>) ks st) =
     filter (\<lambda>(k, _). k \<notin> set ks) (neighbors st)"
  by (induction ks arbitrary: st) (auto simp: bt_remove_def intro!: filter_cong)

lemma neighbors_age:
  assumes "bt_wf (neighbors st)"
  shows "neighbors (age_neighbors now st) = bt_retain (\<lambda>_ l. \<not> expired_at now l) (neighbors st)"
  using bt_wf_distinct [OF assms] unfolding age_neighbors_def neighbors_fold_remove bt_retain_def
  by (intro filter_cong) (auto dest: eq_key_imp_eq_value intro: rev_image_eqI)

subsection \<open>What each event does to a port\<close>

lemma port_view_same: "lldp_ports e' = lldp_ports e \<Longrightarrow> port_view g e' p = port_view g e p"
  by (simp add: port_view_def)

lemma port_view_unknown: "\<not> bt_contains (lldp_ports e) p \<Longrightarrow> port_view g e p = g default_lldp_port"
  by (simp add: port_view_def bt_contains_def)

lemma port_view_clear:
  assumes "\<And>st. g (clear_port st) = g st"
  shows "port_view g (snd (clear_lldp_counters port e)) p = port_view g e p"
  using assms by (simp add: port_view_def clear_lldp_counters_def Let_def bt_simps split: option.split)

lemma fold_ports:
  assumes "\<And>st i. g (st\<lparr>port_info := i\<rparr>) = g st"
  shows "(case bt_get (fold add_port ps m) p of None \<Rightarrow> g default_lldp_port | Some st \<Rightarrow> g st) =
    (case bt_get m p of None \<Rightarrow> g default_lldp_port | Some st \<Rightarrow> g st)"
proof (induction ps arbitrary: m)
  case (Cons x ps)
  then show ?case
    using assms by (cases x) (auto simp: add_port_def bt_simps split: option.split)
qed simp

lemma port_view_set_ports:
  assumes "bt_wf (lldp_ports e)" and "\<And>st i. g (st\<lparr>port_info := i\<rparr>) = g st"
  shows "port_view g (set_ports ps e) p = (if bt_contains ps p then port_view g e p else g default_lldp_port)"
  by (simp add: port_view_def set_ports_def fold_ports [of g, OF assms(2)] bt_get_retain [OF assms(1)] split: option.split)

lemma port_view_update:
  "port_view g (e\<lparr>lldp_ports := bt_update q f (lldp_ports e)\<rparr>) p =
     (if p = q \<and> bt_contains (lldp_ports e) p then port_view (\<lambda>st. g (f st)) e p else port_view g e p)"
  by (auto simp: port_view_def bt_simps bt_contains_def split: option.split)

lemma receive_cases:
  assumes "receive_lldp q frame now e = Some e'"
  obtains "e' = e" "\<not> port_enabled e q \<or> \<not> bt_contains (lldp_ports e) q"
  | heard where "port_enabled e q" "bt_contains (lldp_ports e) q" "decode_lldp frame = Some heard"
    "e' = e\<lparr>lldp_ports := bt_update q (hear_neighbor heard now) (lldp_ports e)\<rparr>"
  using assms by (auto simp: receive_lldp_def bt_contains_def bind_eq_Some_conv split: if_splits option.splits)

lemma port_view_step:
  "port_view g (fst (lldp_step now e)) p =
     (if bt_contains (lldp_ports e) p then port_view (\<lambda>st. g (fst (pass_port e now p st))) e p else port_view g e p)"
  by (simp add: port_view_def lldp_step_def bt_simps bt_contains_def split: option.split)

lemma neighbors_pass:
  assumes "bt_wf (neighbors st)"
  shows "bt_get (neighbors (fst (pass_port e now p st))) k =
    (case bt_get (neighbors st) k of
       None \<Rightarrow> None
     | Some l \<Rightarrow> if port_enabled e p \<and> \<not> expired_at now l then Some l else None)"
  using neighbors_age [OF assms] bt_get_retain [OF assms]
  by (simp add: pass_port_def Let_def split: option.split)

subsection \<open>The invariant\<close>

lemma wf_set_ports:
  assumes "bt_wf (lldp_ports e)" and "list_all (\<lambda>(_, st). bt_wf (neighbors st)) (lldp_ports e)"
  shows "bt_wf (lldp_ports (set_ports ps e)) \<and> list_all (\<lambda>(_, st). bt_wf (neighbors st)) (lldp_ports (set_ports ps e))"
proof -
  let ?P = "\<lambda>m. bt_wf m \<and> list_all (\<lambda>(_, st). bt_wf (neighbors st)) m"
  have "?P (bt_retain (\<lambda>name _. bt_contains ps name) (lldp_ports e))"
    using assms by (auto simp: bt_retain_def bt_wf_filter list_all_iff)
  moreover have "?P (add_port x m)" if "?P m" for x m
    using that by (auto simp: add_port_def bt_or_insert_def default_lldp_port_def
        intro!: list_all_bt_update list_all_bt_insert split: option.split)
  ultimately have "?P (fold add_port ps (bt_retain (\<lambda>name _. bt_contains ps name) (lldp_ports e)))"
    by (rule fold_keeps [where P = ?P])
  then show ?thesis by (simp add: set_ports_def)
qed

lemma wf_neighbors:
  "bt_wf (neighbors st) \<Longrightarrow> bt_wf (neighbors (clear_port st))"
  "bt_wf (neighbors st) \<Longrightarrow> bt_wf (neighbors (change_port_link up st))"
  "bt_wf (neighbors st) \<Longrightarrow> bt_wf (neighbors (hear_neighbor heard now st))"
  "bt_wf (neighbors st) \<Longrightarrow> bt_wf (neighbors (fst (pass_port e now p st)))"
  by (auto simp: clear_port_def change_port_link_def hear_neighbor_def pass_port_def Let_def neighbors_age split: option.split)

lemma list_all_bt_map:
  "list_all (\<lambda>(_, v). P v) m \<Longrightarrow> (\<And>k v. P v \<Longrightarrow> P (f k v)) \<Longrightarrow> list_all (\<lambda>(_, v). P v) (bt_map f m)"
  by (auto simp: bt_map_def list_all_iff)

lemma lldp_wf_turn:
  assumes "lldp_wf e" and "lldp_turn e ev = Some (e', outs)"
  shows "lldp_wf e'"
proof (cases ev)
  case (LldpConfigure req)
  then show ?thesis
    using assms set_lldp_config_ok(1,2) by (cases "set_lldp_config req e") (auto simp: lldp_wf_def)
next
  case (LldpPorts ps)
  then show ?thesis
    using assms wf_set_ports [of e ps] by (auto simp: lldp_wf_def set_ports_def)
next
  case (LldpClear port)
  then show ?thesis
    using assms by (auto simp: lldp_wf_def clear_lldp_counters_def Let_def intro!: list_all_bt_map wf_neighbors)
next
  case (LldpLink port up)
  then show ?thesis
    using assms by (auto simp: lldp_wf_def lldp_link_event_def bt_update_def intro!: list_all_bt_map wf_neighbors)
next
  case (LldpFrame port frame now)
  then show ?thesis
    using assms
    by (auto simp: lldp_wf_def receive_lldp_def bind_eq_Some_conv bt_update_def intro!: list_all_bt_map wf_neighbors
        split: if_splits option.splits)
next
  case (LldpStep now)
  then show ?thesis
    using assms by (auto simp: lldp_wf_def lldp_step_def intro!: list_all_bt_map wf_neighbors)
qed (use assms in \<open>auto simp: lldp_wf_def set_system_def\<close>)

interpretation lldp_engine: machine lldp_moves lldp_wf
  by unfold_locales (auto simp: lldp_moves_def intro: lldp_wf_turn)

lemma lldp_wf_spawn: "lldp_wf (spawn_lldp mac)"
  by (simp add: lldp_wf_def spawn_lldp_def lldp_config_ok_default)

lemma lldp_wf_neighbors: "lldp_wf e \<Longrightarrow> bt_wf (port_view neighbors e p)"
  by (auto simp: lldp_wf_def port_view_def default_lldp_port_def bt_get_in_set list_all_iff split: option.split)

section \<open>Neighbours are genuine\<close>

lemma lldp_turn_enabled:
  assumes "lldp_turn e ev = Some (e', outs)" and "\<And>req. ev \<noteq> LldpConfigure req"
  shows "lldp_config e' = lldp_config e"
  using assms
  by (cases ev) (auto simp: set_system_def set_ports_def clear_lldp_counters_def lldp_link_event_def receive_lldp_def
      bind_eq_Some_conv lldp_step_def Let_def split: if_splits option.splits)

lemma listed_step:
  assumes "lldp_wf e"
  shows "listed (fst (lldp_step now e)) p k =
    (case listed e p k of None \<Rightarrow> None | Some l \<Rightarrow> if port_enabled e p \<and> \<not> expired_at now l then Some l else None)"
proof (cases "bt_get (lldp_ports e) p")
  case (Some st)
  then have "bt_wf (neighbors st)" using lldp_wf_neighbors [OF assms, of p] by (simp add: port_view_def)
  with Some show ?thesis
    by (simp add: listed_def port_view_step bt_contains_def) (simp add: port_view_def neighbors_pass)
qed (simp add: listed_def port_view_step bt_contains_def, simp add: port_view_def default_lldp_port_def)

lemma listed_link:
  "listed (lldp_link_event q up e) p k = (if p = q \<and> \<not> up \<and> port_view port_up e p then None else listed e p k)"
proof (cases "bt_get (lldp_ports e) p")
  case None
  then show ?thesis
    by (simp add: listed_def lldp_link_event_def port_view_update bt_contains_def) (simp add: port_view_def default_lldp_port_def)
next
  case (Some st)
  then show ?thesis
    by (auto simp: listed_def lldp_link_event_def port_view_update bt_contains_def) (auto simp: port_view_def change_port_link_def)
qed

lemma listed_hear:
  "bt_get (neighbors (hear_neighbor heard now st)) k =
     (case heard of
        Some nb \<Rightarrow> if neighbor_key nb = k then (if nb_ttl nb = 0 then None else Some \<lparr>learned_neighbor = nb, last_seen = now\<rparr>)
          else bt_get (neighbors st) k
      | None \<Rightarrow> bt_get (neighbors st) k)"
  by (auto simp: hear_neighbor_def bt_simps split: option.split)

lemma listed_receive:
  assumes "receive_lldp q frame now e = Some e'"
  shows "listed e' p k =
    (case decode_lldp frame of
       Some (Some nb) \<Rightarrow>
         if p = q \<and> port_enabled e q \<and> bt_contains (lldp_ports e) q \<and> neighbor_key nb = k
         then (if nb_ttl nb = 0 then None else Some \<lparr>learned_neighbor = nb, last_seen = now\<rparr>) else listed e p k
     | _ \<Rightarrow> listed e p k)"
  using assms
proof (cases rule: receive_cases)
  case (2 heard)
  then show ?thesis
    by (auto simp: listed_def port_view_update) (auto simp: listed_def port_view_def listed_hear bt_contains_def split: option.split)
qed (auto split: option.split)

text \<open>A listed neighbour was listed before, or the event is the frame that announced it.\<close>

definition announces :: "utf8 \<Rightarrow> utf8 \<times> utf8 \<Rightarrow> learned \<Rightarrow> lldp_event \<Rightarrow> bool" where
  "announces p k l ev \<longleftrightarrow> (\<exists>frame. ev = LldpFrame p frame (last_seen l) \<and>
     decode_lldp frame = Some (Some (learned_neighbor l)) \<and> k = neighbor_key (learned_neighbor l) \<and> nb_ttl (learned_neighbor l) \<noteq> 0)"

lemma listed_turn:
  assumes "lldp_wf e" and "lldp_turn e ev = Some (e', outs)" and "listed e' p k = Some l"
  shows "listed e p k = Some l \<or> announces p k l ev"
proof (cases ev)
  case (LldpConfigure req)
  then show ?thesis
    using assms set_lldp_config_ok(2)
    by (cases "set_lldp_config req e") (auto simp: listed_def port_view_def)
next
  case (LldpPorts ps)
  then show ?thesis
    using assms by (auto simp: lldp_wf_def listed_def port_view_set_ports default_lldp_port_def split: if_splits)
next
  case (LldpClear port)
  then show ?thesis using assms by (auto simp: listed_def port_view_clear clear_port_def)
next
  case (LldpLink port up)
  then show ?thesis
    using assms by (auto simp: listed_link split: if_splits)
next
  case (LldpFrame q frame now)
  with assms(2) have "receive_lldp q frame now e = Some e'" by auto
  from listed_receive [OF this, of p k] show ?thesis
    using assms(3) by (auto simp: LldpFrame announces_def split: option.splits if_splits)
next
  case (LldpStep now)
  then show ?thesis
    using assms listed_step [OF assms(1), of now p k] by (auto split: option.splits if_splits)
qed (use assms in \<open>auto simp: listed_def port_view_def set_system_def\<close>)

lemma listed_run:
  assumes "run lldp_moves e evs e'" and "lldp_wf e" and "listed e' p k = Some l"
  shows "listed e p k = Some l \<or> (\<exists>ev \<in> set evs. announces p k l ev)"
  using assms
proof (induction rule: run.induct)
  case (run_Cons s ev s1 evs s')
  obtain outs where t: "lldp_turn s ev = Some (s1, outs)" using run_Cons.hyps(1) by (auto simp: lldp_moves_def)
  from run_Cons.IH [OF lldp_wf_turn [OF run_Cons.prems(1) t] run_Cons.prems(2)] listed_turn [OF run_Cons.prems(1) t, of p k l]
  show ?case by auto
qed simp

text \<open>
  C22. The neighbour table is genuine. Whatever the engine was fed since its start, right after a pass every
  neighbour listed on a port was announced by a frame that arrived on that port, at the instant the table
  records and with the contents the table shows; less time than the lifetime it announced has passed since; and
  LLDP is enabled on the port.
\<close>

theorem lldp_neighbors_genuine:
  assumes "run lldp_moves (spawn_lldp mac) evs e" and "lldp_turn e (LldpStep now) = Some (e', outs)"
    and "listed e' port key = Some l"
  shows "port_enabled e' port \<and>
    (\<exists>frame. LldpFrame port frame (last_seen l) \<in> set evs \<and> decode_lldp frame = Some (Some (learned_neighbor l))) \<and>
    key = neighbor_key (learned_neighbor l) \<and>
    as_secs (since now (last_seen l)) < unat (nb_ttl (learned_neighbor l))"
proof -
  have wf: "lldp_wf e" by (rule lldp_engine.run_inv [OF assms(1) lldp_wf_spawn])
  have e': "e' = fst (lldp_step now e)" using assms(2) by simp
  have l: "listed e port key = Some l" "port_enabled e port" "\<not> expired_at now l"
    using assms(3) unfolding e' listed_step [OF wf] by (auto split: option.splits if_splits)
  moreover have "port_enabled e' port = port_enabled e port" by (simp add: e' lldp_step_def port_enabled_def)
  moreover have "\<exists>ev \<in> set evs. announces port key l ev"
    using listed_run [OF assms(1) lldp_wf_spawn l(1)] by (simp add: listed_def port_view_def spawn_lldp_def default_lldp_port_def)
  ultimately show ?thesis by (auto simp: announces_def expired_at_def not_le)
qed

section \<open>Neighbours last\<close>

text \<open>The events that may take a neighbour off the list.\<close>

definition forgets :: "utf8 \<Rightarrow> learned \<Rightarrow> lldp_event \<Rightarrow> bool" where
  "forgets p l ev =
     (case ev of
        LldpConfigure req \<Rightarrow> rq_disabled req \<or> p \<in> set (rq_disabled_ports req)
      | LldpPorts ps \<Rightarrow> \<not> bt_contains ps p
      | LldpLink q up \<Rightarrow> q = p \<and> \<not> up
      | LldpFrame q frame _ \<Rightarrow> q = p \<and>
          (case decode_lldp frame of Some (Some nb) \<Rightarrow> neighbor_key nb = neighbor_key (learned_neighbor l) | _ \<Rightarrow> False)
      | LldpStep now \<Rightarrow> expired_at now l
      | _ \<Rightarrow> False)"

definition keeps_listed :: "utf8 \<Rightarrow> learned \<Rightarrow> lldp \<Rightarrow> bool" where
  "keeps_listed p l e \<longleftrightarrow> port_enabled e p \<and> listed e p (neighbor_key (learned_neighbor l)) = Some l"

lemma keeps_listed_turn:
  assumes "lldp_wf e" and "keeps_listed p l e" and "lldp_turn e ev = Some (e', outs)" and "\<not> forgets p l ev"
  shows "keeps_listed p l e'"
proof (cases ev)
  case (LldpConfigure req)
  then show ?thesis
    using assms set_lldp_config_ok(2-4) [of req e]
    by (cases "set_lldp_config req e") (auto simp: keeps_listed_def forgets_def port_enabled_def listed_def port_view_def)
next
  case (LldpPorts ps)
  then show ?thesis
    using assms
    by (auto simp: keeps_listed_def forgets_def lldp_wf_def listed_def port_view_set_ports port_enabled_def)
      (auto simp: set_ports_def)
next
  case (LldpClear port)
  then show ?thesis
    using assms by (auto simp: keeps_listed_def listed_def port_view_clear clear_port_def port_enabled_def)
      (auto simp: clear_lldp_counters_def Let_def)
next
  case (LldpLink q up)
  then show ?thesis
    using assms by (auto simp: keeps_listed_def forgets_def listed_link port_enabled_def)
      (auto simp: lldp_link_event_def)
next
  case (LldpFrame q frame now)
  with assms(3) have r: "receive_lldp q frame now e = Some e'" by auto
  then have "lldp_config e' = lldp_config e" using lldp_turn_enabled [OF assms(3)] LldpFrame by blast
  then show ?thesis
    using listed_receive [OF r, of p] assms(2,4)
    by (auto simp: keeps_listed_def LldpFrame forgets_def port_enabled_def split: option.splits if_splits)
next
  case (LldpStep now)
  then have e': "e' = fst (lldp_step now e)" using assms(3) by simp
  have "port_enabled e' p = port_enabled e p" by (simp add: e' lldp_step_def port_enabled_def)
  then show ?thesis
    using assms(2,4) listed_step [OF assms(1), of now p] by (simp add: e' keeps_listed_def forgets_def LldpStep)
qed (use assms in \<open>auto simp: keeps_listed_def listed_def port_view_def set_system_def port_enabled_def\<close>)

lemma advertised_ttl_bounds:
  assumes "lldp_config_ok (lldp_config e)"
  shows "2 * lldp_interval (lldp_config e) \<le> from_secs (unat (advertised_ttl e))" and "advertised_ttl e \<noteq> 0"
proof -
  obtain n where n: "lldp_interval (lldp_config e) = from_secs n" "5 \<le> n" "n \<le> 300"
    using assms by (auto simp: lldp_config_ok_def)
  define h where "h = unat (hold_multiplier (lldp_config e))"
  have h: "2 \<le> h" "h \<le> 10" using assms by (simp_all add: lldp_config_ok_def h_def)
  have m: "max (hold_multiplier (lldp_config e)) 1 = hold_multiplier (lldp_config e)"
    using h(1) by (simp add: max_def h_def word_le_nat_alt)
  have le: "n * h \<le> 3000" using n(3) h(2) mult_le_mono [of n 300 h 10] by simp
  then have "advertised_ttl e = of_nat (n * h)"
    by (simp add: advertised_ttl_def n(1) m flip: h_def)
  then have t: "unat (advertised_ttl e) = n * h"
    using le by (simp only: unat_of_nat) simp
  have "2 * n \<le> n * h" using h(1) by simp
  then show "2 * lldp_interval (lldp_config e) \<le> from_secs (unat (advertised_ttl e))"
    by (simp add: t n(1) from_secs_def)
  show "advertised_ttl e \<noteq> 0" using t n(2) h(1) by (metis unat_0 mult_eq_0_iff not_numeral_le_zero)
qed

lemma as_secs_less: "d < from_secs n \<Longrightarrow> as_secs d < n"
  by (simp add: as_secs_def from_secs_def less_mult_imp_div_less)

text \<open>
  Events that neither disable the port, remove it, take its link down nor bring another frame of that neighbour,
  and passes before a limit.
\<close>

definition undisturbed :: "utf8 \<Rightarrow> utf8 \<times> utf8 \<Rightarrow> instant \<Rightarrow> lldp_event \<Rightarrow> bool" where
  "undisturbed p key limit ev =
     (case ev of
        LldpConfigure req \<Rightarrow> \<not> rq_disabled req \<and> p \<notin> set (rq_disabled_ports req)
      | LldpPorts ps \<Rightarrow> bt_contains ps p
      | LldpLink q up \<Rightarrow> q \<noteq> p \<or> up
      | LldpFrame q frame _ \<Rightarrow> q \<noteq> p \<or>
          (case decode_lldp frame of Some (Some nb) \<Rightarrow> neighbor_key nb \<noteq> key | _ \<Rightarrow> True)
      | LldpStep now \<Rightarrow> now < limit
      | _ \<Rightarrow> True)"

lemma undisturbed_keeps:
  assumes "undisturbed p (neighbor_key (learned_neighbor l)) limit ev"
    and "limit \<le> last_seen l + from_secs (unat (nb_ttl (learned_neighbor l)))" and "nb_ttl (learned_neighbor l) \<noteq> 0"
  shows "\<not> forgets p l ev"
proof (cases ev)
  case (LldpStep now)
  then have "since now (last_seen l) < from_secs (unat (nb_ttl (learned_neighbor l)))"
    using assms unat_gt_0 [of "nb_ttl (learned_neighbor l)"]
    by (cases "last_seen l \<le> now") (auto simp: undisturbed_def from_secs_def)
  from as_secs_less [OF this] show ?thesis by (simp add: LldpStep forgets_def expired_at_def)
qed (use assms(1) in \<open>auto simp: undisturbed_def forgets_def split: option.splits\<close>)

lemma sent_by_pass:
  assumes "(p, frame) \<in> set (snd (lldp_step now e))" and "bt_wf (lldp_ports e)"
  shows "frame = encode_lldp (lldp_system e) p (port_view port_info e p) (advertised_ttl e) \<and> port_enabled e p \<and> port_view port_up e p"
proof -
  obtain q st where st: "(q, st) \<in> set (lldp_ports e)" "(p, frame) \<in> set (snd (pass_port e now q st))"
    using assms(1) by (auto simp: lldp_step_def)
  then have "q = p" by (auto simp: pass_port_def Let_def split: if_splits)
  moreover have "bt_get (lldp_ports e) q = Some st" using st(1) assms(2) by (simp add: bt_get_in_set)
  ultimately show ?thesis
    using st(2) by (auto simp: port_view_def pass_port_def Let_def split: if_splits)
qed

text \<open>
  C21. Two switches see each other. Let a switch send an advertisement on a port, after any run of its engine, and
  let another one receive it on a port it knows and where LLDP is enabled. Then that one lists the sender, with its
  chassis address, port, lifetime and texts as the frame carries them (see \<open>advertised\<close>: a text of more than 511
  bytes is cut to its length modulo 512, a management address that is not in dotted form is left out), and goes on
  listing exactly that for twice the sender's advertisement interval, through any further events that leave the
  port alone (\<open>undisturbed\<close>): its link does not go down, LLDP is not disabled on it, it stays in the list of ports,
  and no other frame of that sender and port comes in on it, neither a fresh advertisement, which would replace
  the entry, nor one with lifetime 0, which would remove it. So one lost advertisement does not make the
  neighbour disappear. The clocks of the two need not agree.
\<close>

theorem lldp_neighbor_lasts:
  assumes "run lldp_moves (spawn_lldp mac) evsA a" and "lldp_turn a (LldpStep t) = Some (a', outs)"
    and "(p, frame) \<in> set outs"
    and "length (chassis_mac (lldp_system a)) = 6" and "length (info_mac (port_view port_info a p)) = 6" and "port_name_ok p"
    and "run lldp_moves (spawn_lldp mac') evsB b" and "port_enabled b q" and "bt_contains (lldp_ports b) q"
    and "run lldp_moves b (LldpFrame q frame at # evs) b'"
    and "list_all (undisturbed q (lldp_mac_text (chassis_mac (lldp_system a)), p) (at + 2 * lldp_interval (lldp_config a))) evs"
  shows "listed b' q (lldp_mac_text (chassis_mac (lldp_system a)), p) =
    Some \<lparr>learned_neighbor = advertised (lldp_system a) p (port_view port_info a p) (advertised_ttl a), last_seen = at\<rparr>"
proof -
  define nb where "nb = advertised (lldp_system a) p (port_view port_info a p) (advertised_ttl a)"
  define l where "l = \<lparr>learned_neighbor = nb, last_seen = at\<rparr>"
  have a: "lldp_wf a" and b: "lldp_wf b"
    using lldp_engine.run_inv [OF assms(1) lldp_wf_spawn] lldp_engine.run_inv [OF assms(7) lldp_wf_spawn] .
  have "frame = encode_lldp (lldp_system a) p (port_view port_info a p) (advertised_ttl a)"
    using sent_by_pass [of p frame t a] assms(2,3) a by (auto simp: lldp_wf_def)
  then have dec: "decode_lldp frame = Some (Some nb)"
    using decode_encode_lldp [OF assms(4,6,5)] by (simp add: nb_def)
  have key: "neighbor_key nb = (lldp_mac_text (chassis_mac (lldp_system a)), p)" and ttl: "nb_ttl nb = advertised_ttl a"
    by (simp_all add: nb_def advertised_def neighbor_key_def)
  obtain b1 where b1: "lldp_moves b (LldpFrame q frame at) b1" "run lldp_moves b1 evs b'"
    using assms(10) by (auto elim: run_ConsE)
  then have r: "receive_lldp q frame at b = Some b1" by (auto simp: lldp_moves_def)
  have ok: "lldp_config_ok (lldp_config a)" using a by (simp add: lldp_wf_def)
  have "lldp_config b1 = lldp_config b" using b1(1) lldp_turn_enabled unfolding lldp_moves_def by blast
  then have start: "keeps_listed q l b1"
    using listed_receive [OF r, of q "neighbor_key nb"] assms(8,9) dec advertised_ttl_bounds(2) [OF ok] ttl
    by (simp add: keeps_listed_def l_def port_enabled_def)
  have un: "undisturbed q (neighbor_key (learned_neighbor l)) (at + 2 * lldp_interval (lldp_config a)) ev \<Longrightarrow> \<not> forgets q l ev" for ev
    by (erule undisturbed_keeps) (use advertised_ttl_bounds [OF ok] ttl in \<open>simp_all add: l_def\<close>)
  have "lldp_wf b1" using lldp_engine.step_inv [OF b b1(1)] .
  from lldp_engine.run_inv_keeps [where P = "keeps_listed q l", OF b1(2) this start, of "\<lambda>ev. \<not> forgets q l ev"]
  have "keeps_listed q l b'"
    using assms(11) un key by (force simp: list_all_iff l_def lldp_moves_def intro: keeps_listed_turn)
  then show ?thesis by (simp add: keeps_listed_def l_def key flip: nb_def)
qed

section \<open>Advertisements are sent in time\<close>

definition lldp_sends :: "lldp \<Rightarrow> lldp_event \<Rightarrow> lldp \<times> (instant \<times> utf8 \<times> bytes) list" where
  "lldp_sends e ev =
     (case ev of
        LldpStep now \<Rightarrow> (fst (lldp_step now e), map (Pair now) (snd (lldp_step now e)))
      | _ \<Rightarrow> (fst (the (lldp_turn e ev)), []))"

lemma lldp_sends_turn: "\<exists>outs. lldp_turn e ev = Some (fst (lldp_sends e ev), outs)"
proof -
  obtain e' outs where "lldp_turn e ev = Some (e', outs)" using lldp_turn_total by blast
  then show ?thesis by (cases ev) (auto simp: lldp_sends_def)
qed

lemma lldp_wf_sends: "lldp_wf e \<Longrightarrow> lldp_wf (fst (lldp_sends e ev))"
  using lldp_sends_turn [of e ev] lldp_wf_turn by blast

lemma port_view_other:
  assumes "lldp_wf e" and "lldp_turn e ev = Some (e', outs)" and "\<And>now. ev \<noteq> LldpStep now"
    and "\<And>st. g (clear_port st) = g st" and "\<And>st i. g (st\<lparr>port_info := i\<rparr>) = g st"
    and "\<And>heard now st. g (hear_neighbor heard now st) = g st"
  shows "port_view g e' p = port_view g e p \<or> port_view g e' p = g default_lldp_port \<or>
    (\<exists>up. ev = LldpLink p up \<and> bt_contains (lldp_ports e) p \<and> port_view g e' p = port_view (\<lambda>st. g (change_port_link up st)) e p)"
proof (cases ev)
  case (LldpConfigure req)
  then show ?thesis
    using assms(2) set_lldp_config_ok(2) by (cases "set_lldp_config req e") (auto simp: port_view_def)
next
  case (LldpPorts ps)
  then show ?thesis using assms(1,2,5) by (auto simp: lldp_wf_def port_view_set_ports)
next
  case (LldpClear port)
  then show ?thesis using assms(2,4) by (auto simp: port_view_clear)
next
  case (LldpLink q up)
  then show ?thesis
    using assms(2) port_view_update [where g = g and e = e and q = q and f = "change_port_link up" and p = p] by (auto simp: lldp_link_event_def split: if_splits)
next
  case (LldpFrame q frame now)
  then have "receive_lldp q frame now e = Some e'" using assms(2) by auto
  then show ?thesis
    by (cases rule: receive_cases) (simp_all add: port_view_update assms(6))
qed (use assms(2,3) in \<open>auto simp: port_view_def set_system_def\<close>)

lemma port_fields:
  "port_last_tx (clear_port st) = port_last_tx st" "port_up (clear_port st) = port_up st"
  "port_last_tx (hear_neighbor heard now st) = port_last_tx st" "port_up (hear_neighbor heard now st) = port_up st"
  by (simp_all add: clear_port_def hear_neighbor_def split: option.split)

lemma last_tx_turn:
  assumes "lldp_wf e" and "port_view port_last_tx (fst (lldp_sends e ev)) p = Some t"
  shows "port_view port_last_tx e p = Some t \<or>
    (\<exists>sys info ttl. (t, p, encode_lldp sys p info ttl) \<in> set (snd (lldp_sends e ev)))"
proof (cases "\<exists>now. ev = LldpStep now")
  case True
  then obtain now where ev: "ev = LldpStep now" by blast
  show ?thesis
  proof (cases "bt_get (lldp_ports e) p")
    case None
    then show ?thesis using assms(2) by (simp add: ev lldp_sends_def port_view_step bt_contains_def)
  next
    case (Some st)
    then have "port_last_tx (fst (pass_port e now p st)) = Some t"
      using assms(2) by (simp add: ev lldp_sends_def port_view_step bt_contains_def) (simp add: port_view_def)
    moreover have "(p, st) \<in> set (lldp_ports e)" using Some assms(1) by (simp add: lldp_wf_def bt_get_in_set)
    ultimately show ?thesis
      using Some by (force simp: ev lldp_sends_def lldp_step_def pass_port_def Let_def port_view_def split: if_splits)
  qed
next
  case False
  obtain outs where t: "lldp_turn e ev = Some (fst (lldp_sends e ev), outs)" using lldp_sends_turn by blast
  have "port_last_tx default_lldp_port = None" by (simp add: default_lldp_port_def)
  moreover have "port_view (\<lambda>st. port_last_tx (change_port_link up st)) e p = Some t \<Longrightarrow> port_view port_last_tx e p = Some t" for up
    by (auto simp: port_view_def change_port_link_def split: option.splits if_splits)
  ultimately show ?thesis
    using port_view_other [where g = port_last_tx and p = p, OF assms(1) t] False assms(2) by (auto simp: port_fields)
qed

lemma last_tx_sent:
  assumes "pushes lldp_sends e evs e' sent" and "lldp_wf e" and "port_view port_last_tx e' p = Some t"
  shows "port_view port_last_tx e p = Some t \<or> (\<exists>sys info ttl. (t, p, encode_lldp sys p info ttl) \<in> set sent)"
  using assms
proof (induction rule: pushes.induct)
  case (pushes_Cons s ev s1 us evs s' vs)
  have "lldp_wf s1" using lldp_wf_sends [OF pushes_Cons.prems(1), of ev] pushes_Cons.hyps(1) by simp
  from pushes_Cons.IH [OF this pushes_Cons.prems(2)] last_tx_turn [OF pushes_Cons.prems(1), of ev p t] pushes_Cons.hyps(1)
  show ?case by auto
qed simp

lemma pushes_wf: "pushes lldp_sends e evs e' sent \<Longrightarrow> lldp_wf e \<Longrightarrow> lldp_wf e'"
  by (induction rule: pushes.induct) (metis lldp_wf_sends fst_conv)+

lemma last_tx_pass:
  assumes "lldp_wf e" and "port_enabled e p" and "port_view port_up (fst (lldp_step now e)) p"
  obtains t where "port_view port_last_tx (fst (lldp_step now e)) p = Some t" and "since now t < lldp_interval (lldp_config e)"
proof (cases "bt_get (lldp_ports e) p")
  case None
  then have False
    using assms(3) by (simp add: port_view_step bt_contains_def) (simp add: port_view_def default_lldp_port_def)
  then show thesis ..
next
  case (Some st)
  have pos: "0 < lldp_interval (lldp_config e)"
    using assms(1) by (auto simp: lldp_wf_def lldp_config_ok_def from_secs_def)
  have "port_view port_up (fst (lldp_step now e)) p = port_up (fst (pass_port e now p st))"
    "port_view port_last_tx (fst (lldp_step now e)) p = port_last_tx (fst (pass_port e now p st))"
    using Some by (simp_all add: port_view_step bt_contains_def) (simp_all add: port_view_def)
  with assms(2,3) pos show thesis
    by (intro that [of "the (port_last_tx (fst (pass_port e now p st)))"])
      (auto simp: pass_port_def Let_def tx_due_def split: if_splits option.splits)
qed

text \<open>
  C25. Advertisements are sent in time. Whatever the engine was fed since its start, after every pass a port whose
  link is up and on which LLDP is enabled has sent an advertisement less than the configured interval ago, in
  this pass or an earlier one.
\<close>

theorem lldp_advertises_in_time:
  assumes "pushes lldp_sends (spawn_lldp mac) evs e sent" and "lldp_sends e (LldpStep now) = (e', new)"
    and "port_enabled e' p" and "port_view port_up e' p"
  shows "\<exists>t sys info ttl. (t, p, encode_lldp sys p info ttl) \<in> set (sent @ new) \<and> since now t < lldp_interval (lldp_config e')"
proof -
  have wf: "lldp_wf e" by (rule pushes_wf [OF assms(1) lldp_wf_spawn])
  have e': "e' = fst (lldp_step now e)" using assms(2) by (simp add: lldp_sends_def)
  have c: "lldp_config e' = lldp_config e" by (simp add: e' lldp_step_def)
  then have "port_enabled e p" using assms(3) by (simp add: port_enabled_def)
  from last_tx_pass [OF wf this] assms(4) obtain t where
    t: "port_view port_last_tx e' p = Some t" "since now t < lldp_interval (lldp_config e)" unfolding e' by blast
  have "port_view port_last_tx (spawn_lldp mac) p = None"
    by (simp add: port_view_def spawn_lldp_def default_lldp_port_def)
  then have "\<exists>sys info ttl. (t, p, encode_lldp sys p info ttl) \<in> set (sent @ new)"
    using last_tx_sent [OF pushes_snoc [OF assms(1), of "LldpStep now"] lldp_wf_spawn, of p t] t(1) assms(2) by simp
  with t(2) c show ?thesis by auto
qed

section \<open>A link event before the ports are known\<close>

lemma sends_nothing_down:
  assumes "\<not> port_view port_up e p" and "lldp_wf e" and "ev \<noteq> LldpLink p True"
  shows "\<not> port_view port_up (fst (lldp_sends e ev)) p" and "(t, p, f) \<notin> set (snd (lldp_sends e ev))"
proof -
  obtain outs where t: "lldp_turn e ev = Some (fst (lldp_sends e ev), outs)" using lldp_sends_turn by blast
  show "\<not> port_view port_up (fst (lldp_sends e ev)) p"
  proof (cases "\<exists>now. ev = LldpStep now")
    case True
    then show ?thesis
      using assms(1) by (auto simp: lldp_sends_def port_view_step) (auto simp: port_view_def pass_port_def Let_def split: option.splits if_splits)
  next
    case False
    moreover have "\<not> port_up default_lldp_port" by (simp add: default_lldp_port_def)
    moreover have "ev = LldpLink p up \<Longrightarrow> \<not> port_view (\<lambda>st. port_up (change_port_link up st)) e p" for up
      using assms(1,3) by (cases up) (auto simp: port_view_def change_port_link_def default_lldp_port_def split: option.splits)
    ultimately show ?thesis
      using port_view_other [where g = port_up and p = p, OF assms(2) t] assms(1,3) by (auto simp: port_fields)
  qed
  show "(t, p, f) \<notin> set (snd (lldp_sends e ev))"
    using sent_by_pass [of p f] assms(1,2) by (auto simp: lldp_sends_def lldp_wf_def split: lldp_event.splits)
qed

lemma run_down_sends_nothing:
  assumes "pushes lldp_sends e evs e' sent" and "lldp_wf e" and "\<not> port_view port_up e p" and "LldpLink p True \<notin> set evs"
  shows "(t, p, f) \<notin> set sent"
  using assms
proof (induction rule: pushes.induct)
  case (pushes_Cons s ev s1 us evs s' vs)
  have "ev \<noteq> LldpLink p True" using pushes_Cons.prems(3) by auto
  from sends_nothing_down [OF pushes_Cons.prems(2,1) this] lldp_wf_sends [OF pushes_Cons.prems(1), of ev] pushes_Cons
  show ?case by auto
qed simp

text \<open>Until a list of ports has the port, nothing the engine is told about the port is kept.\<close>

lemma port_unknown_sends:
  assumes "bt_get (lldp_ports e) p = None" and "lldp_wf e" and "\<And>ps. ev = LldpPorts ps \<Longrightarrow> \<not> bt_contains ps p"
  shows "bt_get (lldp_ports (fst (lldp_sends e ev))) p = None"
proof (cases ev)
  case (LldpConfigure req)
  then show ?thesis
    using assms(1) set_lldp_config_ok(2) [of req e] by (cases "set_lldp_config req e") (auto simp: lldp_sends_def)
next
  case (LldpPorts ps)
  have absent: "bt_get (fold add_port ps t) p = bt_get t p" if "\<not> bt_contains ps p" for t
    using that
  proof (induction ps arbitrary: t)
    case (Cons x ps)
    then show ?case by (cases x) (auto simp: add_port_def bt_contains_def bt_get_update bt_get_or_insert split: if_splits)
  qed simp
  have "bt_wf (lldp_ports e)" using assms(2) by (simp add: lldp_wf_def)
  then show ?thesis
    using assms(1) assms(3) [OF LldpPorts] by (simp add: LldpPorts lldp_sends_def set_ports_def absent bt_get_retain)
next
  case (LldpFrame q frame now)
  obtain e' outs where "lldp_turn e ev = Some (e', outs)" using lldp_turn_total by blast
  then have e': "receive_lldp q frame now e = Some e'" "fst (lldp_sends e ev) = e'" by (auto simp: LldpFrame lldp_sends_def)
  from e'(1) have "bt_get (lldp_ports e') p = None"
    using assms(1) by (auto simp: receive_lldp_def bind_eq_Some_conv bt_simps split: option.splits if_splits)
  then show ?thesis by (simp only: e'(2))
qed (use assms(1) in \<open>auto simp: lldp_sends_def set_system_def clear_lldp_counters_def lldp_link_event_def lldp_step_def Let_def bt_simps\<close>)

text \<open>
  C34. A link event that comes before the port is known is lost. The task that follows the links reports the
  state of every port once and then only changes; the ports themselves come from another task. Whatever the
  engine is told before the first list of ports that has the port, reports that its link is up included, and
  whatever comes after, it sends no advertisement on the port, however long it runs, as long as the link is not
  reported up once more after those early events.
\<close>

theorem lldp_early_link_lost:
  assumes "pushes lldp_sends (spawn_lldp mac) (before @ evs) e sent"
    and "\<forall>ps. LldpPorts ps \<in> set before \<longrightarrow> \<not> bt_contains ps p" and "LldpLink p True \<notin> set evs"
  shows "(t, p, frame) \<notin> set sent"
proof -
  have "(t, p, frame) \<notin> set sent"
    if "pushes lldp_sends s (before @ evs) e sent" "lldp_wf s" "bt_get (lldp_ports s) p = None"
      "\<forall>ps. LldpPorts ps \<in> set before \<longrightarrow> \<not> bt_contains ps p" for s sent
    using that
  proof (induction before arbitrary: s sent)
    case Nil
    then show ?case
      using assms(3) run_down_sends_nothing [of s evs e sent p] by (simp add: port_view_def default_lldp_port_def)
  next
    case (Cons ev before)
    then obtain s1 us vs where s1: "lldp_sends s ev = (s1, us)" "pushes lldp_sends s1 (before @ evs) e vs" "sent = us @ vs"
      by (auto elim: pushes.cases)
    have "bt_get (lldp_ports s1) p = None"
      using port_unknown_sends [of s p ev] Cons.prems(2-4) s1(1) by auto
    moreover have "lldp_wf s1" using lldp_wf_sends [OF Cons.prems(2), of ev] s1(1) by simp
    ultimately have "(t, p, frame) \<notin> set vs" using Cons.IH s1(2) Cons.prems(4) by auto
    moreover have "\<not> port_view port_up s p" using Cons.prems(3) by (simp add: port_view_def default_lldp_port_def)
    then have "(t, p, frame) \<notin> set us"
      using sent_by_pass [of p frame] Cons.prems(2) s1(1) by (auto simp: lldp_sends_def lldp_wf_def split: lldp_event.splits)
    ultimately show ?case by (simp add: s1(3))
  qed
  from this [OF assms(1) lldp_wf_spawn _ assms(2)] show ?thesis by (simp add: spawn_lldp_def)
qed


section \<open>An example\<close>

definition demo_port_name :: utf8 where
  "demo_port_name = ascii ''Ethernet1''"

definition demo_port_info :: port_info where
  "demo_port_info = \<lparr>info_mac = [2, 0, 0, 0, 0, 2], info_description = ascii ''uplink''\<rparr>"

definition demo_system :: lldp_system where
  "demo_system = \<lparr>chassis_mac = [2, 0, 0, 0, 0, 1], sys_name = ascii ''leaf1'', sys_description = [],
     management_address = octets_text [10, 0, 0, 9]\<rparr>"

definition demo_events :: "lldp_event list" where
  "demo_events = [LldpPorts [(demo_port_name, demo_port_info)], LldpSystem demo_system, LldpLink demo_port_name True]"

definition demo_lldp :: lldp where
  "demo_lldp = \<lparr>lldp_config = default_lldp_config, lldp_system = demo_system,
     lldp_ports = [(demo_port_name, default_lldp_port\<lparr>port_info := demo_port_info, port_up := True\<rparr>)]\<rparr>"

lemmas demo_lldp_defs = demo_port_name_def demo_port_info_def demo_system_def demo_events_def demo_lldp_def

lemma ascii_ok: "list_all (\<lambda>c. code c < 128) s \<Longrightarrow> valid_utf8 (ascii s)"
  by (rule valid_utf8_ascii) (auto simp: ascii_def list_all_iff word_less_nat_alt unat_of_nat)

lemma demo_names_ok:
  "port_name_ok demo_port_name" "text_ok (info_description demo_port_info)" "text_ok (sys_name demo_system)"
  "text_ok (sys_description demo_system)"
  by (simp_all add: port_name_ok_def text_ok_def demo_lldp_defs ascii_ok code_def)
    (simp_all add: ascii_def code_def)

lemma demo_macs_ok: "length (chassis_mac demo_system) = 6" "length (info_mac demo_port_info) = 6"
  by (simp_all add: demo_lldp_defs)

theorem lldp_frame_roundtrip_witness:
  "decode_lldp (encode_lldp demo_system demo_port_name demo_port_info 120) =
     Some (Some \<lparr>chassis_id = lldp_mac_text (chassis_mac demo_system), chassis_id_subtype = ascii ''mac'',
       port_id = demo_port_name, port_id_subtype = ascii ''interface-name'', port_description = info_description demo_port_info,
       system_name = sys_name demo_system, system_description = sys_description demo_system,
       nb_management_address = octets_text [10, 0, 0, 9], nb_ttl = 120\<rparr>)"
proof -
  have "management_address demo_system = octets_text [10, 0, 0, 9]" "length [10, 0, 0, 9 :: u8] = 4"
    by (simp_all add: demo_system_def)
  with lldp_frame_roundtrip [OF demo_macs_ok demo_names_ok, of 120] show ?thesis by metis
qed

lemma demo_turns:
  "lldp_turn (spawn_lldp mac) (LldpPorts [(demo_port_name, demo_port_info)]) =
     Some ((spawn_lldp mac)\<lparr>lldp_ports := [(demo_port_name, default_lldp_port\<lparr>port_info := demo_port_info\<rparr>)]\<rparr>, [])"
  "lldp_turn ((spawn_lldp mac)\<lparr>lldp_ports := [(demo_port_name, default_lldp_port\<lparr>port_info := demo_port_info\<rparr>)]\<rparr>) (LldpSystem demo_system) =
     Some ((spawn_lldp mac)\<lparr>lldp_ports := [(demo_port_name, default_lldp_port\<lparr>port_info := demo_port_info\<rparr>)], lldp_system := demo_system\<rparr>, [])"
  "lldp_turn ((spawn_lldp mac)\<lparr>lldp_ports := [(demo_port_name, default_lldp_port\<lparr>port_info := demo_port_info\<rparr>)], lldp_system := demo_system\<rparr>)
     (LldpLink demo_port_name True) = Some (demo_lldp, [])"
  by (simp_all add: set_ports_def add_port_def spawn_lldp_def bt_retain_def bt_update_def bt_map_def bt_or_insert_def set_system_def
      lldp_link_event_def change_port_link_def demo_lldp_def default_lldp_port_def)

lemma demo_run: "run lldp_moves (spawn_lldp mac) demo_events demo_lldp"
proof -
  have m: "lldp_turn e ev = Some (e', []) \<Longrightarrow> lldp_moves e ev e'" for e ev e' by (auto simp: lldp_moves_def)
  note c = run_Cons [where step = lldp_moves]
  show ?thesis
    unfolding demo_events_def by (rule c [OF m [OF demo_turns(1)] c [OF m [OF demo_turns(2)] c [OF m [OF demo_turns(3)] run_Nil]]])
qed

lemma demo_pushes: "pushes lldp_sends (spawn_lldp mac) demo_events demo_lldp ([] @ [] @ [] @ [])"
proof -
  have m: "lldp_turn e ev = Some (e', []) \<Longrightarrow> (\<And>now. ev \<noteq> LldpStep now) \<Longrightarrow> lldp_sends e ev = (e', [])" for e ev e'
    by (cases ev) (simp_all add: lldp_sends_def)
  note c = pushes_Cons [where step = lldp_sends]
  show ?thesis
    unfolding demo_events_def
    by (rule c [OF m [OF demo_turns(1)] c [OF m [OF demo_turns(2)] c [OF m [OF demo_turns(3)] pushes_Nil]]]) simp_all
qed

lemma demo_step: "\<exists>e'. lldp_step 0 demo_lldp = (e', [(demo_port_name, encode_lldp demo_system demo_port_name demo_port_info 120)]) \<and>
    port_enabled e' demo_port_name \<and> port_view port_up e' demo_port_name"
proof -
  have "advertised_ttl demo_lldp = 120"
    by (simp add: advertised_ttl_def demo_lldp_def default_lldp_config_def default_tx_interval_def default_hold_multiplier_def max_def word_le_nat_alt)
  then show ?thesis
    by (auto simp: lldp_step_def pass_port_def age_neighbors_def tx_due_def bt_map_def port_enabled_def port_view_def demo_lldp_def
        default_lldp_port_def default_lldp_config_def)
qed

lemma run_exists: "\<exists>e'. run lldp_moves e evs e'"
proof (induction evs arbitrary: e)
  case (Cons ev evs)
  obtain e1 outs where "lldp_turn e ev = Some (e1, outs)" using lldp_turn_total by blast
  then show ?case using Cons [of e1] by (auto simp: lldp_moves_def intro: run.intros)
qed (auto intro: run.intros)

lemma demo_lldp_facts:
  "port_enabled demo_lldp demo_port_name" "bt_contains (lldp_ports demo_lldp) demo_port_name" "lldp_system demo_lldp = demo_system"
  "port_view port_info demo_lldp demo_port_name = demo_port_info" "lldp_interval (lldp_config demo_lldp) = from_secs 30"
  by (simp_all add: demo_lldp_def port_enabled_def default_lldp_config_def bt_contains_def port_view_def default_tx_interval_def)

abbreviation demo_advert :: bytes where
  "demo_advert \<equiv> encode_lldp demo_system demo_port_name demo_port_info 120"

abbreviation demo_key :: "utf8 \<times> utf8" where
  "demo_key \<equiv> (lldp_mac_text (chassis_mac demo_system), demo_port_name)"

theorem lldp_neighbor_lasts_witness:
  "\<exists>b'. run lldp_moves demo_lldp [LldpFrame demo_port_name demo_advert 7, LldpStep (from_secs 59)] b' \<and>
     (\<exists>l. listed b' demo_port_name demo_key = Some l \<and> last_seen l = 7)"
proof -
  obtain b' where b': "run lldp_moves demo_lldp [LldpFrame demo_port_name demo_advert 7, LldpStep (from_secs 59)] b'"
    using run_exists by blast
  obtain a' where a': "lldp_turn demo_lldp (LldpStep 0) = Some (a', [(demo_port_name, demo_advert)])" using demo_step by auto
  have "undisturbed demo_port_name demo_key (7 + 2 * from_secs 30) (LldpStep (from_secs 59))"
    by (simp add: undisturbed_def from_secs_def)
  with lldp_neighbor_lasts [OF demo_run a' _ _ _ demo_names_ok(1) demo_run demo_lldp_facts(1,2) b']
  have "listed b' demo_port_name demo_key =
    Some \<lparr>learned_neighbor = advertised demo_system demo_port_name demo_port_info (advertised_ttl demo_lldp), last_seen = 7\<rparr>"
    by (simp add: demo_lldp_facts demo_macs_ok)
  with b' show ?thesis by (intro exI [of _ b']) simp
qed

theorem lldp_advertises_in_time_witness:
  "\<exists>e' new. lldp_sends demo_lldp (LldpStep 0) = (e', new) \<and>
     (\<exists>t sys info ttl. (t, demo_port_name, encode_lldp sys demo_port_name info ttl) \<in> set new)"
proof -
  obtain e' where e': "lldp_step 0 demo_lldp = (e', [(demo_port_name, demo_advert)])"
    "port_enabled e' demo_port_name" "port_view port_up e' demo_port_name" using demo_step by blast
  then have s: "lldp_sends demo_lldp (LldpStep 0) = (e', [(0, demo_port_name, demo_advert)])" by (simp add: lldp_sends_def)
  from lldp_advertises_in_time [OF demo_pushes this e'(2,3)] s show ?thesis by auto
qed

lemma demo_hears:
  "\<exists>e e' outs l. run lldp_moves (spawn_lldp mac) (demo_events @ [LldpFrame demo_port_name demo_advert 7]) e \<and>
     lldp_turn e (LldpStep (from_secs 59)) = Some (e', outs) \<and> listed e' demo_port_name demo_key = Some l \<and> last_seen l = 7"
proof -
  let ?nb = "advertised demo_system demo_port_name demo_port_info 120"
  have dec: "decode_lldp demo_advert = Some (Some ?nb)"
    by (rule decode_encode_lldp) (simp_all add: demo_names_ok demo_macs_ok)
  obtain e outs where t: "lldp_turn demo_lldp (LldpFrame demo_port_name demo_advert 7) = Some (e, outs)"
    using lldp_turn_total by blast
  then have r: "receive_lldp demo_port_name demo_advert 7 demo_lldp = Some e" by auto
  have m: "lldp_moves demo_lldp (LldpFrame demo_port_name demo_advert 7) e" using t by (auto simp: lldp_moves_def)
  have k: "neighbor_key ?nb = demo_key" "nb_ttl ?nb = 120" by (simp_all add: advertised_def neighbor_key_def)
  have l: "listed e demo_port_name demo_key = Some \<lparr>learned_neighbor = ?nb, last_seen = 7\<rparr>"
    using listed_receive [OF r, of demo_port_name demo_key] dec k demo_lldp_facts by simp
  have run: "run lldp_moves (spawn_lldp mac) (demo_events @ [LldpFrame demo_port_name demo_advert 7]) e"
    by (rule run_append [OF demo_run]) (blast intro: m run.intros)
  have "lldp_wf e" by (rule lldp_engine.run_inv [OF run lldp_wf_spawn])
  from listed_step [OF this, of "from_secs 59" demo_port_name demo_key]
  have "listed (fst (lldp_step (from_secs 59) e)) demo_port_name demo_key = Some \<lparr>learned_neighbor = ?nb, last_seen = 7\<rparr>"
    using lldp_turn_enabled [OF t] demo_lldp_facts(1) l k
    by (simp add: port_enabled_def expired_at_def as_secs_def from_secs_def)
  with run show ?thesis
    by (intro exI [of _ e] exI [of _ "fst (lldp_step (from_secs 59) e)"] exI [of _ "snd (lldp_step (from_secs 59) e)"]
        exI [of _ "\<lparr>learned_neighbor = ?nb, last_seen = 7\<rparr>"]) simp
qed

theorem lldp_neighbors_genuine_witness:
  "\<exists>e e' outs l. run lldp_moves (spawn_lldp [2, 0, 0, 0, 0, 1]) (demo_events @ [LldpFrame demo_port_name demo_advert 7]) e \<and>
     lldp_turn e (LldpStep (from_secs 59)) = Some (e', outs) \<and> listed e' demo_port_name demo_key = Some l \<and>
     as_secs (since (from_secs 59) (last_seen l)) < unat (nb_ttl (learned_neighbor l))"
  using demo_hears [of "[2, 0, 0, 0, 0, 1]"] lldp_neighbors_genuine by blast

theorem lldp_early_link_lost_witness:
  "\<exists>e sent. pushes lldp_sends (spawn_lldp [2, 0, 0, 0, 0, 1])
       ([LldpStep 0, LldpLink demo_port_name True] @ [LldpPorts [(demo_port_name, demo_port_info)], LldpStep 1]) e sent \<and>
     port_enabled e demo_port_name \<and> bt_contains (lldp_ports e) demo_port_name \<and>
     (1, demo_port_name, demo_advert) \<notin> set sent"
proof -
  let ?s = "spawn_lldp [2, 0, 0, 0, 0, 1]"
  let ?s1 = "?s\<lparr>lldp_ports := [(demo_port_name, default_lldp_port\<lparr>port_info := demo_port_info\<rparr>)]\<rparr>"
  have 0: "lldp_sends ?s (LldpStep 0) = (?s, [])"
    by (simp add: lldp_sends_def lldp_step_def spawn_lldp_def bt_map_def)
  have 1: "lldp_sends ?s (LldpLink demo_port_name True) = (?s, [])"
    by (simp add: lldp_sends_def lldp_link_event_def spawn_lldp_def bt_update_def bt_map_def)
  have 2: "lldp_sends ?s (LldpPorts [(demo_port_name, demo_port_info)]) = (?s1, [])"
    by (simp add: lldp_sends_def demo_turns(1) del: lldp_turn.simps)
  have p: "pushes lldp_sends ?s ([LldpStep 0, LldpLink demo_port_name True] @ [LldpPorts [(demo_port_name, demo_port_info)], LldpStep 1])
      (fst (lldp_sends ?s1 (LldpStep 1))) ([] @ [] @ [] @ snd (lldp_sends ?s1 (LldpStep 1)) @ [])"
    using pushes_Cons [where step = lldp_sends, OF surjective_pairing pushes_Nil]
    unfolding append.simps(2) [of "LldpStep 0"] append.simps(2) [of "LldpLink demo_port_name True"] append.simps(1) [of "[LldpPorts _, _]"]
    by (intro pushes_Cons [where step = lldp_sends, OF 0] pushes_Cons [where step = lldp_sends, OF 1] pushes_Cons [where step = lldp_sends, OF 2])
  have "port_enabled (fst (lldp_sends ?s1 (LldpStep 1))) demo_port_name"
    "bt_contains (lldp_ports (fst (lldp_sends ?s1 (LldpStep 1)))) demo_port_name"
    by (simp_all add: lldp_sends_def lldp_step_def port_enabled_def spawn_lldp_def default_lldp_config_def bt_contains_def bt_map_def)
  with lldp_early_link_lost [OF p, of demo_port_name 1 demo_advert] p show ?thesis by auto
qed

end
