(* ===== verification/Mgmt_Ports.thy ===== *)
theory Mgmt_Ports
  imports Config_Tree Common_Link Map_Sync
begin

text \<open>
  What the management daemon reads from the configuration tree about ports and VLANs, and the changes a commit
  pushes for them (\<open>hemlock-mgmtd/src/intents.rs\<close>): the leaves of an interface block that every port has
  (admin state, description, address, switchport, channel group, speed, duplex, MTU), the VLAN table, and the differences
  between the running and the wanted intents. Messages of errors are constructors that hold what the message embeds;
  numbers are natural numbers below the bound of their type.
\<close>

section \<open>Intents\<close>

datatype switchport_mode = SpAccess | SpTrunk | SpDot1qTunnel

record switchport_intent =
  sp_mode :: switchport_mode
  sp_access_vlan :: "nat option"
  sp_trunk_vlans :: "nat list"
  sp_native_vlan :: "nat option"

record vlan_intent =
  vlan_description :: "string option"
  vlan_suspended :: bool

datatype channel_mode = ChannelActive | ChannelPassive | ChannelOn

record channel_group =
  cg_group :: nat
  cg_mode :: channel_mode

record interface_intent =
  if_admin_up :: "bool option"
  if_description :: "string option"
  if_address :: "string option"
  if_switchport :: "switchport_intent option"
  if_channel_group :: "channel_group option"
  if_speed_mbps :: "nat option"
  if_duplex :: "duplex option"
  if_mtu :: "nat option"

definition default_interface :: interface_intent where
  "default_interface = \<lparr>if_admin_up = None, if_description = None, if_address = None, if_switchport = None,
     if_channel_group = None, if_speed_mbps = None, if_duplex = None, if_mtu = None\<rparr>"

datatype link_problem = BadMtuText string | MtuOutOfRange nat | BadSpeed string | BadDuplex string

datatype switchport_problem = BadMode string | TunnelExcludesTrunk | BadVlanId string

datatype channel_problem = ChannelSyntax | ChannelKeyword string | ChannelNumber string | ChannelModeWord string

datatype vlan_problem = VlanId string | VlanState string | DefaultSuspended | DuplicateVlan

datatype vlan_block_problem = VlanStatement string | VlanKeys string | VlanBlockName string

datatype intent_error =
    BadLinkParam string link_problem
  | BothAdminStates string
  | BadAdminState string string
  | BadIfAddress string net_error
  | BadSwitchport string switchport_problem
  | AddressSwitchportConflict string
  | BadChannelGroup string channel_problem
  | AddressChannelGroupConflict string
  | BadVlanBlock vlan_block_problem
  | BadVlan string vlan_problem

section \<open>The leaves of an interface\<close>

definition mtu_intent :: "item list \<Rightarrow> string \<Rightarrow> intent_error + nat option" where
  "mtu_intent children ifname =
     (case leaf_value children ''mtu'' of
        None \<Rightarrow> Inr None
      | Some v \<Rightarrow>
          (case parse_uint u32_bound v of
             None \<Rightarrow> Inl (BadLinkParam ifname (BadMtuText v))
           | Some bytes \<Rightarrow>
               (case valid_mtu bytes of
                  Inl m \<Rightarrow> Inl (BadLinkParam ifname (MtuOutOfRange m))
                | Inr _ \<Rightarrow> Inr (Some bytes))))"

definition speed_intent :: "item list \<Rightarrow> string \<Rightarrow> intent_error + nat option" where
  "speed_intent children ifname =
     (case leaf_value children ''speed'' of
        None \<Rightarrow> Inr None
      | Some v \<Rightarrow>
          if map to_lower v = ''auto'' then Inr None
          else (case parse_speed v of
                  None \<Rightarrow> Inl (BadLinkParam ifname (BadSpeed v))
                | Some mbps \<Rightarrow> Inr (Some mbps)))"

definition duplex_intent :: "item list \<Rightarrow> string \<Rightarrow> intent_error + duplex option" where
  "duplex_intent children ifname =
     (case leaf_value children ''duplex'' of
        None \<Rightarrow> Inr None
      | Some v \<Rightarrow>
          if map to_lower v = ''auto'' then Inr None
          else (case duplex_parse v of
                  None \<Rightarrow> Inl (BadLinkParam ifname (BadDuplex v))
                | Some d \<Rightarrow> Inr (Some d)))"

definition admin_state :: "item list \<Rightarrow> string \<Rightarrow> intent_error + bool option" where
  "admin_state children name =
     (let shutdown = has_leaf children ''shutdown'';
          no_shutdown = has_phrase children ''no'' ''shutdown'' \<or> has_leaf children ''no-shutdown'' in
      if shutdown \<and> no_shutdown then Inl (BothAdminStates name)
      else if shutdown then Inr (Some False)
      else if no_shutdown then Inr (Some True)
      else (case leaf_value children ''admin-state'' of
              None \<Rightarrow> Inr None
            | Some v \<Rightarrow>
                if v = ''enabled'' then Inr (Some True)
                else if v = ''disabled'' then Inr (Some False)
                else Inl (BadAdminState name v)))"

definition parse_vlan_id :: "string \<Rightarrow> nat option" where
  "parse_vlan_id txt =
     (case parse_uint (2 ^ 16) txt of None \<Rightarrow> None | Some n \<Rightarrow> if 1 \<le> n \<and> n \<le> 4094 then Some n else None)"

definition switchport_mode_of :: "item list \<Rightarrow> string \<Rightarrow> intent_error + switchport_mode" where
  "switchport_mode_of sp name =
     (case leaf_value sp ''mode'' of
        None \<Rightarrow> Inr SpAccess
      | Some m \<Rightarrow>
          if m = ''trunk'' then Inr SpTrunk
          else if m = ''dot1q-tunnel'' then Inr SpDot1qTunnel
          else if m = ''access'' then Inr SpAccess
          else Inl (BadSwitchport name (BadMode m)))"

definition vlan_leaf :: "item list \<Rightarrow> string \<Rightarrow> string \<Rightarrow> string \<Rightarrow> string \<Rightarrow> intent_error + nat option" where
  "vlan_leaf sp name first second legacy =
     (case (case Option.bind (phrase_values sp first second) (\<lambda>vs. case vs of [] \<Rightarrow> None | v # _ \<Rightarrow> Some v) of
              Some v \<Rightarrow> Some v | None \<Rightarrow> leaf_value sp legacy) of
        None \<Rightarrow> Inr None
      | Some v \<Rightarrow>
          (case parse_vlan_id v of None \<Rightarrow> Inl (BadSwitchport name (BadVlanId v)) | Some n \<Rightarrow> Inr (Some n)))"

fun parse_vlan_ids :: "string \<Rightarrow> string list \<Rightarrow> intent_error + nat list" where
  "parse_vlan_ids name [] = Inr []"
| "parse_vlan_ids name (p # ps) =
     (case parse_vlan_id p of
        None \<Rightarrow> Inl (BadSwitchport name (BadVlanId p))
      | Some n \<Rightarrow> bind_result (parse_vlan_ids name ps) (\<lambda>ns. Inr (n # ns)))"

definition trunk_vlans_of :: "item list \<Rightarrow> string \<Rightarrow> intent_error + nat list" where
  "trunk_vlans_of sp name =
     (case (case phrase_values sp ''trunk'' ''vlans'' of Some vs \<Rightarrow> Some vs | None \<Rightarrow> leaf_values sp ''trunk-vlans'') of
        None \<Rightarrow> Inr []
      | Some vs \<Rightarrow>
          bind_result (parse_vlan_ids name (concat (map (\<lambda>v. filter (\<lambda>p. p \<noteq> []) (split_on (CHR '','') v)) vs)))
            (\<lambda>ns. Inr (bs_collect ns)))"

definition read_switchport :: "item list \<Rightarrow> string \<Rightarrow> intent_error + switchport_intent" where
  "read_switchport sp name =
     bind_result (switchport_mode_of sp name) (\<lambda>mode.
     if mode = SpDot1qTunnel \<and>
       (phrase_values sp ''trunk'' ''vlans'' \<noteq> None \<or> phrase_values sp ''native'' ''vlan'' \<noteq> None \<or>
        leaf_values sp ''trunk-vlans'' \<noteq> None \<or> leaf_value sp ''native-vlan'' \<noteq> None)
     then Inl (BadSwitchport name TunnelExcludesTrunk)
     else
       bind_result (trunk_vlans_of sp name) (\<lambda>trunk.
       bind_result (vlan_leaf sp name ''access'' ''vlan'' ''access-vlan'') (\<lambda>access.
       bind_result (vlan_leaf sp name ''native'' ''vlan'' ''native-vlan'') (\<lambda>native.
       Inr \<lparr>sp_mode = mode, sp_access_vlan = access, sp_trunk_vlans = trunk, sp_native_vlan = native\<rparr>))))"

definition switchport :: "item list \<Rightarrow> string \<Rightarrow> intent_error + switchport_intent option" where
  "switchport children name =
     (case blocks_named children ''switchport'' of
        [] \<Rightarrow> Inr None
      | (_, sp) # _ \<Rightarrow> bind_result (read_switchport sp name) (\<lambda>s. Inr (Some s)))"

definition address_intent :: "item list \<Rightarrow> string \<Rightarrow> intent_error + string option" where
  "address_intent children ifname =
     (case leaf_value children ''address'' of
        None \<Rightarrow> Inr None
      | Some v \<Rightarrow> (case parse_cidr v of Inl reason \<Rightarrow> Inl (BadIfAddress ifname reason) | Inr _ \<Rightarrow> Inr (Some v)))"

definition channel_group_intent :: "item list \<Rightarrow> string \<Rightarrow> intent_error + channel_group option" where
  "channel_group_intent children name =
     (case leaf_values children ''channel-group'' of
        None \<Rightarrow> Inr None
      | Some [grp, keyword, mode] \<Rightarrow>
          if keyword \<noteq> ''mode'' then Inl (BadChannelGroup name (ChannelKeyword keyword))
          else (case parse_uint 65536 grp of
              None \<Rightarrow> Inl (BadChannelGroup name (ChannelNumber grp))
            | Some n \<Rightarrow>
                if n < 1 \<or> 64 < n then Inl (BadChannelGroup name (ChannelNumber grp))
                else if mode = ''active'' then Inr (Some \<lparr>cg_group = n, cg_mode = ChannelActive\<rparr>)
                else if mode = ''passive'' then Inr (Some \<lparr>cg_group = n, cg_mode = ChannelPassive\<rparr>)
                else if mode = ''on'' then Inr (Some \<lparr>cg_group = n, cg_mode = ChannelOn\<rparr>)
                else Inl (BadChannelGroup name (ChannelModeWord mode)))
      | Some _ \<Rightarrow> Inl (BadChannelGroup name ChannelSyntax))"

text \<open>
  The fields of a front-panel port that are modelled, in the order in which \<open>extract\<close> reads them. The others (LACP,
  spanning tree, storm control, access groups, port security, QoS and the markers of services) have statements of
  their own and are left out, with the errors they can raise.
\<close>

definition port_intent :: "item list \<Rightarrow> string \<Rightarrow> intent_error + interface_intent" where
  "port_intent children ifname =
     bind_result (admin_state children ifname) (\<lambda>admin.
     bind_result (address_intent children ifname) (\<lambda>address.
     bind_result (switchport children ifname) (\<lambda>sp.
     if sp \<noteq> None \<and> address \<noteq> None then Inl (AddressSwitchportConflict ifname)
     else
       bind_result (channel_group_intent children ifname) (\<lambda>cg.
       if cg \<noteq> None \<and> address \<noteq> None then Inl (AddressChannelGroupConflict ifname)
       else
       bind_result (speed_intent children ifname) (\<lambda>speed.
       bind_result (duplex_intent children ifname) (\<lambda>dup.
       bind_result (mtu_intent children ifname) (\<lambda>mtu.
       Inr \<lparr>if_admin_up = admin, if_description = leaf_value children ''description'', if_address = address,
         if_switchport = sp, if_channel_group = cg, if_speed_mbps = speed, if_duplex = dup, if_mtu = mtu\<rparr>)))))))"

section \<open>The VLAN table\<close>

definition vlan_suspend :: "string \<Rightarrow> item list \<Rightarrow> intent_error + bool" where
  "vlan_suspend key children =
     (case leaf_value children ''state'' of
        None \<Rightarrow> Inr False
      | Some v \<Rightarrow>
          if v = ''suspend'' then Inr True
          else if v = ''active'' then Inr False
          else Inl (BadVlan key (VlanState v)))"

fun add_vlan :: "item \<Rightarrow> (nat, vlan_intent) btree \<Rightarrow> intent_error + (nat, vlan_intent) btree" where
  "add_vlan (Leaf name _) table = Inl (BadVlanBlock (VlanStatement name))"
| "add_vlan (Block name keys children) table =
     (case keys of
        [key] \<Rightarrow>
          if name \<noteq> ''vlan'' then Inl (BadVlanBlock (VlanBlockName name))
          else (case parse_vlan_id key of
                  None \<Rightarrow> Inl (BadVlan key (VlanId key))
                | Some n \<Rightarrow>
                    bind_result (vlan_suspend key children) (\<lambda>suspended.
                    if suspended \<and> n = 1 then Inl (BadVlan key DefaultSuspended)
                    else if bt_contains table n then Inl (BadVlan key DuplicateVlan)
                    else Inr (bt_insert n \<lparr>vlan_description = leaf_value children ''description'', vlan_suspended = suspended\<rparr> table)))
      | _ \<Rightarrow> Inl (BadVlanBlock (VlanKeys name)))"

fun add_vlans :: "item list \<Rightarrow> (nat, vlan_intent) btree \<Rightarrow> intent_error + (nat, vlan_intent) btree" where
  "add_vlans [] table = Inr table"
| "add_vlans (it # its) table = bind_result (add_vlan it table) (add_vlans its)"

definition vlans :: "config_tree \<Rightarrow> intent_error + (nat, vlan_intent) btree" where
  "vlans tree = (case block tree ''vlans'' of None \<Rightarrow> Inr [] | Some (_, its) \<Rightarrow> add_vlans its [])"

section \<open>The changes a commit pushes\<close>

record port_change =
  pc_name :: string
  pc_admin_up :: "bool option"
  pc_description :: "string option"
  pc_speed_mbps :: "nat option"
  pc_duplex :: "string option"
  pc_mtu :: "nat option"

definition link_delta :: "interface_intent \<Rightarrow> interface_intent option \<Rightarrow> nat option \<times> string option \<times> nat option" where
  "link_delta wanted current =
     (let speed_now = Option.bind current if_speed_mbps;
          duplex_now = Option.bind current if_duplex;
          mtu_now = Option.bind current if_mtu in
      (if if_speed_mbps wanted \<noteq> speed_now then Some (case if_speed_mbps wanted of Some n \<Rightarrow> n | None \<Rightarrow> 0) else None,
       if if_duplex wanted \<noteq> duplex_now
         then Some (case if_duplex wanted of Some d \<Rightarrow> duplex_str d | None \<Rightarrow> ''auto'') else None,
       if if_mtu wanted \<noteq> mtu_now then Some (case if_mtu wanted of Some n \<Rightarrow> n | None \<Rightarrow> 0) else None))"

definition admin_delta :: "bool option \<Rightarrow> bool option \<Rightarrow> bool option" where
  "admin_delta wanted now =
     (case wanted of
        Some w \<Rightarrow> if now = Some w then None else Some w
      | None \<Rightarrow> if now = Some False then Some True else None)"

definition description_delta :: "string option \<Rightarrow> string option \<Rightarrow> string option" where
  "description_delta wanted now =
     (case wanted of
        Some w \<Rightarrow> if now = Some w then None else Some w
      | None \<Rightarrow> (case now of Some n \<Rightarrow> if n \<noteq> [] then Some [] else None | None \<Rightarrow> None))"

definition nonempty_change :: "port_change \<Rightarrow> bool" where
  "nonempty_change c \<longleftrightarrow> pc_admin_up c \<noteq> None \<or> pc_description c \<noteq> None \<or> pc_speed_mbps c \<noteq> None \<or>
     pc_duplex c \<noteq> None \<or> pc_mtu c \<noteq> None"

definition change_of :: "string \<Rightarrow> interface_intent \<Rightarrow> interface_intent option \<Rightarrow> port_change" where
  "change_of name wanted current =
     (case link_delta wanted current of (speed, dup, mtu) \<Rightarrow>
        \<lparr>pc_name = name, pc_admin_up = admin_delta (if_admin_up wanted) (Option.bind current if_admin_up),
         pc_description = description_delta (if_description wanted) (Option.bind current if_description),
         pc_speed_mbps = speed, pc_duplex = dup, pc_mtu = mtu\<rparr>)"

definition diff_ports :: "(string, interface_intent) btree \<Rightarrow> (string, interface_intent) btree \<Rightarrow> port_change list" where
  "diff_ports running candidate =
     filter nonempty_change
       (map (\<lambda>(name, wanted). change_of name wanted (bt_get running name)) candidate
        @ map (\<lambda>(name, had). change_of name default_interface (Some had))
            (filter (\<lambda>(name, _). \<not> bt_contains candidate name) running))"

record vlan_change =
  vc_id :: nat
  vc_ensure :: "vlan_intent option"

definition diff_vlans :: "(nat, vlan_intent) btree \<Rightarrow> (nat, vlan_intent) btree \<Rightarrow> vlan_change list" where
  "diff_vlans running candidate =
     map (\<lambda>(n, wanted). \<lparr>vc_id = n, vc_ensure = Some wanted\<rparr>)
       (filter (\<lambda>(n, wanted). bt_get running n \<noteq> Some wanted) candidate)
     @ map (\<lambda>n. \<lparr>vc_id = n, vc_ensure = None\<rparr>) (filter (\<lambda>n. \<not> bt_contains candidate n) (bt_keys running))"

record switchport_change =
  sc_name :: string
  sc_set :: "switchport_intent option"

definition diff_switchports ::
  "(string, interface_intent) btree \<Rightarrow> (string, interface_intent) btree \<Rightarrow> switchport_change list" where
  "diff_switchports running candidate =
     List.map_filter (\<lambda>(name, wanted).
         case (if_switchport wanted, Option.bind (bt_get running name) if_switchport) of
           (Some w, now) \<Rightarrow> if now = Some w then None else Some \<lparr>sc_name = name, sc_set = Some w\<rparr>
         | (None, Some _) \<Rightarrow> Some \<lparr>sc_name = name, sc_set = None\<rparr>
         | (None, None) \<Rightarrow> None) candidate
     @ List.map_filter (\<lambda>(name, had).
         if \<not> bt_contains candidate name \<and> if_switchport had \<noteq> None then Some \<lparr>sc_name = name, sc_set = None\<rparr> else None)
       running"


section \<open>The changes converge\<close>

text \<open>
  The switch as the changes see it: a change sets the fields it carries. Zero and \<open>auto\<close> are the values that
  force nothing.
\<close>

record port_program =
  pg_admin_up :: bool
  pg_description :: string
  pg_speed_mbps :: nat
  pg_duplex :: string
  pg_mtu :: nat

definition program_of :: "interface_intent option \<Rightarrow> port_program" where
  "program_of port =
     (let i = (case port of Some i \<Rightarrow> i | None \<Rightarrow> default_interface) in
      \<lparr>pg_admin_up = (case if_admin_up i of Some b \<Rightarrow> b | None \<Rightarrow> True),
       pg_description = (case if_description i of Some d \<Rightarrow> d | None \<Rightarrow> []),
       pg_speed_mbps = (case if_speed_mbps i of Some n \<Rightarrow> n | None \<Rightarrow> 0),
       pg_duplex = (case if_duplex i of Some d \<Rightarrow> duplex_str d | None \<Rightarrow> ''auto''),
       pg_mtu = (case if_mtu i of Some n \<Rightarrow> n | None \<Rightarrow> 0)\<rparr>)"

definition set_to :: "'a option \<Rightarrow> 'a \<Rightarrow> 'a" where
  "set_to new old = (case new of Some x \<Rightarrow> x | None \<Rightarrow> old)"

definition apply_change :: "port_change \<Rightarrow> port_program \<Rightarrow> port_program" where
  "apply_change c p =
     \<lparr>pg_admin_up = set_to (pc_admin_up c) (pg_admin_up p), pg_description = set_to (pc_description c) (pg_description p),
      pg_speed_mbps = set_to (pc_speed_mbps c) (pg_speed_mbps p), pg_duplex = set_to (pc_duplex c) (pg_duplex p),
      pg_mtu = set_to (pc_mtu c) (pg_mtu p)\<rparr>"

text \<open>Updates of a function at the keys of a list of changes, one after the other.\<close>

definition update_all :: "('c \<Rightarrow> 'k) \<Rightarrow> ('c \<Rightarrow> 'v \<Rightarrow> 'v) \<Rightarrow> 'c list \<Rightarrow> ('k \<Rightarrow> 'v) \<Rightarrow> 'k \<Rightarrow> 'v" where
  "update_all key f cs m = fold (\<lambda>c m. m(key c := f c (m (key c)))) cs m"

lemma update_all_other: "k \<notin> key ` set cs \<Longrightarrow> update_all key f cs m k = m k"
  by (induction cs arbitrary: m) (auto simp: update_all_def)

lemma update_all_at:
  assumes "distinct (map key cs)" and "c \<in> set cs"
  shows "update_all key f cs m (key c) = f c (m (key c))"
  using assms
proof (induction cs arbitrary: m)
  case (Cons d cs)
  have u: "update_all key f (d # cs) m = update_all key f cs (m(key d := f d (m (key d))))" for m
    by (simp add: update_all_def)
  show ?case
  proof (cases "c = d")
    case True
    with Cons.prems(1) show ?thesis by (simp add: u update_all_other)
  next
    case False
    with Cons.prems have "c \<in> set cs" "key c \<noteq> key d" by (auto simp: image_iff)
    with Cons show ?thesis by (simp add: u)
  qed
qed simp

lemma update_all_skip: "(\<And>c v. \<not> P c \<Longrightarrow> f c v = v) \<Longrightarrow> update_all key f (filter P cs) m = update_all key f cs m"
  by (induction cs arbitrary: m) (auto simp: update_all_def)

lemma apply_empty_change: "\<not> nonempty_change c \<Longrightarrow> apply_change c p = p"
  by (cases p) (simp add: nonempty_change_def apply_change_def set_to_def)

lemma apply_change_of: "apply_change (change_of name wanted current) (program_of current) = program_of (Some wanted)"
  by (cases current)
    (auto simp: apply_change_def change_of_def link_delta_def Let_def program_of_def set_to_def admin_delta_def
      description_delta_def default_interface_def split: option.split)

lemma program_of_default: "program_of (Some default_interface) = program_of None"
  by (simp add: program_of_def default_interface_def)

lemma pc_name_change_of [simp]: "pc_name (change_of name wanted current) = name"
  by (simp add: change_of_def split: prod.split)

lemma distinct_two_maps:
  assumes "bt_wf candidate" and "bt_wf running"
  shows "distinct (bt_keys candidate @ filter (\<lambda>k. \<not> bt_contains candidate k) (bt_keys running))"
  using bt_wf_distinct [OF assms(1)] bt_wf_distinct [OF assms(2)] by (auto simp: bt_contains_iff)

lemma diff_ports_converge:
  assumes "bt_wf running" and "bt_wf candidate"
  shows "update_all pc_name apply_change (diff_ports running candidate) (\<lambda>n. program_of (bt_get running n)) =
    (\<lambda>n. program_of (bt_get candidate n))"
proof
  fix n
  define cs where "cs = map (\<lambda>(name, wanted). change_of name wanted (bt_get running name)) candidate
      @ map (\<lambda>(name, had). change_of name default_interface (Some had)) (filter (\<lambda>(name, _). \<not> bt_contains candidate name) running)"
  have names: "map pc_name cs = bt_keys candidate @ filter (\<lambda>k. \<not> bt_contains candidate k) (bt_keys running)"
    by (simp add: cs_def case_prod_beta' comp_def filter_map)
  then have d: "distinct (map pc_name cs)" using distinct_two_maps [OF assms(2,1)] by simp
  let ?m = "\<lambda>n. program_of (bt_get running n)"
  have "update_all pc_name apply_change (diff_ports running candidate) ?m n = update_all pc_name apply_change cs ?m n"
    unfolding diff_ports_def cs_def using apply_empty_change by (subst update_all_skip) auto
  also have "\<dots> = program_of (bt_get candidate n)"
  proof (cases "bt_get candidate n")
    case (Some wanted)
    then have "change_of n wanted (bt_get running n) \<in> set cs"
      using bt_get_in_set [OF assms(2)] by (force simp: cs_def)
    from update_all_at [OF d this, of apply_change ?m] show ?thesis by (simp add: apply_change_of Some)
  next
    case None
    show ?thesis
    proof (cases "bt_get running n")
      case (Some had)
      then have "change_of n default_interface (Some had) \<in> set cs"
        using bt_get_in_set [OF assms(1)] None by (force simp: cs_def bt_contains_def)
      from update_all_at [OF d this, of apply_change ?m] show ?thesis
        using apply_change_of [of n default_interface "Some had"] by (simp add: Some None program_of_default)
    next
      case Absent: None
      then have "n \<notin> set (map pc_name cs)"
        using None bt_contains_iff [of candidate n] bt_contains_iff [of running n] unfolding names by (simp add: bt_contains_def)
      then show ?thesis by (simp add: update_all_other None Absent)
    qed
  qed
  finally show "update_all pc_name apply_change (diff_ports running candidate) ?m n = program_of (bt_get candidate n)" .
qed

definition apply_vlan :: "vlan_change \<Rightarrow> (nat, vlan_intent) btree \<Rightarrow> (nat, vlan_intent) btree" where
  "apply_vlan c table = (case vc_ensure c of Some v \<Rightarrow> bt_insert (vc_id c) v table | None \<Rightarrow> bt_remove (vc_id c) table)"

lemma apply_vlan_simps [simp]:
  "apply_vlan \<lparr>vc_id = n, vc_ensure = Some v\<rparr> = bt_insert n v" "apply_vlan \<lparr>vc_id = n, vc_ensure = None\<rparr> = bt_remove n"
  by (simp_all add: fun_eq_iff apply_vlan_def)

lemma diff_vlans_converge:
  assumes "bt_wf running" and "bt_wf candidate"
  shows "fold apply_vlan (diff_vlans running candidate) running = candidate"
proof -
  have "fold apply_vlan (diff_vlans running candidate) running =
    del_all (\<lambda>_. True) (unwanted running candidate) (ins_all (\<lambda>_ _. True) (differs running candidate) running)"
    by (simp add: diff_vlans_def unwanted_def differs_def del_all_def ins_all_def fold_map comp_def case_prod_beta')
  also have "\<dots> = candidate"
    by (rule anchored_map_converges) (simp_all add: anchored_map_def assms)
  finally show ?thesis .
qed

definition switchport_of :: "(string, interface_intent) btree \<Rightarrow> string \<Rightarrow> switchport_intent option" where
  "switchport_of ports name = Option.bind (bt_get ports name) if_switchport"

definition wanted_switchport ::
  "(string, interface_intent) btree \<Rightarrow> string \<times> interface_intent \<Rightarrow> switchport_change option" where
  "wanted_switchport running = (\<lambda>(name, wanted).
     if if_switchport wanted = switchport_of running name then None else Some \<lparr>sc_name = name, sc_set = if_switchport wanted\<rparr>)"

definition stale_switchport ::
  "(string, interface_intent) btree \<Rightarrow> string \<times> interface_intent \<Rightarrow> switchport_change option" where
  "stale_switchport candidate = (\<lambda>(name, had).
     if \<not> bt_contains candidate name \<and> if_switchport had \<noteq> None then Some \<lparr>sc_name = name, sc_set = None\<rparr> else None)"

lemma diff_switchports_eq:
  "diff_switchports running candidate =
     List.map_filter (wanted_switchport running) candidate @ List.map_filter (stale_switchport candidate) running"
proof -
  have "(\<lambda>(name, wanted).
         case (if_switchport wanted, Option.bind (bt_get running name) if_switchport) of
           (Some w, now) \<Rightarrow> if now = Some w then None else Some \<lparr>sc_name = name, sc_set = Some w\<rparr>
         | (None, Some _) \<Rightarrow> Some \<lparr>sc_name = name, sc_set = None\<rparr>
         | (None, None) \<Rightarrow> None) = wanted_switchport running"
    by (auto simp: fun_eq_iff wanted_switchport_def switchport_of_def split: option.splits)
  then show ?thesis by (simp add: diff_switchports_def stale_switchport_def)
qed

lemma map_filter_names:
  "(\<And>x c. f x = Some c \<Longrightarrow> g c = fst x) \<Longrightarrow> map g (List.map_filter f xs) = map fst (filter (\<lambda>x. f x \<noteq> None) xs)"
  by (induction xs) (auto simp: List.map_filter_def)

lemma diff_switchports_converge:
  assumes "bt_wf running" and "bt_wf candidate"
  shows "update_all sc_name (\<lambda>c _. sc_set c) (diff_switchports running candidate) (switchport_of running) = switchport_of candidate"
proof
  fix n
  let ?cs = "diff_switchports running candidate"
  have "map sc_name ?cs = map fst (filter (\<lambda>x. wanted_switchport running x \<noteq> None) candidate)
      @ map fst (filter (\<lambda>x. stale_switchport candidate x \<noteq> None) running)"
    unfolding diff_switchports_eq map_append
    by (subst (1 2) map_filter_names) (auto simp: wanted_switchport_def stale_switchport_def split: if_splits)
  moreover have "distinct (map fst (filter P m))" if "bt_wf m" for P and m :: "(string, interface_intent) btree"
    using bt_wf_distinct [OF bt_wf_filter [OF that]] .
  moreover have "bt_contains candidate (fst x)" if "x \<in> set candidate" for x
    using that by (simp add: bt_contains_iff)
  ultimately have d: "distinct (map sc_name ?cs)"
    using assms by (auto simp: stale_switchport_def split: if_splits)
  have m: "c \<in> set ?cs \<longleftrightarrow> (\<exists>x \<in> set candidate. wanted_switchport running x = Some c) \<or> (\<exists>x \<in> set running. stale_switchport candidate x = Some c)" for c
    by (auto simp: diff_switchports_eq set_map_filter)
  show "update_all sc_name (\<lambda>c _. sc_set c) ?cs (switchport_of running) n = switchport_of candidate n"
  proof (cases "n \<in> sc_name ` set ?cs")
    case True
    then obtain c where c: "c \<in> set ?cs" "sc_name c = n" by auto
    then have "sc_set c = switchport_of candidate n"
      using assms by (auto simp: m wanted_switchport_def stale_switchport_def switchport_of_def bt_contains_def
          bt_get_in_set [symmetric] split: if_splits)
    with update_all_at [OF d c(1), of "\<lambda>c _. sc_set c"] c(2) show ?thesis by simp
  next
    case False
    then have no: "\<And>x c. x \<in> set candidate \<Longrightarrow> wanted_switchport running x = Some c \<Longrightarrow> sc_name c \<noteq> n"
      "\<And>x c. x \<in> set running \<Longrightarrow> stale_switchport candidate x = Some c \<Longrightarrow> sc_name c \<noteq> n"
      using m by blast+
    have "switchport_of running n = switchport_of candidate n"
    proof (cases "bt_get candidate n")
      case (Some i)
      then have "(n, i) \<in> set candidate" using assms(2) by (simp add: bt_get_in_set)
      from no(1) [OF this, of "\<lparr>sc_name = n, sc_set = if_switchport i\<rparr>"] Some show ?thesis
        by (cases "if_switchport i = switchport_of running n") (simp_all add: wanted_switchport_def, simp add: switchport_of_def)
    next
      case None
      show ?thesis
      proof (cases "bt_get running n")
        case (Some i)
        then have "(n, i) \<in> set running" using assms(1) by (simp add: bt_get_in_set)
        from no(2) [OF this, of "\<lparr>sc_name = n, sc_set = None\<rparr>"] Some None show ?thesis
          by (cases "if_switchport i") (simp_all add: stale_switchport_def switchport_of_def bt_contains_def)
      qed (simp add: switchport_of_def None)
    qed
    with False show ?thesis by (simp add: update_all_other)
  qed
qed

text \<open>
  C16. A commit brings the switch to the wanted state. Applied to a switch in the state of the running intents, the
  changes computed for the ports, the VLAN table and the switchports give the state of the candidate's intents:
  what was removed goes back to its default, and nothing else is touched. When the two agree nothing is pushed.
\<close>

theorem commit_changes_converge:
  assumes "bt_wf running" and "bt_wf candidate" and "bt_wf vlans_now" and "bt_wf vlans_wanted"
  shows "update_all pc_name apply_change (diff_ports running candidate) (\<lambda>n. program_of (bt_get running n)) =
      (\<lambda>n. program_of (bt_get candidate n)) \<and>
    fold apply_vlan (diff_vlans vlans_now vlans_wanted) vlans_now = vlans_wanted \<and>
    update_all sc_name (\<lambda>c _. sc_set c) (diff_switchports running candidate) (switchport_of running) = switchport_of candidate \<and>
    diff_ports running running = [] \<and> diff_vlans vlans_now vlans_now = [] \<and> diff_switchports running running = []"
proof -
  have "change_of n i (Some i) = \<lparr>pc_name = n, pc_admin_up = None, pc_description = None, pc_speed_mbps = None, pc_duplex = None, pc_mtu = None\<rparr>" for n i
    by (auto simp: change_of_def link_delta_def admin_delta_def description_delta_def split: option.split)
  moreover have in_set: "bt_get running a = Some b" "bt_contains running a" if "(a, b) \<in> set running" for a b
    using that bt_get_in_set [OF assms(1), of a b] by (simp_all add: bt_contains_def)
  ultimately have "diff_ports running running = []"
    by (auto simp: diff_ports_def filter_empty_conv nonempty_change_def)
  moreover have "diff_vlans vlans_now vlans_now = []"
    using bt_get_in_set [OF assms(3)] by (auto simp: diff_vlans_def filter_empty_conv bt_contains_iff image_iff)
  moreover have "diff_switchports running running = []"
    by (auto simp: diff_switchports_eq List.map_filter_def filter_empty_conv wanted_switchport_def stale_switchport_def
        switchport_of_def in_set)
  ultimately show ?thesis
    using diff_ports_converge diff_vlans_converge diff_switchports_converge assms by blast
qed

definition demo_ports :: "(string, interface_intent) btree" where
  "demo_ports = [(''Ethernet1'', default_interface\<lparr>if_admin_up := Some False, if_description := Some ''uplink''\<rparr>),
     (''Ethernet2'', default_interface\<lparr>if_mtu := Some 9000, if_switchport :=
        Some \<lparr>sp_mode = SpAccess, sp_access_vlan = Some 10, sp_trunk_vlans = [], sp_native_vlan = None\<rparr>\<rparr>)]"

theorem commit_changes_converge_witness:
  "update_all pc_name apply_change (diff_ports demo_ports []) (\<lambda>n. program_of (bt_get demo_ports n)) = (\<lambda>n. program_of None) \<and>
   fold apply_vlan (diff_vlans [(10, \<lparr>vlan_description = None, vlan_suspended = False\<rparr>)] []) [(10, \<lparr>vlan_description = None, vlan_suspended = False\<rparr>)] = []"
  using commit_changes_converge [of demo_ports "[]" "[(10, \<lparr>vlan_description = None, vlan_suspended = False\<rparr>)]" "[]"]
  by (simp add: demo_ports_def bt_wf_def)

end
