(* ===== verification/Web_Edit.thy ===== *)
theory Web_Edit
  imports Mgmt_Ports
begin

text \<open>
  The edits of the web console on interfaces, VLANs and VLAN interfaces (\<open>hemlock-webd/src/edit.rs\<close>): the checks
  of a request and the changes of the configuration tree. What mgmtd then reads from the tree is that of
  \<open>Mgmt_Ports\<close>. Messages are constructors that hold what the message embeds.
\<close>

section \<open>Requests\<close>

datatype edit_mode = EditAccess | EditTrunk | EditDot1qTunnel | EditRouted

record interface_edit =
  ed_names :: "string list"
  ed_description :: "string option"
  ed_admin_up :: "bool option"
  ed_mode :: "edit_mode option"
  ed_access_vlan :: "nat option"
  ed_trunk_vlans :: "nat list option"
  ed_native_vlan :: "nat option"
  ed_address :: "string option"
  ed_speed_mbps :: "nat option"
  ed_duplex :: "string option"
  ed_mtu :: "nat option"

datatype edit_error =
    NoInterfaces
  | NotEditable string
  | NotFrontPanel string
  | VlanAlwaysRouted string
  | MgmtNotSwitchport string
  | BadVlanNumber nat
  | BadEditAddress net_error
  | BadEditMtu nat
  | BadEditDuplex string
  | NothingToChange
  | DefaultVlanKept

definition has_prefix :: "string \<Rightarrow> string \<Rightarrow> bool" where
  "has_prefix p s \<longleftrightarrow> take (length p) s = p"

definition valid_vlan :: "nat \<Rightarrow> edit_error option" where
  "valid_vlan n = (if 1 \<le> n \<and> n \<le> 4094 then None else Some (BadVlanNumber n))"

definition check_name :: "interface_edit \<Rightarrow> string \<Rightarrow> edit_error option" where
  "check_name edit name =
     (let front_panel = has_prefix ''Ethernet'' name in
      if \<not> (front_panel \<or> has_prefix ''Management'' name \<or> has_prefix ''Vlan'' name) then Some (NotEditable name)
      else if \<not> front_panel \<and> (ed_speed_mbps edit \<noteq> None \<or> ed_duplex edit \<noteq> None) then Some (NotFrontPanel name)
      else if has_prefix ''Vlan'' name \<and> ed_mode edit \<noteq> None then Some (VlanAlwaysRouted name)
      else if has_prefix ''Management'' name \<and> ed_mode edit \<in> {Some EditAccess, Some EditTrunk, Some EditDot1qTunnel}
      then Some (MgmtNotSwitchport name)
      else None)"

definition check_opt :: "('a \<Rightarrow> edit_error option) \<Rightarrow> 'a option \<Rightarrow> edit_error option" where
  "check_opt f v = (case v of None \<Rightarrow> None | Some x \<Rightarrow> f x)"

definition check_address :: "string \<Rightarrow> edit_error option" where
  "check_address address =
     (if address = [] then None
      else case parse_cidr address of Inl reason \<Rightarrow> Some (BadEditAddress reason) | Inr _ \<Rightarrow> None)"

definition check_mtu :: "nat \<Rightarrow> edit_error option" where
  "check_mtu mtu = (if mtu = 0 then None else case valid_mtu mtu of Inl m \<Rightarrow> Some (BadEditMtu m) | Inr _ \<Rightarrow> None)"

definition check_duplex :: "string \<Rightarrow> edit_error option" where
  "check_duplex d = (if d \<in> {''auto'', ''full'', ''half''} then None else Some (BadEditDuplex d))"

text \<open>The first check that fails, in the order of the code.\<close>

definition check_interface_edit :: "interface_edit \<Rightarrow> edit_error option" where
  "check_interface_edit edit =
     (if ed_names edit = [] then Some NoInterfaces
      else find_map id
        [find_map (check_name edit) (ed_names edit),
         check_opt valid_vlan (ed_access_vlan edit),
         check_opt (\<lambda>n. if n = 0 then None else valid_vlan n) (ed_native_vlan edit),
         check_opt (find_map valid_vlan) (ed_trunk_vlans edit),
         check_opt check_address (ed_address edit),
         check_opt check_mtu (ed_mtu edit),
         check_opt check_duplex (ed_duplex edit)])"

section \<open>One interface\<close>

text \<open>A leaf that is set, or removed for a value that means the default.\<close>

definition put_leaf :: "string \<Rightarrow> bool \<Rightarrow> string \<Rightarrow> item list \<Rightarrow> item list" where
  "put_leaf name clear v eth = (if clear then remove_leaf eth name else set_leaf eth name [v])"

definition when_some :: "'a option \<Rightarrow> ('a \<Rightarrow> item list \<Rightarrow> item list) \<Rightarrow> item list \<Rightarrow> item list" where
  "when_some v f eth = (case v of None \<Rightarrow> eth | Some x \<Rightarrow> f x eth)"

definition edit_admin :: "bool \<Rightarrow> item list \<Rightarrow> item list" where
  "edit_admin up eth =
     (if up then remove_leaf (set_phrase eth ''no'' ''shutdown'' []) ''shutdown''
      else remove_leaf (set_leaf eth ''shutdown'' []) ''no'')"

fun edit_mode_text :: "edit_mode \<Rightarrow> string" where
  "edit_mode_text EditTrunk = ''trunk''"
| "edit_mode_text EditDot1qTunnel = ''dot1q-tunnel''"
| "edit_mode_text EditAccess = ''access''"
| "edit_mode_text EditRouted = ''access''"

definition set_switchport_mode :: "edit_mode \<Rightarrow> item list \<Rightarrow> item list" where
  "set_switchport_mode mode sp =
     (let sp1 = set_leaf sp ''mode'' [edit_mode_text mode] in
      if mode = EditTrunk then remove_leaf sp1 ''access''
      else remove_leaf (remove_leaf sp1 ''trunk'') ''native'')"

definition edit_port_mode :: "edit_mode \<Rightarrow> item list \<Rightarrow> item list" where
  "edit_port_mode mode eth =
     (if mode = EditRouted then remove_block eth ''switchport'' []
      else ensure_block (remove_leaf eth ''address'') ''switchport'' [] (set_switchport_mode mode))"

definition in_switchport :: "(item list \<Rightarrow> item list) \<Rightarrow> item list \<Rightarrow> item list" where
  "in_switchport f eth = update_first (is_block_named ''switchport'') (with_children f) eth"

fun comma_words :: "nat list \<Rightarrow> string list" where
  "comma_words [] = []"
| "comma_words [n] = [show_nat n]"
| "comma_words (n # ns) = (show_nat n @ '','') # comma_words ns"

definition edit_access :: "nat \<Rightarrow> item list \<Rightarrow> item list" where
  "edit_access n = in_switchport (\<lambda>sp. set_phrase sp ''access'' ''vlan'' [show_nat n])"

definition edit_trunk :: "nat list \<Rightarrow> item list \<Rightarrow> item list" where
  "edit_trunk ns = in_switchport (\<lambda>sp.
     if ns = [] then remove_leaf sp ''trunk'' else set_phrase sp ''trunk'' ''vlans'' (comma_words (bs_collect ns)))"

definition edit_native :: "nat \<Rightarrow> item list \<Rightarrow> item list" where
  "edit_native n = in_switchport (\<lambda>sp.
     if n = 0 then remove_leaf sp ''native'' else set_phrase sp ''native'' ''vlan'' [show_nat n])"

definition edit_address :: "string \<Rightarrow> item list \<Rightarrow> item list" where
  "edit_address address eth =
     (if address = [] then remove_leaf eth ''address''
      else set_leaf (remove_block eth ''switchport'' []) ''address'' [address])"

definition apply_one :: "interface_edit \<Rightarrow> item list \<Rightarrow> item list" where
  "apply_one edit eth =
     (let eth1 = when_some (ed_description edit) (\<lambda>d. put_leaf ''description'' (d = []) d) eth;
          eth2 = when_some (ed_admin_up edit) edit_admin eth1;
          eth3 = when_some (ed_mode edit) edit_port_mode eth2;
          eth4 = when_some (ed_access_vlan edit) edit_access eth3;
          eth5 = when_some (ed_trunk_vlans edit) edit_trunk eth4;
          eth6 = when_some (ed_native_vlan edit) edit_native eth5;
          eth7 = when_some (ed_address edit) edit_address eth6;
          eth8 = when_some (ed_speed_mbps edit) (\<lambda>n. put_leaf ''speed'' (n = 0) (show_nat n)) eth7;
          eth9 = when_some (ed_duplex edit) (\<lambda>d. put_leaf ''duplex'' (d = ''auto'') d) eth8
      in when_some (ed_mtu edit) (\<lambda>n. put_leaf ''mtu'' (n = 0) (show_nat n)) eth9)"

definition apply_interface_edit :: "config_tree \<Rightarrow> interface_edit \<Rightarrow> edit_error + config_tree" where
  "apply_interface_edit tree edit =
     (case check_interface_edit edit of
        Some err \<Rightarrow> Inl err
      | None \<Rightarrow>
          Inr (fold (\<lambda>name t. block_mut t ''interfaces'' (\<lambda>ifs. ensure_block ifs name [] (apply_one edit)))
                 (ed_names edit) tree))"

section \<open>VLANs and VLAN interfaces\<close>

record vlan_set =
  vs_id :: nat
  vs_description :: "string option"

record vlan_edit =
  ve_set :: "vlan_set list"
  ve_delete :: "nat list"

definition vlan_name :: "nat \<Rightarrow> string" where
  "vlan_name n = ''Vlan'' @ show_nat n"

definition remove_block_if_empty :: "string \<Rightarrow> config_tree \<Rightarrow> config_tree" where
  "remove_block_if_empty name tree =
     (case block tree name of
        Some (_, []) \<Rightarrow> tree\<lparr>items := remove_block (items tree) name []\<rparr>
      | _ \<Rightarrow> tree)"

definition put_vlan :: "vlan_set \<Rightarrow> config_tree \<Rightarrow> config_tree" where
  "put_vlan vs tree =
     block_mut tree ''vlans'' (\<lambda>its. ensure_block its ''vlan'' [show_nat (vs_id vs)]
       (when_some (vs_description vs) (\<lambda>d. put_leaf ''description'' (d = []) d)))"

definition drop_vlan :: "nat \<Rightarrow> config_tree \<Rightarrow> config_tree" where
  "drop_vlan n tree =
     block_mut (block_mut tree ''vlans'' (\<lambda>its. remove_block its ''vlan'' [show_nat n]))
       ''interfaces'' (\<lambda>its. remove_block its (vlan_name n) [])"

definition check_deleted_vlan :: "nat \<Rightarrow> edit_error option" where
  "check_deleted_vlan n =
     (case valid_vlan n of Some err \<Rightarrow> Some err | None \<Rightarrow> if n = 1 then Some DefaultVlanKept else None)"

definition apply_vlan_edit :: "config_tree \<Rightarrow> vlan_edit \<Rightarrow> edit_error + config_tree" where
  "apply_vlan_edit tree edit =
     (if ve_set edit = [] \<and> ve_delete edit = [] then Inl NothingToChange
      else case find_map id [find_map (\<lambda>vs. valid_vlan (vs_id vs)) (ve_set edit), find_map check_deleted_vlan (ve_delete edit)] of
        Some err \<Rightarrow> Inl err
      | None \<Rightarrow>
          Inr (remove_block_if_empty ''interfaces'' (remove_block_if_empty ''vlans''
            (fold drop_vlan (ve_delete edit) (fold put_vlan (ve_set edit) tree)))))"

record svi_set =
  svi_vlan :: nat
  svi_address :: "string option"
  svi_mtu :: "nat option"

record svi_edit =
  se_set :: "svi_set list"
  se_delete :: "nat list"

definition check_svi :: "svi_set \<Rightarrow> edit_error option" where
  "check_svi s =
     find_map id [valid_vlan (svi_vlan s), check_opt check_address (svi_address s), check_opt check_mtu (svi_mtu s)]"

definition edit_svi :: "svi_set \<Rightarrow> item list \<Rightarrow> item list" where
  "edit_svi s svi =
     when_some (svi_mtu s) (\<lambda>n. put_leaf ''mtu'' (n = 0) (show_nat n))
       (when_some (svi_address s) (\<lambda>a. put_leaf ''address'' (a = []) a) svi)"

text \<open>A block of the interface that is empty after the edit is removed.\<close>

definition put_svi :: "svi_set \<Rightarrow> config_tree \<Rightarrow> config_tree" where
  "put_svi s tree =
     block_mut tree ''interfaces'' (\<lambda>its.
       let its' = ensure_block its (vlan_name (svi_vlan s)) [] (edit_svi s) in
       if find_map (\<lambda>it. if is_block_keyed (vlan_name (svi_vlan s)) [] it then Some (block_children it) else None) its' = Some []
       then remove_block its' (vlan_name (svi_vlan s)) [] else its')"

definition apply_svi_edit :: "config_tree \<Rightarrow> svi_edit \<Rightarrow> edit_error + config_tree" where
  "apply_svi_edit tree edit =
     (if se_set edit = [] \<and> se_delete edit = [] then Inl NothingToChange
      else case find_map id [find_map check_svi (se_set edit), find_map valid_vlan (se_delete edit)] of
        Some err \<Rightarrow> Inl err
      | None \<Rightarrow>
          Inr (remove_block_if_empty ''interfaces''
            (fold (\<lambda>n t. block_mut t ''interfaces'' (\<lambda>its. remove_block its (vlan_name n) [])) (se_delete edit)
              (fold put_svi (se_set edit) tree))))"


section \<open>Leaves and blocks under edits\<close>

text \<open>The queries of a block see only the values of its leaves of one name, and its blocks of one name.\<close>

definition leaves :: "item list \<Rightarrow> string \<Rightarrow> string list list" where
  "leaves its n = map leaf_vals (filter (is_leaf_named n) its)"

definition first_value :: "string list \<Rightarrow> string option" where
  "first_value vs = (case vs of [] \<Rightarrow> None | v # _ \<Rightarrow> Some v)"

definition phrase_rest :: "string \<Rightarrow> string list \<Rightarrow> string list option" where
  "phrase_rest second vs = (case vs of v # rest \<Rightarrow> if v = second then Some rest else None | [] \<Rightarrow> None)"

lemma leaf_value_leaves: "leaf_value its n = find_map first_value (leaves its n)"
  unfolding leaf_value_def by (induction its) (auto simp: leaves_def first_value_def split: item.splits list.splits)

lemma leaf_values_leaves: "leaf_values its n = (case leaves its n of [] \<Rightarrow> None | vs # _ \<Rightarrow> Some vs)"
  unfolding leaf_values_def by (induction its) (auto simp: leaves_def split: item.splits)

lemma has_leaf_leaves: "has_leaf its n \<longleftrightarrow> leaves its n \<noteq> []"
  by (auto simp: leaves_def has_leaf_def list_ex_iff filter_empty_conv)

lemma phrase_values_leaves: "phrase_values its first second = find_map (phrase_rest second) (leaves its first)"
  unfolding phrase_values_def by (induction its) (auto simp: leaves_def phrase_rest_def split: item.splits list.splits)

lemmas reads_leaves = leaf_value_leaves leaf_values_leaves has_leaf_leaves has_phrase_def phrase_values_leaves

lemma leaves_append: "leaves (xs @ ys) n = leaves xs n @ leaves ys n"
  by (simp add: leaves_def)

lemma leaves_set_leaf: "leaves (set_leaf its n v) m = (if m = n then v # tl (leaves its n) else leaves its m)"
proof -
  have "leaves (update_first (is_leaf_named n) (with_values (\<lambda>_. v)) its) m =
      (if m = n then v # tl (leaves its n) else leaves its m)" if "list_ex (is_leaf_named n) its"
    using that
  proof (induction its)
    case (Cons it its)
    then show ?case by (cases it) (auto simp: leaves_def)
  qed simp
  moreover have "leaves its n = []" if "\<not> list_ex (is_leaf_named n) its"
    using that by (auto simp: leaves_def list_ex_iff filter_empty_conv)
  ultimately show ?thesis by (auto simp: set_leaf_def leaves_append) (simp_all add: leaves_def)
qed

lemma leaves_remove_leaf: "leaves (remove_leaf its n) m = (if m = n then [] else leaves its m)"
proof (induction its)
  case (Cons it its)
  then show ?case by (cases it) (auto simp: leaves_def remove_leaf_def)
qed (simp add: leaves_def remove_leaf_def)

lemma filter_leaf_update_block:
  "(\<And>it. P it \<Longrightarrow> \<exists>m ks ch. it = Block m ks ch) \<Longrightarrow> filter (is_leaf_named n) (update_first P (with_children f) its) = filter (is_leaf_named n) its"
proof (induction its)
  case (Cons it its)
  then show ?case using Cons.prems [of it] by (cases it; auto)
qed simp

lemma block_keyed_cases: "is_block_keyed m ks it \<Longrightarrow> \<exists>m ks ch. it = Block m ks ch"
  and block_named_cases: "is_block_named m it \<Longrightarrow> \<exists>m ks ch. it = Block m ks ch"
  by (cases it; simp)+

lemma leaves_ensure_block: "leaves (ensure_block its b ks f) n = leaves its n"
  using filter_leaf_update_block [of "is_block_keyed b ks" n f its] block_keyed_cases
  by (auto simp: leaves_def ensure_block_def)

lemma leaves_in_switchport: "leaves (in_switchport f its) n = leaves its n"
  using filter_leaf_update_block [of "is_block_named ''switchport''" n f its] block_named_cases
  by (auto simp: leaves_def in_switchport_def)

lemma leaves_remove_block: "leaves (remove_block its b ks) n = leaves its n"
proof (induction its)
  case (Cons it its)
  then show ?case by (cases it) (auto simp: leaves_def remove_block_def)
qed (simp add: leaves_def remove_block_def)

lemmas leaves_edits = leaves_set_leaf leaves_remove_leaf leaves_ensure_block leaves_in_switchport leaves_remove_block

subsection \<open>Blocks\<close>

lemma blocks_named_remove_leaf: "blocks_named (remove_leaf its n) b = blocks_named its b"
proof (induction its)
  case (Cons it its)
  then show ?case by (cases it) (auto simp: remove_leaf_def blocks_named_Cons)
qed (simp add: remove_leaf_def)

lemma blocks_named_remove_block:
  "blocks_named (remove_block its n ks) b = (if b = n then filter (\<lambda>(k, _). k \<noteq> ks) (blocks_named its n) else blocks_named its b)"
proof (induction its)
  case (Cons it its)
  then show ?case by (cases it) (auto simp: remove_block_def blocks_named_Cons)
qed (simp add: remove_block_def blocks_named_def List.map_filter_simps)

text \<open>The edit of the first block of a name, which is created when there is none.\<close>

definition edit_first :: "(item list \<Rightarrow> item list) \<Rightarrow> (string list \<times> item list) list \<Rightarrow> (string list \<times> item list) list" where
  "edit_first f bs = (case bs of [] \<Rightarrow> [] | (k, ch) # bs \<Rightarrow> (k, f ch) # bs)"

lemma blocks_named_Nil [simp]: "blocks_named [] b = []"
  by (simp add: blocks_named_def List.map_filter_simps)

lemma blocks_named_in_switchport:
  "blocks_named (in_switchport f its) b = (if b = ''switchport'' then edit_first f (blocks_named its b) else blocks_named its b)"
proof (induction its)
  case (Cons it its)
  then show ?case by (cases it) (auto simp: in_switchport_def blocks_named_Cons edit_first_def)
qed (simp add: in_switchport_def edit_first_def)

definition keyless :: "item list \<Rightarrow> string \<Rightarrow> bool" where
  "keyless its b \<longleftrightarrow> list_all (\<lambda>(k, _). k = []) (blocks_named its b)"

lemma blocks_named_ensure_block:
  assumes "keyless its n"
  shows "blocks_named (ensure_block its n [] f) b =
    (if b = n then (if blocks_named its n = [] then [([], f [])] else edit_first f (blocks_named its n)) else blocks_named its b)"
proof (cases "list_ex (is_block_keyed n []) its")
  case True
  have "blocks_named (update_first (is_block_keyed n []) (with_children f) its) b =
      (if b = n then edit_first f (blocks_named its n) else blocks_named its b) \<and> blocks_named its n \<noteq> []"
    using True assms
  proof (induction its)
    case (Cons it its)
    then show ?case by (cases it) (auto simp: blocks_named_Cons edit_first_def keyless_def)
  qed simp
  with True show ?thesis by (simp add: ensure_block_def)
next
  case False
  then have "blocks_named its n = []"
    using assms
  proof (induction its)
    case (Cons it its)
    then show ?case by (cases it) (auto simp: blocks_named_Cons keyless_def)
  qed simp
  with False show ?thesis by (simp add: ensure_block_def blocks_named_append blocks_named_Cons)
qed

lemmas blocks_edits = blocks_named_set_leaf blocks_named_remove_leaf blocks_named_remove_block blocks_named_in_switchport


section \<open>What an edit asks for\<close>

text \<open>The effect of an edit on the intents of a port.\<close>

definition default_switchport :: switchport_intent where
  "default_switchport = \<lparr>sp_mode = SpAccess, sp_access_vlan = None, sp_trunk_vlans = [], sp_native_vlan = None\<rparr>"

definition mode_switchport :: "edit_mode option \<Rightarrow> switchport_intent option \<Rightarrow> switchport_intent option" where
  "mode_switchport mode old =
     (let s = (case old of Some s \<Rightarrow> s | None \<Rightarrow> default_switchport) in
      case mode of
        None \<Rightarrow> old
      | Some EditRouted \<Rightarrow> None
      | Some EditTrunk \<Rightarrow> Some (s\<lparr>sp_mode := SpTrunk, sp_access_vlan := None\<rparr>)
      | Some EditAccess \<Rightarrow> Some (s\<lparr>sp_mode := SpAccess, sp_trunk_vlans := [], sp_native_vlan := None\<rparr>)
      | Some EditDot1qTunnel \<Rightarrow> Some (s\<lparr>sp_mode := SpDot1qTunnel, sp_trunk_vlans := [], sp_native_vlan := None\<rparr>))"

definition vlan_switchport :: "interface_edit \<Rightarrow> switchport_intent \<Rightarrow> switchport_intent" where
  "vlan_switchport edit s =
     s\<lparr>sp_access_vlan := (case ed_access_vlan edit of Some n \<Rightarrow> Some n | None \<Rightarrow> sp_access_vlan s),
       sp_trunk_vlans := (case ed_trunk_vlans edit of Some ns \<Rightarrow> bs_collect ns | None \<Rightarrow> sp_trunk_vlans s),
       sp_native_vlan := (case ed_native_vlan edit of Some n \<Rightarrow> if n = 0 then None else Some n | None \<Rightarrow> sp_native_vlan s)\<rparr>"

definition edited :: "'a option \<Rightarrow> ('a \<Rightarrow> bool) \<Rightarrow> 'a option \<Rightarrow> 'a option" where
  "edited new clears old = (case new of None \<Rightarrow> old | Some x \<Rightarrow> if clears x then None else Some x)"

definition edit_intent :: "interface_edit \<Rightarrow> interface_intent \<Rightarrow> interface_intent" where
  "edit_intent edit i =
     (let moved = ed_mode edit \<notin> {None, Some EditRouted};
          routed = (case ed_address edit of Some a \<Rightarrow> a \<noteq> [] | None \<Rightarrow> False) in
      \<lparr>if_admin_up = edited (ed_admin_up edit) (\<lambda>_. False) (if_admin_up i),
       if_description = edited (ed_description edit) (\<lambda>d. d = []) (if_description i),
       if_address = edited (ed_address edit) (\<lambda>a. a = []) (if moved then None else if_address i),
       if_switchport = (if routed then None else map_option (vlan_switchport edit) (mode_switchport (ed_mode edit) (if_switchport i))),
       if_channel_group = if_channel_group i,
       if_speed_mbps = edited (ed_speed_mbps edit) (\<lambda>n. n = 0) (if_speed_mbps i),
       if_duplex = (case ed_duplex edit of None \<Rightarrow> if_duplex i | Some d \<Rightarrow> duplex_parse d),
       if_mtu = edited (ed_mtu edit) (\<lambda>n. n = 0) (if_mtu i)\<rparr>)"

section \<open>Reading back the leaves\<close>

definition vlan_of :: "string \<Rightarrow> string \<Rightarrow> string list list \<Rightarrow> intent_error + nat option" where
  "vlan_of name second ls =
     (case Option.bind (find_map (phrase_rest second) ls) first_value of
        None \<Rightarrow> Inr None
      | Some v \<Rightarrow>
          (case parse_vlan_id v of None \<Rightarrow> Inl (BadSwitchport name (BadVlanId v)) | Some n \<Rightarrow> Inr (Some n)))"

definition trunk_of :: "string \<Rightarrow> string list list \<Rightarrow> intent_error + nat list" where
  "trunk_of name ls =
     (case find_map (phrase_rest ''vlans'') ls of
        None \<Rightarrow> Inr []
      | Some vs \<Rightarrow>
          bind_result (parse_vlan_ids name (concat (map (\<lambda>v. filter (\<lambda>p. p \<noteq> []) (split_on (CHR '','') v)) vs)))
            (\<lambda>ns. Inr (bs_collect ns)))"

definition sp_current :: "item list \<Rightarrow> bool" where
  "sp_current sp \<longleftrightarrow> leaves sp ''access-vlan'' = [] \<and> leaves sp ''trunk-vlans'' = [] \<and> leaves sp ''native-vlan'' = []"

lemma first_value_eq: "(\<lambda>vs. case vs of [] \<Rightarrow> None | v # _ \<Rightarrow> Some v) = first_value"
  by (simp add: fun_eq_iff first_value_def)

lemma vlan_leaf_eq: "leaves sp legacy = [] \<Longrightarrow> vlan_leaf sp name first second legacy = vlan_of name second (leaves sp first)"
  by (simp add: vlan_leaf_def vlan_of_def reads_leaves first_value_eq split: option.split)

lemma trunk_vlans_eq: "leaves sp ''trunk-vlans'' = [] \<Longrightarrow> trunk_vlans_of sp name = trunk_of name (leaves sp ''trunk'')"
  by (simp add: trunk_vlans_of_def trunk_of_def reads_leaves split: option.split)

lemma parse_vlan_id_show: "1 \<le> n \<Longrightarrow> n \<le> 4094 \<Longrightarrow> parse_vlan_id (show_nat n) = Some n"
  by (simp add: parse_vlan_id_def parse_uint_show_nat)

lemma vlan_of_simps:
  "vlan_of name second [] = Inr None"
  "1 \<le> n \<Longrightarrow> n \<le> 4094 \<Longrightarrow> vlan_of name second ([second, show_nat n] # ls) = Inr (Some n)"
  by (simp_all add: vlan_of_def phrase_rest_def first_value_def parse_vlan_id_show)

lemma split_comma: "filter (\<lambda>p. p \<noteq> []) (split_on (CHR '','') (show_nat n @ '','')) = [show_nat n]"
  "filter (\<lambda>p. p \<noteq> []) (split_on (CHR '','') (show_nat n)) = [show_nat n]"
proof -
  have c: "CHR '','' \<notin> set (show_nat n)" by (rule show_nat_no_char) (simp add: is_digit_def code_def)
  from split_on_append [OF c, of "[]"] show "filter (\<lambda>p. p \<noteq> []) (split_on (CHR '','') (show_nat n @ '','')) = [show_nat n]" by simp
  from split_on_no_sep [OF c] show "filter (\<lambda>p. p \<noteq> []) (split_on (CHR '','') (show_nat n)) = [show_nat n]" by simp
qed

lemma comma_words_parts:
  "concat (map (\<lambda>v. filter (\<lambda>p. p \<noteq> []) (split_on (CHR '','') v)) (comma_words ns)) = map show_nat ns"
  by (induction ns rule: comma_words.induct) (simp_all add: split_comma)

lemma parse_vlan_ids_show: "list_all (\<lambda>n. 1 \<le> n \<and> n \<le> 4094) ns \<Longrightarrow> parse_vlan_ids name (map show_nat ns) = Inr ns"
  by (induction ns) (simp_all add: parse_vlan_id_show)

lemma bs_collect_idem: "bs_collect (bs_collect ns) = bs_collect (ns :: nat list)"
  by (simp add: bs_collect_def distinct_remdups_id sorted_sort_id)

lemma trunk_of_simps:
  "trunk_of name [] = Inr []"
  "list_all (\<lambda>n. 1 \<le> n \<and> n \<le> 4094) ns \<Longrightarrow> trunk_of name ((''vlans'' # comma_words (bs_collect ns)) # ls) = Inr (bs_collect ns)"
  by (simp_all add: trunk_of_def phrase_rest_def comma_words_parts parse_vlan_ids_show bs_collect_idem list_all_iff)

definition tunnel_free :: "item list \<Rightarrow> bool" where
  "tunnel_free sp \<longleftrightarrow> find_map (phrase_rest ''vlans'') (leaves sp ''trunk'') = None \<and> find_map (phrase_rest ''vlan'') (leaves sp ''native'') = None"

lemma read_switchport_eq:
  assumes "sp_current sp"
  shows "read_switchport sp name = Inr s \<longleftrightarrow>
    switchport_mode_of sp name = Inr (sp_mode s) \<and> (sp_mode s = SpDot1qTunnel \<longrightarrow> tunnel_free sp) \<and>
    trunk_of name (leaves sp ''trunk'') = Inr (sp_trunk_vlans s) \<and>
    vlan_of name ''vlan'' (leaves sp ''access'') = Inr (sp_access_vlan s) \<and>
    vlan_of name ''vlan'' (leaves sp ''native'') = Inr (sp_native_vlan s)"
  using assms
  by (cases s) (auto simp: read_switchport_def sp_current_def vlan_leaf_eq trunk_vlans_eq tunnel_free_def reads_leaves split: sum.splits)


section \<open>An edit of one interface\<close>

subsection \<open>Its leaves\<close>

lemma leaves_put_leaf: "leaves (put_leaf m c v eth) n = (if n = m then (if c then [] else [v] # tl (leaves eth m)) else leaves eth n)"
  by (simp add: put_leaf_def leaves_edits)

lemma leaves_edit_admin:
  "leaves (edit_admin up eth) n =
     (if n = ''no'' then (if up then [''shutdown''] # tl (leaves eth ''no'') else [])
      else if n = ''shutdown'' then (if up then [] else [] # tl (leaves eth ''shutdown''))
      else leaves eth n)"
  by (simp add: edit_admin_def set_phrase_def leaves_edits)

lemma leaves_edit_port_mode: "leaves (edit_port_mode m eth) n = (if n = ''address'' \<and> m \<noteq> EditRouted then [] else leaves eth n)"
  by (simp add: edit_port_mode_def leaves_edits)

lemma leaves_edit_vlans:
  "leaves (edit_access v eth) n = leaves eth n" "leaves (edit_trunk vs eth) n = leaves eth n" "leaves (edit_native v eth) n = leaves eth n"
  by (simp_all add: edit_access_def edit_trunk_def edit_native_def leaves_edits)

lemma leaves_edit_address:
  "leaves (edit_address a eth) n = (if n = ''address'' then (if a = [] then [] else [a] # tl (leaves eth n)) else leaves eth n)"
  by (simp add: edit_address_def leaves_edits)

lemma leaves_when_some: "leaves (when_some v f eth) n = (case v of None \<Rightarrow> leaves eth n | Some x \<Rightarrow> leaves (f x eth) n)"
  by (simp add: when_some_def split: option.split)

lemma leaves_when_other: "(\<And>x e. leaves (f x e) n = leaves e n) \<Longrightarrow> leaves (when_some v f eth) n = leaves eth n"
  by (simp add: leaves_when_some split: option.split)

lemmas leaves_steps = leaves_put_leaf leaves_edit_admin leaves_edit_port_mode leaves_edit_vlans leaves_edit_address

lemma leaves_apply_one:
  "leaves (apply_one edit eth) ''description'' =
     (case ed_description edit of None \<Rightarrow> leaves eth ''description'' | Some d \<Rightarrow> if d = [] then [] else [d] # tl (leaves eth ''description''))"
  "leaves (apply_one edit eth) ''no'' =
     (case ed_admin_up edit of None \<Rightarrow> leaves eth ''no'' | Some up \<Rightarrow> if up then [''shutdown''] # tl (leaves eth ''no'') else [])"
  "leaves (apply_one edit eth) ''shutdown'' =
     (case ed_admin_up edit of None \<Rightarrow> leaves eth ''shutdown'' | Some up \<Rightarrow> if up then [] else [] # tl (leaves eth ''shutdown''))"
  "leaves (apply_one edit eth) ''no-shutdown'' = leaves eth ''no-shutdown''"
  "leaves (apply_one edit eth) ''admin-state'' = leaves eth ''admin-state''"
  "leaves (apply_one edit eth) ''channel-group'' = leaves eth ''channel-group''"
  "leaves (apply_one edit eth) ''speed'' =
     (case ed_speed_mbps edit of None \<Rightarrow> leaves eth ''speed'' | Some n \<Rightarrow> if n = 0 then [] else [show_nat n] # tl (leaves eth ''speed''))"
  "leaves (apply_one edit eth) ''duplex'' =
     (case ed_duplex edit of None \<Rightarrow> leaves eth ''duplex'' | Some d \<Rightarrow> if d = ''auto'' then [] else [d] # tl (leaves eth ''duplex''))"
  "leaves (apply_one edit eth) ''mtu'' =
     (case ed_mtu edit of None \<Rightarrow> leaves eth ''mtu'' | Some n \<Rightarrow> if n = 0 then [] else [show_nat n] # tl (leaves eth ''mtu''))"
  by (simp_all add: apply_one_def Let_def leaves_steps leaves_when_other) (simp_all add: leaves_when_some leaves_steps leaves_when_other split: option.split)

lemma leaves_apply_one_address:
  "leaves (apply_one edit eth) ''address'' =
     (let old = (if ed_mode edit \<in> {None, Some EditRouted} then leaves eth ''address'' else []) in
      case ed_address edit of None \<Rightarrow> old | Some a \<Rightarrow> if a = [] then [] else [a] # tl old)"
  by (simp add: apply_one_def Let_def leaves_steps leaves_when_other)
    (auto simp: leaves_when_some leaves_steps leaves_when_other split: option.split)

subsection \<open>Its switchport\<close>

definition sp_view :: "item list \<Rightarrow> item list option" where
  "sp_view eth = (case blocks_named eth ''switchport'' of [] \<Rightarrow> None | (_, sp) # _ \<Rightarrow> Some sp)"

lemma switchport_view:
  "switchport eth name = (case sp_view eth of None \<Rightarrow> Inr None | Some sp \<Rightarrow> bind_result (read_switchport sp name) (\<lambda>s. Inr (Some s)))"
  by (auto simp: switchport_def sp_view_def split: list.split)

lemma sp_view_leaf: "sp_view (set_leaf eth n v) = sp_view eth" "sp_view (remove_leaf eth n) = sp_view eth"
  by (simp_all add: sp_view_def blocks_edits)

lemma sp_view_in: "sp_view (in_switchport f eth) = map_option f (sp_view eth)"
  by (auto simp: sp_view_def blocks_edits edit_first_def split: list.split)

lemma sp_view_remove: "keyless eth ''switchport'' \<Longrightarrow> sp_view (remove_block eth ''switchport'' []) = None"
  by (auto simp: sp_view_def blocks_edits keyless_def list_all_iff filter_empty_conv case_prod_beta split: list.split)

lemma sp_view_ensure:
  "keyless eth ''switchport'' \<Longrightarrow>
     sp_view (ensure_block eth ''switchport'' [] f) = Some (f (case sp_view eth of Some sp \<Rightarrow> sp | None \<Rightarrow> []))"
  by (auto simp: sp_view_def blocks_named_ensure_block edit_first_def split: list.split)

lemma keyless_leaf: "keyless (set_leaf eth n v) b = keyless eth b" "keyless (remove_leaf eth n) b = keyless eth b"
  by (simp_all add: keyless_def blocks_edits)

lemma keyless_in_switchport: "keyless eth b \<Longrightarrow> keyless (in_switchport f eth) b"
  by (cases "blocks_named eth ''switchport''") (auto simp: keyless_def blocks_edits edit_first_def)

lemma keyless_remove: "keyless eth b \<Longrightarrow> keyless (remove_block eth n ks) b"
  by (auto simp: keyless_def blocks_edits list_all_iff)

lemmas keyless_edits = keyless_leaf keyless_in_switchport keyless_remove

lemma keyless_ensure: "keyless eth b \<Longrightarrow> keyless (ensure_block eth b [] f) b"
  by (auto simp: keyless_def blocks_named_ensure_block [unfolded keyless_def] edit_first_def split: list.splits)

definition mode_children :: "edit_mode option \<Rightarrow> item list option \<Rightarrow> item list option" where
  "mode_children mode v =
     (case mode of
        None \<Rightarrow> v
      | Some m \<Rightarrow> if m = EditRouted then None else Some (set_switchport_mode m (case v of Some sp \<Rightarrow> sp | None \<Rightarrow> [])))"

definition vlan_children :: "interface_edit \<Rightarrow> item list \<Rightarrow> item list" where
  "vlan_children edit sp =
     when_some (ed_native_vlan edit) (\<lambda>n sp. if n = 0 then remove_leaf sp ''native'' else set_phrase sp ''native'' ''vlan'' [show_nat n])
     (when_some (ed_trunk_vlans edit) (\<lambda>ns sp. if ns = [] then remove_leaf sp ''trunk''
        else set_phrase sp ''trunk'' ''vlans'' (comma_words (bs_collect ns)))
     (when_some (ed_access_vlan edit) (\<lambda>n sp. set_phrase sp ''access'' ''vlan'' [show_nat n]) sp))"

definition is_routed :: "interface_edit \<Rightarrow> bool" where
  "is_routed edit = (case ed_address edit of Some a \<Rightarrow> a \<noteq> [] | None \<Rightarrow> False)"

lemma sp_view_put: "sp_view (put_leaf n c v eth) = sp_view eth" "keyless (put_leaf n c v eth) b = keyless eth b"
  by (simp_all add: put_leaf_def sp_view_leaf keyless_edits)

lemma sp_view_admin: "sp_view (edit_admin up eth) = sp_view eth" "keyless (edit_admin up eth) b = keyless eth b"
  by (simp_all add: edit_admin_def set_phrase_def sp_view_leaf keyless_edits)

lemma sp_view_mode:
  assumes "keyless eth ''switchport''"
  shows "sp_view (edit_port_mode m eth) = mode_children (Some m) (sp_view eth)" and "keyless (edit_port_mode m eth) ''switchport''"
  using assms
  by (simp_all add: edit_port_mode_def mode_children_def sp_view_remove sp_view_ensure sp_view_leaf keyless_edits keyless_ensure)

lemma sp_view_address:
  assumes "keyless eth ''switchport''"
  shows "sp_view (edit_address a eth) = (if a = [] then sp_view eth else None)"
  using assms by (simp add: edit_address_def sp_view_leaf sp_view_remove)

lemma when_some_cong: "(\<And>x. v = Some x \<Longrightarrow> P (f x eth)) \<Longrightarrow> P eth \<Longrightarrow> P (when_some v f eth)"
  by (simp add: when_some_def split: option.split)

lemma sp_view_apply_one:
  assumes "keyless eth ''switchport''"
  shows "sp_view (apply_one edit eth) =
    (if is_routed edit then None else map_option (vlan_children edit) (mode_children (ed_mode edit) (sp_view eth)))"
proof -
  define eth2 where "eth2 = when_some (ed_admin_up edit) edit_admin (when_some (ed_description edit) (\<lambda>d. put_leaf ''description'' (d = []) d) eth)"
  have 2: "sp_view eth2 = sp_view eth" "keyless eth2 ''switchport''"
    using assms by (simp_all add: eth2_def when_some_def sp_view_put sp_view_admin split: option.split)
  define eth3 where "eth3 = when_some (ed_mode edit) edit_port_mode eth2"
  have 3: "sp_view eth3 = mode_children (ed_mode edit) (sp_view eth)" "keyless eth3 ''switchport''"
    using 2 by (auto simp: eth3_def when_some_def sp_view_mode split: option.split) (simp add: mode_children_def)
  define eth6 where "eth6 = when_some (ed_native_vlan edit) edit_native (when_some (ed_trunk_vlans edit) edit_trunk (when_some (ed_access_vlan edit) edit_access eth3))"
  have 6: "sp_view eth6 = map_option (vlan_children edit) (mode_children (ed_mode edit) (sp_view eth))" "keyless eth6 ''switchport''"
    using 3(2) unfolding 3(1) [symmetric] eth6_def
    by (cases "sp_view eth3"; auto simp: when_some_def edit_native_def edit_trunk_def edit_access_def sp_view_in vlan_children_def
        keyless_edits split: option.split)+
  have "sp_view (apply_one edit eth) = sp_view (when_some (ed_address edit) edit_address eth6)"
    by (simp add: apply_one_def Let_def eth6_def eth3_def eth2_def when_some_def sp_view_put split: option.split)
  also have "\<dots> = (if is_routed edit then None else sp_view eth6)"
    using 6(2) by (auto simp: when_some_def is_routed_def sp_view_address split: option.split)
  finally show ?thesis by (simp add: 6(1))
qed

subsection \<open>Reading the edited switchport\<close>

lemma leaves_set_switchport_mode:
  "leaves (set_switchport_mode m sp) n =
     (if n = ''mode'' then [edit_mode_text m] # tl (leaves sp n)
      else if m = EditTrunk \<and> n = ''access'' \<or> m \<noteq> EditTrunk \<and> (n = ''trunk'' \<or> n = ''native'') then []
      else leaves sp n)"
  by (simp add: set_switchport_mode_def Let_def leaves_edits)

lemma mode_of_leaves:
  "switchport_mode_of sp name =
     (case find_map first_value (leaves sp ''mode'') of
        None \<Rightarrow> Inr SpAccess
      | Some m \<Rightarrow>
          if m = ''trunk'' then Inr SpTrunk
          else if m = ''dot1q-tunnel'' then Inr SpDot1qTunnel
          else if m = ''access'' then Inr SpAccess
          else Inl (BadSwitchport name (BadMode m)))"
  by (simp add: switchport_mode_of_def reads_leaves)

lemma read_mode:
  assumes "sp_current sp" and "read_switchport sp name = Inr s" and "m \<noteq> EditRouted"
  shows "sp_current (set_switchport_mode m sp)"
    and "map_option Inr (mode_switchport (Some m) (Some s)) = Some (read_switchport (set_switchport_mode m sp) name)"
proof -
  show c: "sp_current (set_switchport_mode m sp)"
    using assms(1) by (simp add: sp_current_def leaves_set_switchport_mode)
  have s: "trunk_of name (leaves sp ''trunk'') = Inr (sp_trunk_vlans s)" "vlan_of name ''vlan'' (leaves sp ''access'') = Inr (sp_access_vlan s)"
    "vlan_of name ''vlan'' (leaves sp ''native'') = Inr (sp_native_vlan s)"
    using assms(2) unfolding read_switchport_eq [OF assms(1)] by blast+
  obtain s' where s': "mode_switchport (Some m) (Some s) = Some s'"
    using assms(3) by (cases m) (simp_all add: mode_switchport_def)
  have "read_switchport (set_switchport_mode m sp) name = Inr s'"
    unfolding read_switchport_eq [OF c] using s s' assms(3)
    by (cases m) (auto simp: mode_switchport_def mode_of_leaves leaves_set_switchport_mode first_value_def trunk_of_simps vlan_of_simps tunnel_free_def)
  with s' show "map_option Inr (mode_switchport (Some m) (Some s)) = Some (read_switchport (set_switchport_mode m sp) name)" by simp
qed

lemma read_empty: "sp_current []" "read_switchport [] name = Inr default_switchport"
proof -
  have l: "leaves [] n = []" for n by (simp add: leaves_def)
  show c: "sp_current []" by (simp add: sp_current_def l)
  show "read_switchport [] name = Inr default_switchport"
    unfolding read_switchport_eq [OF c] by (simp add: mode_of_leaves l trunk_of_simps vlan_of_simps default_switchport_def)
qed

definition vlans_ok :: "interface_edit \<Rightarrow> bool" where
  "vlans_ok edit \<longleftrightarrow> check_opt valid_vlan (ed_access_vlan edit) = None \<and>
     check_opt (\<lambda>n. if n = 0 then None else valid_vlan n) (ed_native_vlan edit) = None \<and>
     check_opt (find_map valid_vlan) (ed_trunk_vlans edit) = None"

text \<open>A tunnel port has no trunk configuration; mgmtd refuses one.\<close>

definition no_trunk_edit :: "interface_edit \<Rightarrow> bool" where
  "no_trunk_edit edit \<longleftrightarrow> ed_trunk_vlans edit \<in> {None, Some []} \<and> ed_native_vlan edit \<in> {None, Some 0}"

lemma leaves_vlan_children:
  "leaves (vlan_children edit sp) n =
     (if n = ''access'' then (case ed_access_vlan edit of None \<Rightarrow> leaves sp n | Some v \<Rightarrow> [''vlan'', show_nat v] # tl (leaves sp n))
      else if n = ''trunk'' then
        (case ed_trunk_vlans edit of None \<Rightarrow> leaves sp n
         | Some vs \<Rightarrow> if vs = [] then [] else (''vlans'' # comma_words (bs_collect vs)) # tl (leaves sp n))
      else if n = ''native'' then
        (case ed_native_vlan edit of None \<Rightarrow> leaves sp n | Some v \<Rightarrow> if v = 0 then [] else [''vlan'', show_nat v] # tl (leaves sp n))
      else leaves sp n)"
  by (simp add: vlan_children_def leaves_when_some set_phrase_def leaves_edits split: option.split)

lemma vlan_ids_ok: "find_map valid_vlan ns = None \<longleftrightarrow> list_all (\<lambda>n. 1 \<le> n \<and> n \<le> 4094) ns"
  by (auto simp: find_map_None list_all_iff valid_vlan_def)

lemma bs_collect_Nil: "bs_collect [] = []"
  by (simp add: bs_collect_def)

lemma read_vlans:
  assumes "sp_current sp" and "read_switchport sp name = Inr s" and "vlans_ok edit"
    and "sp_mode s = SpDot1qTunnel \<Longrightarrow> no_trunk_edit edit"
  shows "read_switchport (vlan_children edit sp) name = Inr (vlan_switchport edit s)"
proof -
  have c: "sp_current (vlan_children edit sp)"
    using assms(1) by (simp add: sp_current_def leaves_vlan_children)
  have s: "switchport_mode_of sp name = Inr (sp_mode s)" "sp_mode s = SpDot1qTunnel \<Longrightarrow> tunnel_free sp"
    "trunk_of name (leaves sp ''trunk'') = Inr (sp_trunk_vlans s)" "vlan_of name ''vlan'' (leaves sp ''access'') = Inr (sp_access_vlan s)"
    "vlan_of name ''vlan'' (leaves sp ''native'') = Inr (sp_native_vlan s)"
    using assms(2) unfolding read_switchport_eq [OF assms(1)] by blast+
  have mode: "switchport_mode_of (vlan_children edit sp) name = Inr (sp_mode s)"
    using s(1) by (simp add: mode_of_leaves leaves_vlan_children)
  have tunnel: "tunnel_free (vlan_children edit sp)" if "sp_mode s = SpDot1qTunnel"
    using s(2) [OF that] assms(4) [OF that] by (auto simp: tunnel_free_def leaves_vlan_children no_trunk_edit_def)
  have trunk: "trunk_of name (leaves (vlan_children edit sp) ''trunk'') = Inr (sp_trunk_vlans (vlan_switchport edit s))"
    using s(3) assms(3) by (auto simp: leaves_vlan_children vlan_switchport_def vlans_ok_def check_opt_def vlan_ids_ok trunk_of_simps
        bs_collect_Nil split: option.split)
  have access: "vlan_of name ''vlan'' (leaves (vlan_children edit sp) ''access'') = Inr (sp_access_vlan (vlan_switchport edit s))"
    using s(4) assms(3) by (auto simp: leaves_vlan_children vlan_switchport_def vlans_ok_def check_opt_def valid_vlan_def vlan_of_simps
        split: option.split if_splits)
  have native: "vlan_of name ''vlan'' (leaves (vlan_children edit sp) ''native'') = Inr (sp_native_vlan (vlan_switchport edit s))"
    using s(5) assms(3) by (auto simp: leaves_vlan_children vlan_switchport_def vlans_ok_def check_opt_def valid_vlan_def vlan_of_simps
        split: option.split if_splits)
  show ?thesis
    unfolding read_switchport_eq [OF c] using mode tunnel trunk access native by (simp add: vlan_switchport_def)
qed

section \<open>The edit refines the intent\<close>

lemma check_interface_edit_None:
  assumes "check_interface_edit edit = None"
  shows "vlans_ok edit" and "check_opt check_address (ed_address edit) = None" and "check_opt check_mtu (ed_mtu edit) = None"
    and "check_opt check_duplex (ed_duplex edit) = None" and "n \<in> set (ed_names edit) \<Longrightarrow> check_name edit n = None"
  using assms by (auto simp: check_interface_edit_def vlans_ok_def find_map_None split: if_splits option.splits)

lemma parse_speed_show:
  assumes "0 < n" and "n < u32_bound"
  shows "parse_speed (show_nat n) = Some n"
proof -
  have d: "is_digit (last (show_nat n))" by (rule show_nat_digits [of _ n]) simp
  have "dropWhile is_whitespace (show_nat n) = show_nat n"
    using hd_show_nat_digit [of n] is_digit_not_whitespace by (cases "show_nat n") auto
  moreover have "dropWhile is_whitespace (rev (show_nat n)) = rev (show_nat n)"
    using d is_digit_not_whitespace [OF d] by (cases "show_nat n" rule: rev_cases) auto
  ultimately have "trim (show_nat n) = show_nat n" by (simp add: trim_def)
  moreover have "last (show_nat n) \<notin> {CHR ''G'', CHR ''g''}" "last (show_nat n) \<notin> {CHR ''M'', CHR ''m''}"
    using d by (auto simp: is_digit_def code_def)
  ultimately show ?thesis using assms by (simp add: parse_speed_def strip_suffix_def parse_uint_show_nat)
qed

lemma show_nat_not_auto: "map to_lower (show_nat n) \<noteq> ''auto''"
proof
  assume "map to_lower (show_nat n) = ''auto''"
  then have "to_lower (hd (show_nat n)) = CHR ''a''" by (cases "show_nat n") simp_all
  with hd_show_nat_digit [of n] show False by (auto simp: is_digit_def to_lower_def is_upper_def code_def split: if_splits)
qed

lemma show_nat_not_word: "show_nat n \<noteq> ''auto''"
  using show_nat_not_auto [of n] by (auto simp: to_lower_def is_upper_def code_def)

lemma admin_refines:
  assumes "leaves eth ''no-shutdown'' = []" and "admin_state eth name = Inr a"
  shows "admin_state (apply_one edit eth) name = Inr (edited (ed_admin_up edit) (\<lambda>_. False) a)"
proof (cases "ed_admin_up edit")
  case None
  then show ?thesis using assms(2) by (simp only: admin_state_def Let_def reads_leaves leaves_apply_one edited_def option.case)
next
  case (Some up)
  then show ?thesis
    using assms(1) by (cases up) (simp_all add: admin_state_def Let_def reads_leaves leaves_apply_one edited_def phrase_rest_def)
qed

lemma speed_refines:
  assumes "\<And>n. ed_speed_mbps edit = Some n \<Longrightarrow> n < u32_bound" and "speed_intent eth name = Inr x"
  shows "speed_intent (apply_one edit eth) name = Inr (edited (ed_speed_mbps edit) (\<lambda>n. n = 0) x)"
  using assms by (cases "ed_speed_mbps edit")
    (auto simp: speed_intent_def reads_leaves leaves_apply_one edited_def first_value_def parse_speed_show show_nat_not_auto show_nat_not_word)

lemma check_duplex_None:
  assumes "check_duplex d = None"
  shows "d = ''auto'' \<and> duplex_parse d = None \<or> map to_lower d \<noteq> ''auto'' \<and> duplex_parse d \<noteq> None \<and> d \<noteq> ''auto''"
proof -
  have "d \<in> {''auto'', ''full'', ''half''}" using assms by (simp add: check_duplex_def split: if_splits)
  then show ?thesis by (elim insertE emptyE) (simp_all add: duplex_parse_def to_lower_def is_upper_def code_def)
qed

lemma duplex_refines:
  assumes "check_opt check_duplex (ed_duplex edit) = None" and "duplex_intent eth name = Inr y"
  shows "duplex_intent (apply_one edit eth) name = Inr (case ed_duplex edit of None \<Rightarrow> y | Some d \<Rightarrow> duplex_parse d)"
proof (cases "ed_duplex edit")
  case None
  then show ?thesis using assms(2) by (simp only: duplex_intent_def reads_leaves leaves_apply_one option.case)
next
  case (Some d)
  with assms(1) have "check_duplex d = None" by (simp add: check_opt_def)
  from check_duplex_None [OF this] Some show ?thesis
    by (auto simp: duplex_intent_def reads_leaves leaves_apply_one first_value_def)
qed

lemma mtu_refines:
  assumes "check_opt check_mtu (ed_mtu edit) = None" and "mtu_intent eth name = Inr x"
  shows "mtu_intent (apply_one edit eth) name = Inr (edited (ed_mtu edit) (\<lambda>n. n = 0) x)"
proof -
  have "check_mtu n = None \<Longrightarrow> n \<noteq> 0 \<Longrightarrow> valid_mtu n = Inr () \<and> n < u32_bound" for n
    by (auto simp: check_mtu_def valid_mtu_def u32_bound_def min_mtu_def max_mtu_def split: if_splits)
  with assms show ?thesis
    by (cases "ed_mtu edit") (auto simp: mtu_intent_def reads_leaves leaves_apply_one edited_def first_value_def check_opt_def parse_uint_show_nat)
qed

lemma address_refines:
  assumes "check_opt check_address (ed_address edit) = None" and "address_intent eth name = Inr a"
  shows "address_intent (apply_one edit eth) name =
    Inr (edited (ed_address edit) (\<lambda>a. a = []) (if ed_mode edit \<notin> {None, Some EditRouted} then None else a))"
proof (cases "ed_address edit")
  case None
  then show ?thesis
    using assms(2) by (auto simp: address_intent_def reads_leaves leaves_apply_one_address edited_def)
next
  case (Some x)
  with assms(1) have "x \<noteq> [] \<Longrightarrow> \<exists>c. parse_cidr x = Inr c" by (auto simp: check_opt_def check_address_def split: sum.splits if_splits)
  with Some show ?thesis by (auto simp: address_intent_def reads_leaves leaves_apply_one_address edited_def first_value_def Let_def)
qed

lemma description_refines:
  "leaf_value (apply_one edit eth) ''description'' = edited (ed_description edit) (\<lambda>d. d = []) (leaf_value eth ''description'')"
  by (simp add: reads_leaves leaves_apply_one edited_def first_value_def split: option.split)

text \<open>A port in the current form: no deprecated spelling, and a switchport block without keys.\<close>

definition current_port :: "item list \<Rightarrow> bool" where
  "current_port eth \<longleftrightarrow> leaves eth ''no-shutdown'' = [] \<and> keyless eth ''switchport'' \<and> (case sp_view eth of None \<Rightarrow> True | Some sp \<Rightarrow> sp_current sp)"

text \<open>
  An edit that gives a port an address is not for a member of a channel group, and one that leaves the port a
  tunnel port has no trunk fields; mgmtd refuses what they would make.
\<close>

definition edit_fits :: "interface_edit \<Rightarrow> interface_intent \<Rightarrow> bool" where
  "edit_fits edit i \<longleftrightarrow>
     (if is_routed edit then if_channel_group i = None
      else case mode_switchport (ed_mode edit) (if_switchport i) of
        None \<Rightarrow> True
      | Some s \<Rightarrow> sp_mode s = SpDot1qTunnel \<longrightarrow> no_trunk_edit edit)"

lemma mode_refines:
  assumes "switchport eth name = Inr s" and "current_port eth"
  shows "case mode_children (ed_mode edit) (sp_view eth) of
      None \<Rightarrow> mode_switchport (ed_mode edit) s = None
    | Some sp \<Rightarrow> sp_current sp \<and> (\<exists>t. mode_switchport (ed_mode edit) s = Some t \<and> read_switchport sp name = Inr t)"
proof -
  have v: "case sp_view eth of None \<Rightarrow> s = None | Some sp \<Rightarrow> sp_current sp \<and> (\<exists>t. s = Some t \<and> read_switchport sp name = Inr t)"
    using assms by (auto simp: switchport_view current_port_def split: option.splits sum.splits)
  show ?thesis
  proof (cases "ed_mode edit")
    case None
    then show ?thesis using v by (auto simp: mode_children_def mode_switchport_def split: option.splits)
  next
    case (Some m)
    obtain sp t where spt: "sp = (case sp_view eth of Some sp \<Rightarrow> sp | None \<Rightarrow> [])" "t = (case s of Some t \<Rightarrow> t | None \<Rightarrow> default_switchport)" by blast
    have c: "sp_current sp" "read_switchport sp name = Inr t" using v spt read_empty by (auto split: option.splits)
    have "mode_switchport (Some m) s = mode_switchport (Some m) (Some t)" using spt(2) by (simp add: mode_switchport_def)
    with read_mode [OF c, of m] Some spt(1) show ?thesis
      by (cases "m = EditRouted") (auto simp: mode_children_def mode_switchport_def)
  qed
qed

lemma switchport_refines:
  assumes "switchport eth name = Inr (if_switchport i)" and "current_port eth" and "vlans_ok edit" and "edit_fits edit i"
  shows "switchport (apply_one edit eth) name = Inr (if_switchport (edit_intent edit i))"
proof -
  have k: "keyless eth ''switchport''" using assms(2) by (simp add: current_port_def)
  have r: "is_routed edit = (case ed_address edit of Some a \<Rightarrow> a \<noteq> [] | None \<Rightarrow> False)" by (simp add: is_routed_def)
  have rv: "read_switchport (vlan_children edit sp) name = Inr (vlan_switchport edit t)"
    if "sp_current sp" "read_switchport sp name = Inr t" "sp_mode t = SpDot1qTunnel \<longrightarrow> no_trunk_edit edit" for sp t
    using read_vlans [OF that(1,2) assms(3)] that(3) by blast
  show ?thesis
    using mode_refines [OF assms(1,2), of edit] assms(4)
    by (auto simp: switchport_view sp_view_apply_one [OF k] edit_intent_def Let_def r [symmetric] edit_fits_def rv split: option.splits if_splits)
qed

lemma port_refines:
  assumes "port_intent eth name = Inr i" and "current_port eth" and "check_interface_edit edit = None" and "edit_fits edit i"
    and "\<And>n. ed_speed_mbps edit = Some n \<Longrightarrow> n < u32_bound"
  shows "port_intent (apply_one edit eth) name = Inr (edit_intent edit i)"
proof -
  note c = check_interface_edit_None [OF assms(3)]
  have i: "admin_state eth name = Inr (if_admin_up i)" "address_intent eth name = Inr (if_address i)" "switchport eth name = Inr (if_switchport i)"
    "speed_intent eth name = Inr (if_speed_mbps i)" "duplex_intent eth name = Inr (if_duplex i)" "mtu_intent eth name = Inr (if_mtu i)"
    "leaf_value eth ''description'' = if_description i" "if_switchport i = None \<or> if_address i = None"
    "channel_group_intent eth name = Inr (if_channel_group i)" "if_channel_group i = None \<or> if_address i = None"
    using assms(1) by (auto simp: port_intent_def split: sum.splits if_splits)
  have n: "leaves eth ''no-shutdown'' = []" using assms(2) by (simp add: current_port_def)
  have "if_switchport (edit_intent edit i) = None \<or> if_address (edit_intent edit i) = None"
    using i(8) by (auto simp: edit_intent_def Let_def edited_def mode_switchport_def split: option.splits edit_mode.splits)
  moreover have "if_channel_group (edit_intent edit i) = None \<or> if_address (edit_intent edit i) = None"
    using i(10) assms(4) by (auto simp: edit_intent_def Let_def edited_def edit_fits_def is_routed_def split: option.splits if_splits)
  moreover have "channel_group_intent (apply_one edit eth) name = Inr (if_channel_group (edit_intent edit i))"
    using i(9) by (simp add: channel_group_intent_def reads_leaves leaves_apply_one edit_intent_def Let_def)
  ultimately show ?thesis
    using admin_refines [OF n i(1)] address_refines [OF c(2) i(2)] switchport_refines [OF i(3) assms(2) c(1) assms(4)]
      speed_refines [OF assms(5) i(4)] duplex_refines [OF c(4) i(5)] mtu_refines [OF c(3) i(6)] description_refines [of edit eth] i(7)
    by (auto simp: port_intent_def edit_intent_def Let_def)
qed

text \<open>The statements of a port that an edit can touch, and the rest of its block.\<close>

definition edited_statement :: "item \<Rightarrow> bool" where
  "edited_statement it =
     (case it of
        Leaf n _ \<Rightarrow> n \<in> set [''description'', ''shutdown'', ''no'', ''address'', ''speed'', ''duplex'', ''mtu'']
      | Block n _ _ \<Rightarrow> n = ''switchport'')"

definition other_statements :: "item list \<Rightarrow> item list" where
  "other_statements its = filter (\<lambda>it. \<not> edited_statement it) its"

lemma filter_update_first:
  "(\<And>it. P it \<Longrightarrow> \<not> Q it \<and> \<not> Q (f it)) \<Longrightarrow> filter Q (update_first P f its) = filter Q its"
  by (induction its) auto

lemma filter_remove: "(\<And>it. P it \<Longrightarrow> \<not> Q it) \<Longrightarrow> filter Q (filter (\<lambda>it. \<not> P it) its) = filter Q its"
  by (induction its) auto

lemma edited_named:
  "is_leaf_named n it \<Longrightarrow> edited_statement (Leaf n []) \<Longrightarrow> edited_statement it \<and> edited_statement (with_values g it)"
  "is_block_named ''switchport'' it \<Longrightarrow> edited_statement it \<and> edited_statement (with_children f it)"
  "is_block_keyed ''switchport'' ks it \<Longrightarrow> edited_statement it \<and> edited_statement (with_children f it)"
  by (cases it; simp add: edited_statement_def)+

lemma other_steps:
  "edited_statement (Leaf n []) \<Longrightarrow> other_statements (set_leaf its n v) = other_statements its"
  "edited_statement (Leaf n []) \<Longrightarrow> other_statements (remove_leaf its n) = other_statements its"
  "other_statements (remove_block its ''switchport'' ks) = other_statements its"
  "other_statements (ensure_block its ''switchport'' ks f) = other_statements its"
  "other_statements (in_switchport f its) = other_statements its"
proof -
  show "edited_statement (Leaf n []) \<Longrightarrow> other_statements (set_leaf its n v) = other_statements its"
    using edited_named(1) [of n]
    by (auto simp: other_statements_def set_leaf_def edited_statement_def [of "Leaf n v"] edited_statement_def [of "Leaf n []"] intro: filter_update_first)
  show "edited_statement (Leaf n []) \<Longrightarrow> other_statements (remove_leaf its n) = other_statements its"
    unfolding other_statements_def remove_leaf_def using edited_named(1) [of n] by (intro filter_remove) auto
  show "other_statements (remove_block its ''switchport'' ks) = other_statements its"
    unfolding other_statements_def remove_block_def using edited_named(3) by (intro filter_remove) auto
  show "other_statements (ensure_block its ''switchport'' ks f) = other_statements its"
    using edited_named(3) by (auto simp: other_statements_def ensure_block_def edited_statement_def [of "Block _ _ _"] intro: filter_update_first)
  show "other_statements (in_switchport f its) = other_statements its"
    using edited_named(2) by (auto simp: other_statements_def in_switchport_def intro: filter_update_first)
qed

lemma other_when_some: "(\<And>x e. other_statements (f x e) = other_statements e) \<Longrightarrow> other_statements (when_some v f eth) = other_statements eth"
  by (simp add: when_some_def split: option.split)

lemma other_statements_apply_one: "other_statements (apply_one edit eth) = other_statements eth"
proof -
  have names: "list_all (\<lambda>n. edited_statement (Leaf n [])) [''description'', ''shutdown'', ''no'', ''address'', ''speed'', ''duplex'', ''mtu'']"
    by (simp add: edited_statement_def)
  show ?thesis
    unfolding apply_one_def Let_def
    using names by (simp add: other_when_some other_steps put_leaf_def edit_admin_def edit_port_mode_def edit_access_def edit_trunk_def
        edit_native_def edit_address_def set_phrase_def)
qed

section \<open>The edit of the tree\<close>

definition first_children :: "item list \<Rightarrow> string \<Rightarrow> item list option" where
  "first_children its n = (case blocks_named its n of [] \<Rightarrow> None | (_, ch) # _ \<Rightarrow> Some ch)"

definition children_or_new :: "item list \<Rightarrow> string \<Rightarrow> item list" where
  "children_or_new its n = (case first_children its n of None \<Rightarrow> [] | Some ch \<Rightarrow> ch)"

text \<open>What the interface is configured with; nothing when it has no block.\<close>

definition interface_items :: "config_tree \<Rightarrow> string \<Rightarrow> item list" where
  "interface_items tree name = children_or_new (children_or_new (items tree) ''interfaces'') name"

text \<open>The blocks the edit addresses have no keys, as after \<open>normalize_interfaces\<close>.\<close>

definition addressable :: "config_tree \<Rightarrow> string list \<Rightarrow> bool" where
  "addressable tree names \<longleftrightarrow>
     keyless (items tree) ''interfaces'' \<and> list_all (keyless (children_or_new (items tree) ''interfaces'')) names"

lemma children_or_new_ensure:
  assumes "keyless its n"
  shows "children_or_new (ensure_block its n [] f) m = (if m = n then f (children_or_new its n) else children_or_new its m)"
  using blocks_named_ensure_block [OF assms]
  by (auto simp: children_or_new_def first_children_def edit_first_def split: list.splits)

lemma keyless_ensure_any: "keyless its n \<Longrightarrow> keyless its b \<Longrightarrow> keyless (ensure_block its n [] f) b"
  using keyless_ensure [of its n f] blocks_named_ensure_block [of its n f b] by (cases "b = n") (simp_all add: keyless_def)

definition edit_named :: "interface_edit \<Rightarrow> string \<Rightarrow> config_tree \<Rightarrow> config_tree" where
  "edit_named edit name t = block_mut t ''interfaces'' (\<lambda>ifs. ensure_block ifs name [] (apply_one edit))"

lemma edit_named_view:
  assumes "addressable t (name # names)"
  shows "interface_items (edit_named edit name t) m = (if m = name then apply_one edit (interface_items t name) else interface_items t m)"
    and "addressable (edit_named edit name t) names"
    and "b \<noteq> ''interfaces'' \<Longrightarrow> blocks_named (items (edit_named edit name t)) b = blocks_named (items t) b"
proof -
  have k: "keyless (items t) ''interfaces''" "keyless (children_or_new (items t) ''interfaces'') name"
    using assms by (simp_all add: addressable_def)
  show "interface_items (edit_named edit name t) m = (if m = name then apply_one edit (interface_items t name) else interface_items t m)"
    using k by (simp add: interface_items_def edit_named_def block_mut_def children_or_new_ensure)
  show "addressable (edit_named edit name t) names"
    using assms k by (auto simp: addressable_def edit_named_def block_mut_def children_or_new_ensure keyless_ensure_any list_all_iff)
  show "b \<noteq> ''interfaces'' \<Longrightarrow> blocks_named (items (edit_named edit name t)) b = blocks_named (items t) b"
    using blocks_named_ensure_block [OF k(1)] by (simp add: edit_named_def block_mut_def)
qed

lemma edit_all_view:
  assumes "addressable t names" and "distinct names"
  shows "interface_items (fold (edit_named edit) names t) m =
      (if m \<in> set names then apply_one edit (interface_items t m) else interface_items t m)"
    and "b \<noteq> ''interfaces'' \<Longrightarrow> blocks_named (items (fold (edit_named edit) names t)) b = blocks_named (items t) b"
  using assms
proof (induction names arbitrary: t)
  case (Cons name names)
  { case 1
    then show ?case using Cons.IH(1) [of "edit_named edit name t"] edit_named_view [where t = t and name = name and names = names and edit = edit] by auto
  next
    case 2
    then show ?case using Cons.IH(2) [of "edit_named edit name t"] edit_named_view [where t = t and name = name and names = names and edit = edit] by auto }
qed simp_all

lemma apply_interface_edit_eq:
  "check_interface_edit edit = None \<Longrightarrow> apply_interface_edit tree edit = Inr (fold (edit_named edit) (ed_names edit) tree)"
  by (simp add: apply_interface_edit_def edit_named_def [abs_def])

definition port_edit_ok :: "config_tree \<Rightarrow> interface_edit \<Rightarrow> bool" where
  "port_edit_ok tree edit \<longleftrightarrow>
     addressable tree (ed_names edit) \<and> distinct (ed_names edit) \<and>
     (case ed_speed_mbps edit of None \<Rightarrow> True | Some n \<Rightarrow> n < u32_bound) \<and>
     list_all (\<lambda>name. current_port (interface_items tree name) \<and>
       (case port_intent (interface_items tree name) name of Inl _ \<Rightarrow> False | Inr i \<Rightarrow> edit_fits edit i)) (ed_names edit)"

lemma interface_edit_refines:
  assumes "check_interface_edit edit = None" and "port_edit_ok tree edit" and "apply_interface_edit tree edit = Inr tree'"
    and "name \<in> set (ed_names edit)"
  shows "\<exists>i. port_intent (interface_items tree name) name = Inr i \<and> port_intent (interface_items tree' name) name = Inr (edit_intent edit i)"
    and "other_statements (interface_items tree' name) = other_statements (interface_items tree name)"
proof -
  have t': "interface_items tree' name = apply_one edit (interface_items tree name)"
    using assms edit_all_view(1) [where t = tree and names = "ed_names edit" and edit = edit and m = name] by (simp add: apply_interface_edit_eq port_edit_ok_def)
  have ok: "current_port (interface_items tree name)"
    "case port_intent (interface_items tree name) name of Inl _ \<Rightarrow> False | Inr i \<Rightarrow> edit_fits edit i"
    "case ed_speed_mbps edit of None \<Rightarrow> True | Some n \<Rightarrow> n < u32_bound"
    using assms(2,4) by (auto simp: port_edit_ok_def list_all_iff)
  then obtain i where i: "port_intent (interface_items tree name) name = Inr i" "edit_fits edit i" by (auto split: sum.splits)
  have "port_intent (apply_one edit (interface_items tree name)) name = Inr (edit_intent edit i)"
    using port_refines [OF i(1) ok(1) assms(1) i(2)] ok(3) by (auto split: option.splits)
  with i(1) t' show "\<exists>i. port_intent (interface_items tree name) name = Inr i \<and> port_intent (interface_items tree' name) name = Inr (edit_intent edit i)"
    by simp
  show "other_statements (interface_items tree' name) = other_statements (interface_items tree name)"
    by (simp add: t' other_statements_apply_one)
qed

definition demo_tree :: config_tree where
  "demo_tree = \<lparr>items = [Block ''interfaces'' []
     [Block ''Ethernet1'' [] [Block ''switchport'' [] [Leaf ''mode'' [''trunk''], Leaf ''trunk'' [''vlans'', ''10,'', ''20'']], Leaf ''shutdown'' [],
        Block ''spanning-tree'' [] [Leaf ''portfast'' []]],
      Block ''Ethernet2'' [] [Leaf ''address'' [''10.0.0.1/24'']]]]\<rparr>"

definition demo_edit :: interface_edit where
  "demo_edit = \<lparr>ed_names = [''Ethernet1''], ed_description = Some ''uplink'', ed_admin_up = Some True, ed_mode = Some EditAccess,
     ed_access_vlan = Some 10, ed_trunk_vlans = None, ed_native_vlan = None, ed_address = None, ed_speed_mbps = Some 1000,
     ed_duplex = Some ''auto'', ed_mtu = Some 9000\<rparr>"

text \<open>
  C15. An interface edit of the console that passes its checks is applied to every port it names. The admin state,
  description, address, switchport, channel group, speed, duplex and MTU that mgmtd reads from the port after the edit
  are what it read before with exactly the fields of the request changed (the mode, the VLANs of the switchport it
  keeps, an address that replaces the switchport and the reverse, a value that stands for the default removed). Every
  other statement of the port, from which mgmtd reads its other settings, stays as it was and in its place; so do every
  other interface and every other block of the configuration. The ports are in the form that
  \<open>normalize_interfaces\<close> produces; a member of a channel group is given no address and a port that ends as a tunnel
  port no trunk fields, both of which mgmtd refuses. Checks across ports, such as those on the members of a Port-Channel,
  are not part of this.\<close>

theorem console_edit_refines:
  assumes "check_interface_edit edit = None" and "port_edit_ok tree edit"
  shows "\<exists>tree'. apply_interface_edit tree edit = Inr tree' \<and>
    (\<forall>name \<in> set (ed_names edit). \<exists>i. port_intent (interface_items tree name) name = Inr i \<and>
       port_intent (interface_items tree' name) name = Inr (edit_intent edit i)) \<and>
    (\<forall>name \<in> set (ed_names edit). other_statements (interface_items tree' name) = other_statements (interface_items tree name)) \<and>
    (\<forall>name. name \<notin> set (ed_names edit) \<longrightarrow> interface_items tree' name = interface_items tree name) \<and>
    (\<forall>b. b \<noteq> ''interfaces'' \<longrightarrow> blocks_named (items tree') b = blocks_named (items tree) b)"
proof -
  obtain tree' where t: "apply_interface_edit tree edit = Inr tree'" "tree' = fold (edit_named edit) (ed_names edit) tree"
    using apply_interface_edit_eq [OF assms(1)] by blast
  have ok: "addressable tree (ed_names edit)" "distinct (ed_names edit)" using assms(2) by (simp_all add: port_edit_ok_def)
  show ?thesis
    using interface_edit_refines [OF assms t(1)] edit_all_view [OF ok] t by (intro exI [of _ tree']) simp
qed

theorem console_edit_refines_witness:
  "\<exists>tree'. apply_interface_edit demo_tree demo_edit = Inr tree' \<and>
     port_intent (interface_items tree' ''Ethernet1'') ''Ethernet1'' =
       Inr \<lparr>if_admin_up = Some True, if_description = Some ''uplink'', if_address = None,
         if_switchport = Some \<lparr>sp_mode = SpAccess, sp_access_vlan = Some 10, sp_trunk_vlans = [], sp_native_vlan = None\<rparr>,
         if_channel_group = None, if_speed_mbps = Some 1000, if_duplex = None, if_mtu = Some 9000\<rparr> \<and>
     other_statements (interface_items tree' ''Ethernet1'') = [Block ''spanning-tree'' [] [Leaf ''portfast'' []]] \<and>
     interface_items tree' ''Ethernet2'' = [Leaf ''address'' [''10.0.0.1/24'']]"
proof -
  let ?i = "\<lparr>if_admin_up = Some False, if_description = None, if_address = None,
      if_switchport = Some \<lparr>sp_mode = SpTrunk, sp_access_vlan = None, sp_trunk_vlans = [10, 20], sp_native_vlan = None\<rparr>,
      if_channel_group = None, if_speed_mbps = None, if_duplex = None, if_mtu = None\<rparr>"
  note views = demo_tree_def interface_items_def children_or_new_def first_children_def blocks_named_def List.map_filter_simps
  note reads = admin_state_def address_intent_def switchport_def read_switchport_def switchport_mode_of_def trunk_vlans_of_def vlan_leaf_def
    channel_group_intent_def speed_intent_def duplex_intent_def mtu_intent_def leaf_value_def leaf_values_def has_leaf_def has_phrase_def phrase_values_def
  have ten: "show_nat 10 = ''10''" "show_nat 20 = ''20''" by code_simp+
  have two: "parse_vlan_id ''10'' = Some 10" "parse_vlan_id ''20'' = Some 20"
    using parse_vlan_id_show [of 10] parse_vlan_id_show [of 20] unfolding ten by simp_all
  have c: "check_interface_edit demo_edit = None"
    by (simp add: check_interface_edit_def demo_edit_def check_name_def has_prefix_def check_opt_def valid_vlan_def check_mtu_def valid_mtu_def
        min_mtu_def max_mtu_def check_duplex_def)
  have i: "port_intent (interface_items demo_tree ''Ethernet1'') ''Ethernet1'' = Inr ?i"
    by (simp add: port_intent_def views reads two bs_collect_def)
  have p: "current_port (interface_items demo_tree ''Ethernet1'')"
    by (simp add: current_port_def views leaves_def keyless_def sp_view_def sp_current_def)
  have f: "edit_fits demo_edit ?i" by (simp add: edit_fits_def mode_switchport_def demo_edit_def)
  have ok: "port_edit_ok demo_tree demo_edit"
    using i p f by (simp add: port_edit_ok_def) (simp add: demo_edit_def addressable_def keyless_def views u32_bound_def)
  have e: "edit_intent demo_edit ?i = \<lparr>if_admin_up = Some True, if_description = Some ''uplink'', if_address = None,
         if_switchport = Some \<lparr>sp_mode = SpAccess, sp_access_vlan = Some 10, sp_trunk_vlans = [], sp_native_vlan = None\<rparr>,
         if_channel_group = None, if_speed_mbps = Some 1000, if_duplex = None, if_mtu = Some 9000\<rparr>"
    by (simp add: edit_intent_def demo_edit_def edited_def mode_switchport_def vlan_switchport_def duplex_parse_def to_lower_def is_upper_def code_def)
  have o: "interface_items demo_tree ''Ethernet2'' = [Leaf ''address'' [''10.0.0.1/24'']]" by (simp add: views)
  have n: "set (ed_names demo_edit) = {''Ethernet1''}" by (simp add: demo_edit_def)
  have s: "other_statements (interface_items demo_tree ''Ethernet1'') = [Block ''spanning-tree'' [] [Leaf ''portfast'' []]]"
    by (simp add: views other_statements_def edited_statement_def)
  from console_edit_refines [OF c ok] i e o s show ?thesis unfolding n by auto
qed

end
