(* ===== verification/Web_Console.thy ===== *)
theory Web_Console
  imports Web_Edit Mgmt_Commit Config_Text
begin

text \<open>
  The web console's sessions, login and role gate (\<open>hemlock-webd/src/auth.rs\<close>, \<open>hemlock-webd/src/api.rs\<close>, the role
  table of \<open>hemlock-common/src/role.rs\<close>, \<open>hemlock-common/src/passwd.rs\<close>) and the way of an edit through mgmtd
  (\<open>commit_edit\<close>). The clock, the random token, the password crates, the account files and whether mgmtd answers are
  arguments. A handler is named by its route.
\<close>

section \<open>Routes and roles\<close>

definition admin_web_paths :: "string list" where
  "admin_web_paths =
    [''/api/acls/bindings/edit'', ''/api/acls/clear'', ''/api/acls/edit'', ''/api/arp/edit'', ''/api/arp/flush'',
     ''/api/bgp/edit'', ''/api/config/restore'', ''/api/copp/clear'', ''/api/copp/edit'', ''/api/dhcp/leases/clear'',
     ''/api/dhcp/relay/edit'', ''/api/dhcp/server/edit'', ''/api/dot1x/edit'', ''/api/dot1x/reauth'',
     ''/api/interfaces/edit'', ''/api/lags/edit'', ''/api/lldp/edit'', ''/api/mac-table/edit'', ''/api/mac-table/flush'',
     ''/api/mirror/edit'', ''/api/ntp/edit'', ''/api/ospf/edit'', ''/api/port-security/clear'', ''/api/port-security/edit'',
     ''/api/qos/maps/edit'', ''/api/qos/ports/edit'', ''/api/qos/wred/edit'', ''/api/reboot'', ''/api/reboot/cancel'',
     ''/api/routes/static/edit'', ''/api/sflow/edit'', ''/api/snmp/edit'', ''/api/snooping-sec/bindings/clear'',
     ''/api/snooping-sec/edit'', ''/api/snooping/edit'', ''/api/spanning-tree/clear-errdisable'',
     ''/api/spanning-tree/edit'', ''/api/storm-control/edit'', ''/api/svis/edit'', ''/api/system/certificate/regenerate'',
     ''/api/system/diag/cable'', ''/api/system/diag/ping'', ''/api/system/diag/traceroute'', ''/api/system/identity/edit'',
     ''/api/system/logging/edit'', ''/api/system/rollback'', ''/api/system/tech-support'', ''/api/system/users/edit'',
     ''/api/system/web/edit'', ''/api/upgrade/apply'', ''/api/upgrade/discard'', ''/api/upgrade/upload'', ''/api/users/add'',
     ''/api/vlans/edit'', ''/api/vrrp/edit'']"

definition web_requires_admin :: "string \<Rightarrow> bool" where
  "web_requires_admin path \<longleftrightarrow> path \<in> set admin_web_paths"

definition post_routes :: "string list" where
  "post_routes =
    [''/api/login'', ''/api/logout'', ''/api/interfaces/edit'', ''/api/vlans/edit'', ''/api/svis/edit'', ''/api/lags/edit'',
     ''/api/spanning-tree/edit'', ''/api/spanning-tree/clear-errdisable'', ''/api/mac-table/edit'', ''/api/mac-table/flush'',
     ''/api/snooping/edit'', ''/api/storm-control/edit'', ''/api/mirror/edit'', ''/api/routes/static/edit'',
     ''/api/arp/edit'', ''/api/arp/flush'', ''/api/ospf/edit'', ''/api/bgp/edit'', ''/api/vrrp/edit'', ''/api/acls/edit'',
     ''/api/acls/bindings/edit'', ''/api/acls/clear'', ''/api/copp/edit'', ''/api/copp/clear'', ''/api/port-security/edit'',
     ''/api/port-security/clear'', ''/api/dot1x/edit'', ''/api/dot1x/reauth'', ''/api/snooping-sec/edit'',
     ''/api/snooping-sec/bindings/clear'', ''/api/qos/maps/edit'', ''/api/qos/wred/edit'', ''/api/qos/ports/edit'',
     ''/api/lldp/edit'', ''/api/dhcp/relay/edit'', ''/api/dhcp/server/edit'', ''/api/dhcp/leases/clear'',
     ''/api/sflow/edit'', ''/api/snmp/edit'', ''/api/ntp/edit'', ''/api/system/identity/edit'', ''/api/system/users/edit'',
     ''/api/system/logging/edit'', ''/api/system/rollback'', ''/api/system/diag/ping'', ''/api/system/diag/traceroute'',
     ''/api/system/diag/cable'', ''/api/system/tech-support'', ''/api/system/certificate/regenerate'',
     ''/api/system/web/edit'', ''/api/users/add'', ''/api/config/restore'', ''/api/reboot'', ''/api/reboot/cancel'',
     ''/api/upgrade/upload'', ''/api/upgrade/apply'', ''/api/upgrade/discard'']"

definition public_posts :: "string list" where
  "public_posts = [''/api/login'', ''/api/logout'']"

section \<open>Sessions\<close>

record web_info =
  wi_user :: string
  wi_role :: role
  wi_handle :: u64

record web_session =
  ws_info :: web_info
  ws_ttl :: duration
  ws_expires :: instant

type_synonym web_sessions = "(string, web_session) btree"

definition create_web :: "string \<Rightarrow> web_info \<Rightarrow> nat \<Rightarrow> instant \<Rightarrow> web_sessions \<Rightarrow> web_sessions" where
  "create_web token info timeout_mins now t =
     (let lifetime = from_secs (max timeout_mins 1 * 60) in
      bt_insert token \<lparr>ws_info = info, ws_ttl = lifetime, ws_expires = now + lifetime\<rparr>
        (bt_retain (\<lambda>_ s. now < ws_expires s) t))"

definition touch_web :: "string \<Rightarrow> instant \<Rightarrow> web_sessions \<Rightarrow> web_info option \<times> web_sessions" where
  "touch_web token now t =
     (case bt_get t token of
        None \<Rightarrow> (None, t)
      | Some s \<Rightarrow>
          if now < ws_expires s then (Some (ws_info s), bt_update token (\<lambda>s. s\<lparr>ws_expires := now + ws_ttl s\<rparr>) t)
          else (None, bt_remove token t))"

definition mgmtd_session_id :: "string \<Rightarrow> web_sessions \<Rightarrow> u64" where
  "mgmtd_session_id token t = (case bt_get t token of None \<Rightarrow> 0 | Some s \<Rightarrow> wi_handle (ws_info s))"

definition set_web_role :: "string \<Rightarrow> role \<Rightarrow> web_sessions \<Rightarrow> web_sessions" where
  "set_web_role user r t =
     bt_map (\<lambda>_ s. if wi_user (ws_info s) = user then s\<lparr>ws_info := (ws_info s)\<lparr>wi_role := r\<rparr>\<rparr> else s) t"

definition remove_web :: "string \<Rightarrow> web_sessions \<Rightarrow> web_sessions" where
  "remove_web token t = bt_remove token t"

section \<open>Passwords\<close>

text \<open>The verdicts of the password crates, on a plaintext and a stored hash.\<close>

record crypt =
  yescrypt_ok :: "string \<Rightarrow> string \<Rightarrow> bool"
  sha_crypt_ok :: "string \<Rightarrow> string \<Rightarrow> bool"

definition passwd_verify :: "crypt \<Rightarrow> string \<Rightarrow> string \<Rightarrow> bool" where
  "passwd_verify crypt plaintext hash =
     (if hash = [] \<or> has_prefix ''!'' hash \<or> has_prefix ''*'' hash then False
      else if has_prefix ''$y$'' hash then yescrypt_ok crypt plaintext hash
      else if has_prefix ''$6$'' hash \<or> has_prefix ''$5$'' hash then sha_crypt_ok crypt plaintext hash
      else False)"

record config_account =
  ca_hash :: "string option"
  ca_role :: role

definition login_blocks :: "config_tree \<Rightarrow> (string list \<times> item list) list" where
  "login_blocks tree =
     (case block tree ''system'' of
        None \<Rightarrow> []
      | Some (_, system) \<Rightarrow>
          (case blocks_named system ''login'' of
             [] \<Rightarrow> []
           | (_, login_items) # _ \<Rightarrow> blocks_named login_items ''user''))"

definition account_role :: "item list \<Rightarrow> role" where
  "account_role user =
     (case Option.bind (leaf_value user ''role'') role_parse of Some r \<Rightarrow> r | None \<Rightarrow> Operator)"

fun has_first_key :: "string \<Rightarrow> string list \<Rightarrow> bool" where
  "has_first_key name [] = False"
| "has_first_key name (k # _) = (k = name)"

definition config_account_of :: "config_tree \<Rightarrow> string \<Rightarrow> config_account option" where
  "config_account_of tree username =
     find_map (\<lambda>(keys, user). if has_first_key username keys
         then Some \<lparr>ca_hash = leaf_value user ''password-hash'', ca_role = account_role user\<rparr> else None)
       (login_blocks tree)"

definition configured_roles :: "config_tree \<Rightarrow> (string \<times> role) list" where
  "configured_roles tree =
     List.map_filter (\<lambda>(keys, user). case keys of [] \<Rightarrow> None | name # _ \<Rightarrow> Some (name, account_role user)) (login_blocks tree)"

text \<open>The account files, \<open>None\<close> where one cannot be read. \<open>str::lines\<close> drops the carriage return of an ended line.\<close>

record account_files =
  etc_shadow :: "string option"
  etc_group :: "string option"
  etc_passwd :: "string option"

definition strip_cr :: "string \<Rightarrow> string" where
  "strip_cr l = (if l \<noteq> [] \<and> last l = CHR 0x0D then butlast l else l)"

definition text_lines :: "string \<Rightarrow> string list" where
  "text_lines s =
     (let ps = split_on (CHR 0x0A) s in map strip_cr (butlast ps) @ (if last ps = [] then [] else [last ps]))"

definition field :: "string list \<Rightarrow> nat \<Rightarrow> string option" where
  "field fs i = (if i < length fs then Some (fs ! i) else None)"

definition shadow_hash :: "account_files \<Rightarrow> string \<Rightarrow> string option" where
  "shadow_hash files username =
     Option.bind (etc_shadow files) (\<lambda>shadow.
       find_map (\<lambda>line. let fs = split_on (CHR '':'') line in
           if hd fs = username then Some (case field fs 1 of Some h \<Rightarrow> h | None \<Rightarrow> []) else None) (text_lines shadow))"

definition operator_account :: "account_files \<Rightarrow> string \<Rightarrow> bool" where
  "operator_account files username =
     (case etc_group files of
        None \<Rightarrow> False
      | Some groups \<Rightarrow>
          (case find_map (\<lambda>line. let fs = split_on (CHR '':'') line in if hd fs = ''hemlock'' then Some fs else None) (text_lines groups) of
             None \<Rightarrow> False
           | Some fs \<Rightarrow>
               if (case field fs 3 of Some ms \<Rightarrow> list_ex (\<lambda>m. trim m = username) (split_on (CHR '','') ms) | None \<Rightarrow> False) then True
               else (case (field fs 2, etc_passwd files) of
                       (Some gid, Some passwd) \<Rightarrow>
                         list_ex (\<lambda>line. let us = split_on (CHR '':'') line in
                             hd us = username \<and> map_option trim (field us 3) = Some (trim gid)) (text_lines passwd)
                     | _ \<Rightarrow> False)))"

definition system_check :: "crypt \<Rightarrow> account_files \<Rightarrow> string \<Rightarrow> string \<Rightarrow> bool" where
  "system_check crypt files username password =
     (if username = [] \<or> CHR '':'' \<in> set username then False
      else if \<not> operator_account files username then False
      else case shadow_hash files username of
          None \<Rightarrow> False
        | Some hash \<Rightarrow> passwd_verify crypt password hash)"

definition web_check ::
  "crypt \<Rightarrow> account_files \<Rightarrow> (string \<times> string) option \<Rightarrow> config_account option \<Rightarrow> string \<Rightarrow> string \<Rightarrow> bool" where
  "web_check crypt files dev_auth account username password =
     (if dev_auth = Some (username, password) then True
      else case account of
          Some a \<Rightarrow> (case ca_hash a of Some hash \<Rightarrow> passwd_verify crypt password hash | None \<Rightarrow> False)
        | None \<Rightarrow> system_check crypt files username password)"

section \<open>Requests\<close>

text \<open>\<open>cookie\<close> is the Cookie header as text, \<open>None\<close> when there is none or it is not text.\<close>

definition cookie_token :: "string option \<Rightarrow> string option" where
  "cookie_token cookie =
     Option.bind cookie (\<lambda>cookies.
       find_map (\<lambda>pair. case split_once (CHR ''='') (trim pair) of
             None \<Rightarrow> None
           | Some (name, v) \<Rightarrow> if name = ''hemlock_session'' then Some v else None)
         (split_on (CHR '';'') cookies))"

definition operator_of :: "string option \<Rightarrow> instant \<Rightarrow> web_sessions \<Rightarrow> web_info option \<times> web_sessions" where
  "operator_of cookie now t =
     (case cookie_token cookie of None \<Rightarrow> (None, t) | Some token \<Rightarrow> touch_web token now t)"

text \<open>Whether the gate lets a request for the path pass to its handler.\<close>

definition role_gate :: "string \<Rightarrow> string option \<Rightarrow> instant \<Rightarrow> web_sessions \<Rightarrow> bool \<times> web_sessions" where
  "role_gate path cookie now t =
     (if \<not> web_requires_admin path then (True, t)
      else case operator_of cookie now t of
          (Some info, t') \<Rightarrow> (is_admin (wi_role info), t')
        | (None, t') \<Rightarrow> (True, t'))"

text \<open>
  What mgmtd answers about a login; without an answer the session is read-only. \<open>reached\<close>: mgmtd can be called;
  \<open>from\<close>: the address the request headers give, which is only listed.
\<close>

definition who_is :: "mgmt_env \<Rightarrow> bool \<Rightarrow> string \<Rightarrow> string \<Rightarrow> instant \<Rightarrow> nat \<Rightarrow> instant \<Rightarrow> engine \<Rightarrow> (role \<times> u64 \<times> nat) \<times> engine" where
  "who_is env reached user from now wall now' e =
     (if \<not> reached then ((Operator, 0, 30), e)
      else case who_am_i env user ''web'' from now wall now' e of
          (Inl _, e') \<Rightarrow> ((Operator, 0, 30), e')
        | (Inr r, e') \<Rightarrow>
            ((case role_parse (who_role r) of Some x \<Rightarrow> x | None \<Rightarrow> Operator, who_session r,
              if who_timeout r = 0 then 30 else who_timeout r), e'))"

record login_request =
  lr_user :: string
  lr_password :: string
  lr_from :: string

definition web_login ::
  "mgmt_env \<Rightarrow> crypt \<Rightarrow> account_files \<Rightarrow> (string \<times> string) option \<Rightarrow> login_request \<Rightarrow> bool \<Rightarrow> bool \<Rightarrow> string
    \<Rightarrow> instant \<Rightarrow> nat \<Rightarrow> instant \<Rightarrow> instant \<Rightarrow> engine \<times> web_sessions \<Rightarrow> string option \<times> engine \<times> web_sessions" where
  "web_login env crypt files dev_auth req read_ok who_ok token now wall now' at st =
     (let (e, t) = st;
          account = (if read_ok then (case parse (get_config False e) of Inl _ \<Rightarrow> None | Inr tree \<Rightarrow> config_account_of tree (lr_user req))
                     else None) in
      if web_check crypt files dev_auth account (lr_user req) (lr_password req)
      then let ((r, i, mins), e') = who_is env who_ok (lr_user req) (lr_from req) now wall now' e
           in (Some token, e', create_web token \<lparr>wi_user = lr_user req, wi_role = r, wi_handle = i\<rparr> mins at t)
      else (None, e, t))"

definition web_logout :: "string option \<Rightarrow> bool \<Rightarrow> engine \<times> web_sessions \<Rightarrow> engine \<times> web_sessions" where
  "web_logout cookie reached st =
     (let (e, t) = st in
      case cookie_token cookie of
        None \<Rightarrow> (e, t)
      | Some token \<Rightarrow>
          (if mgmtd_session_id token t \<noteq> 0 \<and> reached then close_session_rpc (mgmtd_session_id token t) e else e,
           remove_web token t))"

section \<open>Edits through mgmtd\<close>

datatype edit_reply =
    Unparsable parse_error
  | BadEdit edit_error
  | Rejected "string list"
  | Upstream status
  | Committed u64 "string list" "warning list"

definition edited_text :: "(config_tree \<Rightarrow> edit_error + config_tree) \<Rightarrow> string \<Rightarrow> edit_reply + string" where
  "edited_text edit running_text =
     (case parse running_text of
        Inl err \<Rightarrow> Inl (Unparsable err)
      | Inr tree \<Rightarrow>
          (case edit (normalize_interfaces tree) of
             Inl message \<Rightarrow> Inl (BadEdit message)
           | Inr tree' \<Rightarrow> Inr (to_text tree')))"

definition propose :: "string \<Rightarrow> string option \<Rightarrow> engine \<Rightarrow> edit_reply option \<times> engine" where
  "propose txt vres e =
     (case set_candidate_rpc txt vres e of
        (Inl st, e') \<Rightarrow> (Some (Upstream st), e')
      | (Inr (valid, errors), e') \<Rightarrow> (if valid then None else Some (Rejected errors), e'))"

definition web_request :: "string \<Rightarrow> string \<Rightarrow> commit_request" where
  "web_request user cmt = \<lparr>req_comment = cmt, req_user = user, req_client = ''web'', confirm_timeout_secs = 0\<rparr>"

definition push_roles :: "string \<Rightarrow> web_sessions \<Rightarrow> web_sessions" where
  "push_roles txt t =
     (case parse txt of
        Inl _ \<Rightarrow> t
      | Inr tree \<Rightarrow> fold (\<lambda>(user, r). set_web_role user r) (configured_roles tree) t)"

definition conclude ::
  "mgmt_env \<Rightarrow> string \<Rightarrow> string \<Rightarrow> string \<Rightarrow> string option \<Rightarrow> string + string list \<Rightarrow> string \<Rightarrow> instant
    \<Rightarrow> engine \<times> web_sessions \<Rightarrow> edit_reply \<times> engine \<times> web_sessions" where
  "conclude env user cmt txt vres ares at now st =
     (let (e, t) = st in
      case commit env (web_request user cmt) vres ares at now e of
        (Inl err, e') \<Rightarrow> (Upstream err, e', t)
      | (Inr (i, changes, warnings), e') \<Rightarrow> (Committed i changes warnings, e', push_roles txt t))"

definition commit_edit ::
  "mgmt_env \<Rightarrow> string \<Rightarrow> string \<Rightarrow> (config_tree \<Rightarrow> edit_error + config_tree) \<Rightarrow> string option \<Rightarrow> string option
    \<Rightarrow> string + string list \<Rightarrow> string \<Rightarrow> instant \<Rightarrow> engine \<times> web_sessions \<Rightarrow> edit_reply \<times> engine \<times> web_sessions" where
  "commit_edit env user cmt edit vres vres' ares at now st =
     (let (e, t) = st in
      case edited_text edit (get_config False e) of
        Inl reply \<Rightarrow> (reply, e, t)
      | Inr txt \<Rightarrow>
          (case propose txt vres e of
             (Some reply, e') \<Rightarrow> (reply, e', t)
           | (None, e') \<Rightarrow> conclude env user cmt txt vres' ares at now (e', t)))"

section \<open>The gate\<close>

text \<open>The operations of other requests on the table of sessions, in any order.\<close>

datatype table_op =
    Opened string web_info nat instant
  | Seen string instant
  | Roles "(string \<times> role) list"
  | Closed string

fun session_op :: "table_op \<Rightarrow> web_sessions \<Rightarrow> web_sessions" where
  "session_op (Opened token info mins now) t = create_web token info mins now t"
| "session_op (Seen token now) t = snd (touch_web token now t)"
| "session_op (Roles roles) t = fold (\<lambda>(user, r). set_web_role user r) roles t"
| "session_op (Closed token) t = remove_web token t"

fun opens :: "string \<Rightarrow> table_op \<Rightarrow> bool" where
  "opens token (Opened token' _ _ _) \<longleftrightarrow> token = token'"
| "opens token _ \<longleftrightarrow> False"

lemma get_set_web_role:
  "bt_get (set_web_role user r t) token =
     map_option (\<lambda>s. if wi_user (ws_info s) = user then s\<lparr>ws_info := (ws_info s)\<lparr>wi_role := r\<rparr>\<rparr> else s) (bt_get t token)"
  by (simp add: set_web_role_def bt_simps)

lemma wf_set_web_role [simp]: "bt_wf (set_web_role user r t) = bt_wf t"
  by (simp add: set_web_role_def)

definition given_role :: "(string \<times> role) list \<Rightarrow> web_session \<Rightarrow> web_session" where
  "given_role roles s =
     s\<lparr>ws_info := (ws_info s)\<lparr>wi_role := (case map_of (rev roles) (wi_user (ws_info s)) of Some r \<Rightarrow> r | None \<Rightarrow> wi_role (ws_info s))\<rparr>\<rparr>"

lemma given_role_user [simp]: "wi_user (ws_info (given_role roles s)) = wi_user (ws_info s)"
  by (simp add: given_role_def)

lemma given_role_Cons:
  "given_role ((user, r) # roles) s =
     given_role roles (if wi_user (ws_info s) = user then s\<lparr>ws_info := (ws_info s)\<lparr>wi_role := r\<rparr>\<rparr> else s)"
  by (cases "map_of (rev roles) (wi_user (ws_info s))"; cases "wi_user (ws_info s) = user") (auto simp: given_role_def map_add_def)

lemma get_roles:
  "bt_get (fold (\<lambda>(user, r). set_web_role user r) roles t) token = map_option (given_role roles) (bt_get t token)"
proof (induction roles arbitrary: t)
  case Nil
  then show ?case by (cases "bt_get t token") (simp_all add: given_role_def)
next
  case (Cons p roles)
  then show ?case by (cases p) (simp add: get_set_web_role given_role_Cons option.map_comp comp_def)
qed

lemma wf_roles: "bt_wf (fold (\<lambda>(user, r). set_web_role user r) roles t) = bt_wf t"
proof (induction roles arbitrary: t)
  case (Cons p roles)
  then show ?case by (cases p) simp
qed simp

lemma wf_session_op [simp]: "bt_wf t \<Longrightarrow> bt_wf (session_op op t)"
  by (cases op) (simp_all add: create_web_def touch_web_def remove_web_def Let_def wf_roles split: option.split)

lemma wf_session_ops: "bt_wf t \<Longrightarrow> bt_wf (fold session_op ops t)"
  by (induction ops arbitrary: t) simp_all

lemma get_create_other:
  assumes "bt_wf t" and "token \<noteq> token'" and "bt_get (create_web token' info mins now t) token = Some s"
  shows "bt_get t token = Some s"
proof -
  have "bt_get (bt_retain (\<lambda>_ s. now < ws_expires s) t) token = Some s"
    using assms(2,3) unfolding create_web_def Let_def bt_get_insert by simp
  then show ?thesis unfolding bt_get_retain [OF assms(1)] by (simp split: option.splits if_splits)
qed

lemma session_op_user:
  assumes "bt_wf t" and "\<not> opens token op" and "bt_get (session_op op t) token = Some s'"
  obtains s where "bt_get t token = Some s" and "wi_user (ws_info s) = wi_user (ws_info s')"
proof -
  have "\<exists>s. bt_get t token = Some s \<and> wi_user (ws_info s) = wi_user (ws_info s')"
  proof (cases op)
    case (Opened token' info mins now)
    with assms(2,3) get_create_other [OF assms(1), of token token' info mins now s'] show ?thesis by simp
  next
    case (Seen token' now)
    with assms(3) show ?thesis
      by (cases "bt_get t token") (auto simp: touch_web_def bt_simps split: option.splits if_splits)
  next
    case (Roles roles)
    with assms(3) show ?thesis by (cases "bt_get t token") (auto simp: get_roles)
  next
    case (Closed token')
    with assms(3) show ?thesis by (simp add: remove_web_def bt_simps split: if_splits)
  qed
  with that show thesis by blast
qed

lemma session_ops_user:
  assumes "bt_wf t" and "list_all (\<lambda>op. \<not> opens token op) ops" and "bt_get (fold session_op ops t) token = Some s'"
  shows "\<exists>s. bt_get t token = Some s \<and> wi_user (ws_info s) = wi_user (ws_info s')"
  using assms
proof (induction ops arbitrary: t)
  case (Cons op ops)
  have "\<exists>s1. bt_get (session_op op t) token = Some s1 \<and> wi_user (ws_info s1) = wi_user (ws_info s')"
    using Cons.prems by (intro Cons.IH) simp_all
  then obtain s1 where s1: "bt_get (session_op op t) token = Some s1" "wi_user (ws_info s1) = wi_user (ws_info s')" by blast
  from Cons.prems have "\<not> opens token op" by simp
  show ?case by (rule session_op_user [OF Cons.prems(1) \<open>\<not> opens token op\<close> s1(1)]) (use s1(2) in auto)
qed simp

lemma touch_web_Some: "touch_web token now t = (Some info, t') \<Longrightarrow> \<exists>s. bt_get t token = Some s \<and> now < ws_expires s \<and> ws_info s = info"
  by (auto simp: touch_web_def split: option.splits if_splits)

lemma touch_web_None: "touch_web token now t = (None, t') \<Longrightarrow> bt_get t' token = None"
  by (auto simp: touch_web_def bt_simps split: option.splits if_splits)

lemma touch_web_user:
  "touch_web token now t = (Some info, t') \<Longrightarrow> bt_get t' token = Some s' \<Longrightarrow> ws_info s' = info"
  by (auto simp: touch_web_def bt_simps split: option.splits if_splits)

lemma posts_gated: "list_all (\<lambda>path. web_requires_admin path \<or> path \<in> set public_posts) post_routes"
  by (simp add: web_requires_admin_def admin_web_paths_def post_routes_def public_posts_def)

text \<open>
  C13. Every route that changes something is closed to everybody but an administrator. A request reads the table of
  sessions twice, in the role gate and in the extractor of its handler, and other requests may open, touch and close
  sessions and change roles in between. Whenever the handler of a route other than login and logout runs, the token of
  the request named a session that was live when the gate read it, whose role was admin then, and which belongs to
  the user the handler runs for. No login in between is given the token the request already carries: tokens are 256
  random bits.\<close>

theorem console_gate_safe:
  assumes "path \<in> set post_routes" and "path \<notin> set public_posts" and "t = fold session_op before []"
    and "role_gate path cookie now t = (True, t1)"
    and "operator_of cookie now' (fold session_op others t1) = (Some info, t2)"
    and "\<And>token. cookie_token cookie = Some token \<Longrightarrow> list_all (\<lambda>op. \<not> opens token op) others"
  shows "\<exists>token s. cookie_token cookie = Some token \<and> bt_get t token = Some s \<and> now < ws_expires s
    \<and> wi_role (ws_info s) = Admin \<and> wi_user (ws_info s) = wi_user info"
proof -
  have wf: "bt_wf t" unfolding assms(3) by (rule wf_session_ops) simp
  have gated: "web_requires_admin path" using posts_gated assms(1,2) by (auto simp: list_all_iff)
  obtain token where token: "cookie_token cookie = Some token" using assms(5) by (auto simp: operator_of_def split: option.splits)
  obtain o1 where o1: "touch_web token now t = (o1, t1)" "\<And>i. o1 = Some i \<Longrightarrow> is_admin (wi_role i)"
    using assms(4) gated token by (cases "touch_web token now t") (auto simp: role_gate_def operator_of_def split: option.splits)
  have wf1: "bt_wf t1" using wf_session_op [OF wf, of "Seen token now"] o1(1) by simp
  obtain s2 where s2: "bt_get (fold session_op others t1) token = Some s2" "ws_info s2 = info"
    using touch_web_Some assms(5) token by (fastforce simp: operator_of_def)
  obtain s1 where s1: "bt_get t1 token = Some s1" "wi_user (ws_info s1) = wi_user info"
    using session_ops_user [OF wf1 assms(6) [OF token] s2(1)] s2(2) by auto
  obtain i where i: "o1 = Some i" using touch_web_None [of token now t t1] o1(1) s1(1) by (cases o1) simp_all
  obtain s where s: "bt_get t token = Some s" "now < ws_expires s" "ws_info s = i" using touch_web_Some o1(1) i by blast
  have "ws_info s1 = i" using touch_web_user o1(1) i s1(1) by blast
  moreover have "wi_role i = Admin" using o1(2) [OF i] by (cases "wi_role i") simp_all
  ultimately show ?thesis using token s s1(2) by auto
qed

theorem console_gate_safe_witness:
  "\<exists>token s. cookie_token (Some ''theme=dark; hemlock_session=7f'') = Some token
    \<and> bt_get (create_web ''7f'' \<lparr>wi_user = ''noc'', wi_role = Admin, wi_handle = 1\<rparr> 30 0 []) token = Some s \<and> 5 < ws_expires s
    \<and> wi_role (ws_info s) = Admin \<and> wi_user (ws_info s) = ''noc''"
proof -
  let ?i = "\<lparr>wi_user = ''noc'', wi_role = Admin, wi_handle = 1\<rparr>" and ?c = "Some ''theme=dark; hemlock_session=7f''"
  let ?t = "fold session_op [Opened ''7f'' ?i 30 0] []" and ?o = "[Roles [(''noc'', Operator)]]"
  have c: "cookie_token ?c = Some ''7f''" by code_simp
  have g: "web_requires_admin ''/api/reboot''" by (simp add: web_requires_admin_def admin_web_paths_def)
  have t: "?t = [(''7f'', \<lparr>ws_info = ?i, ws_ttl = 1800000000000, ws_expires = 1800000000000\<rparr>)]"
    by (simp add: create_web_def from_secs_def bt_retain_def)
  let ?t1 = "[(''7f'', \<lparr>ws_info = ?i, ws_ttl = 1800000000000, ws_expires = 1800000000005\<rparr>)]"
  have gate: "role_gate ''/api/reboot'' ?c 5 ?t = (True, ?t1)"
    unfolding t role_gate_def operator_of_def c by (simp add: g touch_web_def bt_update_def bt_map_def)
  have run: "operator_of ?c 9 (fold session_op ?o ?t1) =
      (Some (?i\<lparr>wi_role := Operator\<rparr>), [(''7f'', \<lparr>ws_info = ?i\<lparr>wi_role := Operator\<rparr>, ws_ttl = 1800000000000, ws_expires = 1800000000009\<rparr>)])"
    unfolding operator_of_def c by (simp add: set_web_role_def touch_web_def bt_update_def bt_map_def)
  have "\<exists>token s. cookie_token ?c = Some token \<and> bt_get ?t token = Some s \<and> 5 < ws_expires s
      \<and> wi_role (ws_info s) = Admin \<and> wi_user (ws_info s) = wi_user (?i\<lparr>wi_role := Operator\<rparr>)"
    by (rule console_gate_safe [OF _ _ refl gate run]) (simp_all add: post_routes_def public_posts_def)
  then show ?thesis by simp
qed

section \<open>An edit and its commit\<close>

lemma edited_text_eq:
  assumes "parse (get_config False e) = Inr tree" and "edit (normalize_interfaces tree) = Inr tree'"
  shows "edited_text edit (get_config False e) = Inr (to_text tree')"
  using assms by (simp add: edited_text_def)

lemma push_roles_text:
  assumes "list_all printable (items tree)"
  shows "push_roles (to_text tree) t = fold (\<lambda>(user, r). set_web_role user r) (configured_roles tree) t"
  using parse_to_text [OF assms] by (simp add: push_roles_def)

text \<open>On a disk that does not fail, a text that validates and whose changes are pushed becomes the running text.\<close>

lemma submit_succeeds:
  assumes "fail_in (store e) = None"
  obtains e1 i w e2 where "propose txt None e = (None, e1)"
    and "conclude env user cmt txt None (Inr ch) at now (e1, t) = (Committed i ch w, e2, push_roles txt t)"
    and "get_config False e2 = txt" and "fail_in (store e2) = None"
    and "ring_wf (store e) \<Longrightarrow> rollback (store e2) 1 = Some (get_config False e)"
proof -
  obtain s1 where s1: "set_candidate_rpc txt None e = (Inr (True, []), e\<lparr>store := s1\<rparr>)" "fail_in s1 = None"
      "running s1 = running (store e)" "candidate s1 = txt" "ring_wf s1 = ring_wf (store e)"
    using set_candidate_rpc_succeeds [OF assms] by metis
  obtain resp e2 where e2: "commit env (web_request user cmt) None (Inr ch) at now (e\<lparr>store := s1\<rparr>) = (Inr resp, e2)"
      "store_commit (json_of env) txt (commit_meta at (web_request user cmt)) s1 = (Some (), store e2)"
    by (rule commit_store_succeeds [of "e\<lparr>store := s1\<rparr>" env "web_request user cmt" ch at now]) (simp_all add: s1(2,4))
  obtain i w where resp: "resp = (i, ch, w)"
    using e2(1) by (auto simp: commit_def apply_and_persist_def Let_def split: prod.splits option.splits if_splits)
  have "fail_in (store e2) = None" using sound_commit s1(2) e2(2) unfolding sound_def by (metis prod.inject)
  moreover have "running (store e2) = txt" by (rule commit_texts(1) [OF e2(2)])
  moreover have "ring_wf (store e) \<Longrightarrow> rollback (store e2) 1 = Some (running (store e))"
    using commit_rollbacks [OF _ e2(2), of 1] s1(3,5) by (simp add: ring_size_def)
  ultimately show thesis
    using s1(1) e2(1) resp by (intro that [of "e\<lparr>store := s1\<rparr>" i w e2]) (simp_all add: propose_def conclude_def get_config_def)
qed

lemma commit_edit_succeeds:
  assumes "parse (get_config False e) = Inr tree" and "edit (normalize_interfaces tree) = Inr tree'"
    and "list_all printable (items tree')" and "fail_in (store e) = None"
  obtains i w e' where "commit_edit env user cmt edit None None (Inr ch) at now (e, t) = (Committed i ch w, e', push_roles (to_text tree') t)"
    and "parse (get_config False e') = Inr tree'" and "ring_wf (store e) \<Longrightarrow> rollback (store e') 1 = Some (get_config False e)"
proof -
  obtain e1 i w e2 where s: "propose (to_text tree') None e = (None, e1)"
      "conclude env user cmt (to_text tree') None (Inr ch) at now (e1, t) = (Committed i ch w, e2, push_roles (to_text tree') t)"
      "get_config False e2 = to_text tree'" "ring_wf (store e) \<Longrightarrow> rollback (store e2) 1 = Some (get_config False e)"
    using submit_succeeds [OF assms(4)] by metis
  have "commit_edit env user cmt edit None None (Inr ch) at now (e, t) = (Committed i ch w, e2, push_roles (to_text tree') t)"
    unfolding commit_edit_def using edited_text_eq [where edit = edit, OF assms(1,2)] s(1,2) by simp
  then show thesis using that parse_to_text [OF assms(3)] s(3,4) by metis
qed

text \<open>A console that describes a port, on a switch with an empty configuration.\<close>

definition describe :: "string \<Rightarrow> interface_edit" where
  "describe name = \<lparr>ed_names = [name], ed_description = Some ''uplink'', ed_admin_up = None, ed_mode = None, ed_access_vlan = None,
     ed_trunk_vlans = None, ed_native_vlan = None, ed_address = None, ed_speed_mbps = None, ed_duplex = None, ed_mtu = None\<rparr>"

definition described :: "string \<Rightarrow> config_tree" where
  "described name = \<lparr>items = [Block ''interfaces'' [] [Block name [] [Leaf ''description'' [''uplink'']]]]\<rparr>"

lemma describe_empty:
  "parse (get_config False (new_engine empty_fs)) = Inr \<lparr>items = []\<rparr>"
  "apply_interface_edit (normalize_interfaces \<lparr>items = []\<rparr>) (describe ''Ethernet1'') = Inr (described ''Ethernet1'')"
  "apply_interface_edit (normalize_interfaces \<lparr>items = []\<rparr>) (describe ''Ethernet2'') = Inr (described ''Ethernet2'')"
  "list_all printable (items (described ''Ethernet1''))" "list_all printable (items (described ''Ethernet2''))"
  by code_simp+

lemma empty_engine_ok: "fail_in (store (new_engine empty_fs)) = None" "ring_wf (store (new_engine empty_fs))"
  using empty_fs_wf by (simp_all add: new_engine_def empty_fs_def)

text \<open>
  C14. The way of a console edit through the system: the running text is parsed and normalised, the edit is applied, and
  the result is printed, set as the candidate and committed. When the edited tree can be written (see
  \<open>printable\<close>; a value that is written without quotes and begins like a comment cannot), the disk does not fail, the ring of
  rollbacks is intact, and validation and push succeed, then the request is answered as committed, the running configuration parses to exactly the edited tree, the
  configuration it displaces is the first rollback, and every open console session has the role that the committed
  configuration gives its user, or keeps its role when the configuration does not name the user.\<close>

theorem console_commit_applies:
  assumes "parse (get_config False e) = Inr tree" and "edit (normalize_interfaces tree) = Inr tree'"
    and "list_all printable (items tree')" and "fail_in (store e) = None" and "ring_wf (store e)"
  shows "\<exists>i w e' t'. commit_edit env user cmt edit None None (Inr ch) at now (e, t) = (Committed i ch w, e', t')
    \<and> parse (get_config False e') = Inr tree' \<and> rollback (store e') 1 = Some (get_config False e)
    \<and> (\<forall>token. bt_get t' token = map_option (given_role (configured_roles tree')) (bt_get t token))"
proof -
  obtain i w e' where "commit_edit env user cmt edit None None (Inr ch) at now (e, t) = (Committed i ch w, e', push_roles (to_text tree') t)"
      "parse (get_config False e') = Inr tree'" "rollback (store e') 1 = Some (get_config False e)"
    using commit_edit_succeeds [where edit = edit, OF assms(1-4)] assms(5) by metis
  then show ?thesis using get_roles [of "configured_roles tree'" t] unfolding push_roles_text [OF assms(3)] by blast
qed

theorem console_commit_applies_witness:
  "\<exists>i w e' t'. commit_edit plain_env ''noc'' ''web console'' (\<lambda>tree. apply_interface_edit tree (describe ''Ethernet1'')) None None (Inr [])
       [] 0 (new_engine empty_fs, []) = (Committed i [] w, e', t')
    \<and> parse (get_config False e') = Inr (described ''Ethernet1'') \<and> rollback (store e') 1 = Some (get_config False (new_engine empty_fs))"
  using console_commit_applies [where edit = "\<lambda>tree. apply_interface_edit tree (describe ''Ethernet1'')" and env = plain_env
      and user = "''noc''" and cmt = "''web console''" and ch = "[]" and at = "[]" and now = 0 and t = "[]",
      OF describe_empty(1,2,4) empty_engine_ok] by blast

text \<open>
  C35. Two console edits can lose an update. Both read the running configuration before either commits; then the first is
  proposed and committed, then the second. Both are answered as committed, and the running configuration is the second
  edit of the configuration both started from: nothing of the first is left, and neither operator is told.\<close>

theorem console_edits_lose_update:
  assumes "parse (get_config False e) = Inr tree" and "edit_a (normalize_interfaces tree) = Inr tree_a"
    and "edit_b (normalize_interfaces tree) = Inr tree_b" and "list_all printable (items tree_b)" and "fail_in (store e) = None"
  shows "\<exists>txt_a txt_b e1 i w e2 t2 e3 j v e4 t4. edited_text edit_a (get_config False e) = Inr txt_a
    \<and> edited_text edit_b (get_config False e) = Inr txt_b
    \<and> propose txt_a None e = (None, e1) \<and> conclude env user_a cmt txt_a None (Inr ch_a) at_a now_a (e1, t) = (Committed i ch_a w, e2, t2)
    \<and> propose txt_b None e2 = (None, e3) \<and> conclude env user_b cmt txt_b None (Inr ch_b) at_b now_b (e3, t2) = (Committed j ch_b v, e4, t4)
    \<and> parse (get_config False e4) = Inr tree_b"
proof -
  let ?a = "to_text tree_a" and ?b = "to_text tree_b"
  obtain e1 i w e2 where a: "propose ?a None e = (None, e1)"
      "conclude env user_a cmt ?a None (Inr ch_a) at_a now_a (e1, t) = (Committed i ch_a w, e2, push_roles ?a t)" "fail_in (store e2) = None"
    using submit_succeeds [OF assms(5)] by metis
  obtain e3 j v e4 where b: "propose ?b None e2 = (None, e3)"
      "conclude env user_b cmt ?b None (Inr ch_b) at_b now_b (e3, push_roles ?a t) = (Committed j ch_b v, e4, push_roles ?b (push_roles ?a t))"
      "get_config False e4 = ?b"
    using submit_succeeds [OF a(3)] by metis
  show ?thesis
    using edited_text_eq [where edit = edit_a, OF assms(1,2)] edited_text_eq [where edit = edit_b, OF assms(1,3)] a(1,2) b parse_to_text [OF assms(4)]
    by (intro exI conjI) (assumption | simp)+
qed

theorem console_edits_lose_update_witness:
  "\<exists>e1 i w e2 t2 e3 j v e4 t4.
      propose (to_text (described ''Ethernet1'')) None (new_engine empty_fs) = (None, e1)
    \<and> conclude plain_env ''noc'' ''web console'' (to_text (described ''Ethernet1'')) None (Inr []) [] 0 (e1, []) = (Committed i [] w, e2, t2)
    \<and> propose (to_text (described ''Ethernet2'')) None e2 = (None, e3)
    \<and> conclude plain_env ''ops'' ''web console'' (to_text (described ''Ethernet2'')) None (Inr []) [] 1 (e3, t2) = (Committed j [] v, e4, t4)
    \<and> parse (get_config False e4) = Inr (described ''Ethernet2'')"
proof -
  let ?a = "\<lambda>tree. apply_interface_edit tree (describe ''Ethernet1'')" and ?b = "\<lambda>tree. apply_interface_edit tree (describe ''Ethernet2'')"
  note texts = edited_text_eq [where edit = ?a, OF describe_empty(1,2)] edited_text_eq [where edit = ?b, OF describe_empty(1,3)]
  from console_edits_lose_update [where edit_a = ?a and edit_b = ?b and env = plain_env and user_a = "''noc''" and user_b = "''ops''"
      and cmt = "''web console''" and ch_a = "[]" and ch_b = "[]" and at_a = "[]" and at_b = "[]" and now_a = 0 and now_b = 1 and t = "[]",
      OF describe_empty(1,2,3,5) empty_engine_ok(1)]
  show ?thesis unfolding texts sum.inject by (elim exE conjE) (intro exI conjI, (assumption | simp)+)
qed

lemma commit_running:
  assumes "commit env req vres ares at now e = (Inr resp, e1)"
  shows "running (store e1) = candidate (store e)"
  using assms commit_texts(1)
  by (auto simp: commit_def apply_and_persist_def Let_def start_timer_def split: option.splits sum.splits prod.splits if_splits)

lemma propose_candidate:
  assumes "propose txt vres e = (None, e1)"
  shows "candidate (store e1) = txt"
proof -
  obtain s' where "set_candidate txt (store e) = (Some (), s')" "e1 = e\<lparr>store := s'\<rparr>"
    using assms by (auto simp: propose_def set_candidate_rpc_def with_store_def split: option.splits sum.splits prod.splits if_splits)
  then show ?thesis using set_candidate_Some(2) by fastforce
qed

lemma commit_edit_Committed:
  assumes "commit_edit env user cmt edit vres vres' ares at now (e, t) = (Committed i ch w, e', t')"
  shows "t' = push_roles (get_config False e') t"
proof -
  obtain c where c: "edited_text edit (get_config False e) = Inr c"
    using assms by (cases "edited_text edit (get_config False e)")
      (auto simp: commit_edit_def edited_text_def split: sum.splits)
  obtain e1 where e1: "propose c vres e = (None, e1)"
    using assms c by (auto simp: commit_edit_def propose_def split: prod.splits option.splits sum.splits if_splits)
  then have "conclude env user cmt c vres' ares at now (e1, t) = (Committed i ch w, e', t')"
    using assms c by (simp add: commit_edit_def)
  then have "commit env (web_request user cmt) vres' ares at now e1 = (Inr (i, ch, w), e')" "t' = push_roles c t"
    by (auto simp: conclude_def split: prod.splits sum.splits)
  with commit_running propose_candidate [OF e1] show ?thesis by (auto simp: get_config_def)
qed

lemma given_role_none: "u \<notin> fst ` set roles \<Longrightarrow> wi_user (ws_info s) = u \<Longrightarrow> given_role roles s = s"
  by (simp add: given_role_def map_of_eq_None_iff [THEN iffD2])

text \<open>
  C36. A commit that removes an account does not reach the sessions of that account. The roles that follow a commit are
  those of the accounts the new configuration names; a session of any other user is left as it is. An administrator
  whose account was deleted keeps an open console session with the admin role, passes the gate of every route, and
  with every request moves the end of the session to a full time to live after the request. The time to live is
  positive, as in every session \<open>create\<close> opens.\<close>

theorem removed_account_keeps_session:
  assumes "commit_edit env user cmt edit vres vres' ares at now (e, t) = (Committed i ch w, e', t')"
    and "parse (get_config False e') = Inr tree" and "gone \<notin> fst ` set (configured_roles tree)"
    and "bt_get t token = Some s" and "wi_user (ws_info s) = gone" and "wi_role (ws_info s) = Admin"
    and "cookie_token cookie = Some token" and "later < ws_expires s" and "0 < ws_ttl s"
  shows "\<exists>t1 t2 s2. role_gate path cookie later t' = (True, t1) \<and> operator_of cookie later t1 = (Some (ws_info s), t2)
    \<and> bt_get t2 token = Some s2 \<and> ws_info s2 = ws_info s \<and> ws_ttl s2 = ws_ttl s \<and> ws_expires s2 = later + ws_ttl s"
proof -
  have "t' = fold (\<lambda>(user, r). set_web_role user r) (configured_roles tree) t"
    using commit_edit_Committed [OF assms(1)] assms(2) by (simp add: push_roles_def)
  then have s: "bt_get t' token = Some s"
    using assms(4) given_role_none [OF assms(3,5)] by (simp add: get_roles)
  let ?s1 = "s\<lparr>ws_expires := later + ws_ttl s\<rparr>"
  obtain t1 where t1: "role_gate path cookie later t' = (True, t1)" "bt_get t1 token = Some s \<or> bt_get t1 token = Some ?s1"
  proof (cases "web_requires_admin path")
    case True
    then show thesis
      using s assms(6-8) by (intro that [of "bt_update token (\<lambda>s. s\<lparr>ws_expires := later + ws_ttl s\<rparr>) t'"])
        (simp_all add: role_gate_def operator_of_def touch_web_def bt_simps)
  next
    case False
    then show thesis using s by (intro that [of t']) (simp_all add: role_gate_def)
  qed
  then obtain t2 where "operator_of cookie later t1 = (Some (ws_info s), t2)" "bt_get t2 token = Some ?s1"
    using assms(7-9) by (auto simp: operator_of_def touch_web_def bt_simps)
  with t1(1) show ?thesis by (intro exI [of _ t1] exI [of _ t2] exI [of _ ?s1]) simp
qed

text \<open>A switch whose configuration names one administrator, who is then removed.\<close>

definition one_admin :: config_tree where
  "one_admin = \<lparr>items = [Block ''system'' [] [Block ''login'' [] [Block ''user'' [''bob''] [Leaf ''role'' [''admin'']]]]]\<rparr>"

definition one_admin_engine :: engine where
  "one_admin_engine = new_engine (empty_fs\<lparr>disk := (\<lambda>_. None)(Running := Some (to_text one_admin))\<rparr>)"

definition bob_session :: web_session where
  "bob_session = \<lparr>ws_info = \<lparr>wi_user = ''bob'', wi_role = Admin, wi_handle = 1\<rparr>, ws_ttl = from_secs 1800, ws_expires = from_secs 1800\<rparr>"

lemma one_admin_removed:
  "configured_roles one_admin = [(''bob'', Admin)]" "list_all printable (items one_admin)"
  "normalize_interfaces one_admin = one_admin" "configured_roles \<lparr>items = []\<rparr> = []" "list_all printable (items \<lparr>items = []\<rparr>)"
  "cookie_token (Some ''hemlock_session=7f'') = Some ''7f''"
  by code_simp+

theorem removed_account_keeps_session_witness:
  "\<exists>i w e' t' t1 t2. commit_edit plain_env ''noc'' ''web console'' (\<lambda>tree. Inr \<lparr>items = remove_block (items tree) ''system'' []\<rparr>)
       None None (Inr []) [] 0 (one_admin_engine, [(''7f'', bob_session)]) = (Committed i [] w, e', t')
    \<and> parse (get_config False e') = Inr \<lparr>items = []\<rparr>
    \<and> role_gate ''/api/reboot'' (Some ''hemlock_session=7f'') 5 t' = (True, t1)
    \<and> operator_of (Some ''hemlock_session=7f'') 5 t1 = (Some \<lparr>wi_user = ''bob'', wi_role = Admin, wi_handle = 1\<rparr>, t2)"
proof -
  let ?edit = "\<lambda>tree. Inr \<lparr>items = remove_block (items tree) ''system'' []\<rparr>" and ?t = "[(''7f'', bob_session)]"
  have "get_config False one_admin_engine = to_text one_admin"
    by (simp add: get_config_def one_admin_engine_def new_engine_def running_def read_or_empty_def empty_fs_def)
  then have p: "parse (get_config False one_admin_engine) = Inr one_admin" using parse_to_text one_admin_removed(2) by simp
  have x: "?edit (normalize_interfaces one_admin) = Inr \<lparr>items = []\<rparr>"
    unfolding one_admin_removed(3) by (simp add: one_admin_def remove_block_def)
  have f: "fail_in (store one_admin_engine) = None" by (simp add: one_admin_engine_def new_engine_def empty_fs_def)
  obtain i w e' where c: "commit_edit plain_env ''noc'' ''web console'' ?edit None None (Inr []) [] 0 (one_admin_engine, ?t) =
      (Committed i [] w, e', push_roles (to_text \<lparr>items = []\<rparr>) ?t)" "parse (get_config False e') = Inr \<lparr>items = []\<rparr>"
    using commit_edit_succeeds [where edit = ?edit, OF p x one_admin_removed(5) f] by metis
  have "''bob'' \<notin> fst ` set (configured_roles \<lparr>items = []\<rparr>)" by (simp add: one_admin_removed(4))
  from removed_account_keeps_session [OF c this, where token = "''7f''" and s = bob_session and cookie = "Some ''hemlock_session=7f''" and later = 5
      and path = "''/api/reboot''"] one_admin_removed(6) c
  show ?thesis by (auto simp: bob_session_def from_secs_def)
qed

section \<open>Login and logout\<close>

lemma who_is_admin:
  assumes "who_is env reached user from now wall now' e = ((Admin, i, mins), e')"
  shows "reached \<and> fst (role_of env e user) = Admin"
proof -
  have r: "reached" using assms by (simp add: who_is_def split: if_splits)
  obtain x m where x: "role_of env e user = (x, m)" by (cases "role_of env e user")
  have "role_parse (role_str x) = Some x" by (rule role_text.decode_encode) simp
  with assms r x show ?thesis
    by (auto simp: who_is_def who_am_i_def Let_def case_prod_beta split: if_splits prod.splits)
qed

text \<open>
  C20. A login on the switch, without development credentials and with a configuration that can be read, opens a session
  only for a password that the right source accepts: the stored hash of the account when the configuration manages
  it, and then never the password of the operating system, which counts only for members of the hemlock group that
  the configuration does not name. The session is live and belongs to the user, and it is an administrator's only
  when mgmtd answered and says so.\<close>

theorem console_login_safe:
  assumes "web_login env crypt files None req True who_ok token now wall now' at (e, t) = (Some token', e', t')"
    and "parse (get_config False e) = Inr tree"
  shows "(case config_account_of tree (lr_user req) of
      Some a \<Rightarrow> (\<exists>hash. ca_hash a = Some hash \<and> passwd_verify crypt (lr_password req) hash)
    | None \<Rightarrow> operator_account files (lr_user req) \<and>
        (\<exists>hash. shadow_hash files (lr_user req) = Some hash \<and> passwd_verify crypt (lr_password req) hash))
    \<and> (\<exists>s. bt_get t' token' = Some s \<and> wi_user (ws_info s) = lr_user req \<and> at < ws_expires s
      \<and> (wi_role (ws_info s) = Admin \<longrightarrow> who_ok \<and> fst (role_of env e (lr_user req)) = Admin))"
proof
  have c: "web_check crypt files None (config_account_of tree (lr_user req)) (lr_user req) (lr_password req)"
    using assms by (simp add: web_login_def Let_def split: if_splits)
  then show "case config_account_of tree (lr_user req) of
      Some a \<Rightarrow> (\<exists>hash. ca_hash a = Some hash \<and> passwd_verify crypt (lr_password req) hash)
    | None \<Rightarrow> operator_account files (lr_user req) \<and>
        (\<exists>hash. shadow_hash files (lr_user req) = Some hash \<and> passwd_verify crypt (lr_password req) hash)"
    by (auto simp: web_check_def system_check_def split: option.splits if_splits)
  obtain r i mins where who: "who_is env who_ok (lr_user req) (lr_from req) now wall now' e = ((r, i, mins), e')"
      "token' = token" "t' = create_web token \<lparr>wi_user = lr_user req, wi_role = r, wi_handle = i\<rparr> mins at t"
    using assms c by (auto simp: web_login_def Let_def split: prod.splits)
  have "r = Admin \<Longrightarrow> who_ok \<and> fst (role_of env e (lr_user req)) = Admin" using who_is_admin who(1) by blast
  with who(2,3) show "\<exists>s. bt_get t' token' = Some s \<and> wi_user (ws_info s) = lr_user req \<and> at < ws_expires s
      \<and> (wi_role (ws_info s) = Admin \<longrightarrow> who_ok \<and> fst (role_of env e (lr_user req)) = Admin)"
    by (simp add: create_web_def Let_def bt_get_insert from_secs_def)
qed

text \<open>An account of the configuration whose role mgmtd takes from there.\<close>

definition with_password :: config_tree where
  "with_password = \<lparr>items = [Block ''system'' [] [Block ''login'' [] [Block ''user'' [''bob'']
     [Leaf ''role'' [''admin''], Leaf ''password-hash'' [''$6$salt$sum'']]]]]\<rparr>"

definition with_password_engine :: engine where
  "with_password_engine = new_engine (empty_fs\<lparr>disk := (\<lambda>_. None)(Running := Some (to_text with_password))\<rparr>)"

definition toy_crypt :: crypt where
  "toy_crypt = \<lparr>yescrypt_ok = (\<lambda>_ _. False), sha_crypt_ok = (\<lambda>p h. p = ''correct horse'' \<and> h = ''$6$salt$sum'')\<rparr>"

definition no_files :: account_files where
  "no_files = \<lparr>etc_shadow = None, etc_group = None, etc_passwd = None\<rparr>"

definition bob_login :: login_request where
  "bob_login = \<lparr>lr_user = ''bob'', lr_password = ''correct horse'', lr_from = ''10.0.0.9''\<rparr>"

lemma with_password_eval:
  "list_all printable (items with_password)"
  "web_check toy_crypt no_files None (config_account_of with_password ''bob'') ''bob'' ''correct horse''"
  by code_simp+

theorem console_login_safe_witness:
  "\<exists>e' t' s hash. web_login plain_env toy_crypt no_files None bob_login True False ''7f'' 0 0 0 3 (with_password_engine, []) = (Some ''7f'', e', t')
    \<and> bt_get t' ''7f'' = Some s \<and> wi_user (ws_info s) = ''bob'' \<and> wi_role (ws_info s) \<noteq> Admin
    \<and> map_option ca_hash (config_account_of with_password ''bob'') = Some (Some hash) \<and> passwd_verify toy_crypt ''correct horse'' hash"
proof -
  have "get_config False with_password_engine = to_text with_password"
    by (simp add: get_config_def with_password_engine_def new_engine_def running_def read_or_empty_def empty_fs_def)
  then have p: "parse (get_config False with_password_engine) = Inr with_password" using parse_to_text with_password_eval(1) by simp
  obtain e' t' where l: "web_login plain_env toy_crypt no_files None bob_login True False ''7f'' 0 0 0 3 (with_password_engine, []) = (Some ''7f'', e', t')"
    using with_password_eval(2) by (simp add: web_login_def p bob_login_def who_is_def)
  have u: "lr_user bob_login = ''bob''" "lr_password bob_login = ''correct horse''" by (simp_all add: bob_login_def)
  have "config_account_of with_password ''bob'' = Some \<lparr>ca_hash = Some ''$6$salt$sum'', ca_role = Admin\<rparr>" by code_simp
  with console_login_safe [OF l p] l show ?thesis unfolding u by auto
qed

end
