(* ===== verification/Spec2Isabelle.thy ===== *)
theory Spec2Isabelle
  imports Config_Text Common_Link Mgmt_Commit Orch_Lacp Orch_Stp Orch_Rib Orch_Snoop Orch_Snoopsec Orch_Lldp Web_Console
begin

text \<open>
  \<^bold>\<open>Hemlock: a verification development.\<close>

  Hemlock is a network operating system for whitebox switches, written in Rust as a set of daemons
  (\<^verbatim>\<open>src/src/\<close>). An operator edits a text configuration through the command line or the web console
  (\<open>hemlock-webd\<close>). The management daemon (\<open>hemlock-mgmtd\<close>) keeps the running and the candidate
  configuration and a ring of rollbacks, validates and commits, and rolls a commit back that is not confirmed in time.
  The orchestrator (\<open>hemlock-orch\<close>) runs the protocol engines: link aggregation, spanning tree, multicast snooping,
  DHCP snooping with ARP inspection, LLDP and the route manager. What they decide is pushed to the daemon that
  programs the switch chip (\<open>hemlock-syncd\<close>). The configuration language (\<open>hemlock-config\<close>) and the syntax of
  addresses, rates and link modes (\<open>hemlock-common\<close>) are shared by all.

  \<^bold>\<open>How the code is modelled.\<close> A struct is a \<^theory_text>\<open>record\<close>, an enum a \<^theory_text>\<open>datatype\<close>, a handler a function from the state
  and its input to the new state and what it sends. The clocks a handler reads are arguments, so that the two reads
  of one handler may differ; only a turn of the LACP, STP and multicast engines, which handles an input and then runs
  the pass, has one instant for the two. Results are sums, with the error on the left; a message is a constructor with the values it
  embeds. \<open>None\<close> stands for a panic in the parsers of frames. Counters and protocol fields have their width
  (\<open>u8\<close> to \<open>u64\<close> are words, which wrap); VLAN identifiers, speeds and timeouts read from text are naturals below the
  bound that the parser enforces. \<open>String\<close> is \<^typ>\<open>string\<close>, that is U+0000 to U+00FF, except in LLDP, where
  received bytes become text and strings are UTF-8 bytes. \<open>BTreeMap\<close> is an association list in key order with the
  \<open>bt_\<close> operations; a \<open>HashMap\<close> whose order nothing reads is modelled in the same way. An engine behind a channel is
  a step function on events; a run is any sequence of events.

  \<^bold>\<open>The theories.\<close>

  \<^item> \<open>Hemlock_Prelude\<close>: machine integers, numerals as text, ordered maps, time, and the contracts (locales) that
    components share: \<open>key_store\<close> and \<open>ordered_map\<close> (what a lookup returns after an insertion or removal), \<open>codec\<close>
    (decoding what was encoded), \<open>versioned_store\<close> (a running version, a candidate and a history), \<open>machine\<close> (an
    invariant that every step keeps holds in every run). Each is interpreted on the model's own definitions.
    \<open>Map_Sync\<close> holds the contract \<open>mirror\<close> of pushing a map by differences; \<open>Net_Frame\<close> reads of frames and the
    Internet checksum; \<open>Utf8_Text\<close> the decoding of bytes to text.
  \<^item> \<open>Config_Lexer\<close>, \<open>Config_Parser\<close>, \<open>Config_Tree\<close>, \<open>Config_Text\<close> (\<open>hemlock-config/src/lexer.rs\<close>,
    \<open>parser.rs\<close>, \<open>tree.rs\<close>): tokens, trees, queries and edits of trees, migration of deprecated spellings, redaction
    and rendering. Lemmas: a printable tree is read back from its text; edits of one leaf do not touch another;
    migration reaches the current form and changes nothing afterwards; a redacted secret does not influence the text.
  \<^item> \<open>Common_Ip\<close>, \<open>Common_Net\<close>, \<open>Common_Link\<close> (\<open>hemlock-common/src/net.rs\<close>, \<open>link.rs\<close>): addresses, prefixes, MAC
    addresses, rates, lists and ranges, link modes, with round trips and the exact set of accepted texts.
  \<^item> \<open>Mgmt_Store\<close> (\<open>hemlock-mgmtd/src/store.rs\<close>): the files of the configuration store, one file operation at a time,
    each of which may fail or be torn. A commit refines the abstract ring of the last 50 configurations
    (\<open>ring_size\<close>), and one interrupted anywhere loses none of them.
  \<^item> \<open>Mgmt_Sessions\<close>, \<open>Mgmt_Commit\<close> (\<open>sessions.rs\<close>, \<open>service.rs\<close>, \<open>hemlock-common/src/role.rs\<close>): the table of
    sessions and the commit engine with the tasks that wait for a confirmation, as a step relation: requests run one
    at a time, and a task may wake at any moment after its deadline.
  \<^item> \<open>Mgmt_Ports\<close> (\<open>intents.rs\<close>, the part about ports and VLANs): what is read from the tree, and the changes a
    commit pushes. Applied to a switch that is programmed as the running configuration says, they leave it programmed
    as the candidate says.
  \<^item> \<open>Orch_Lacp\<close>, \<open>Orch_Stp\<close>, \<open>Orch_Rib\<close>, \<open>Orch_Snoop\<close>, \<open>Orch_Snoopsec\<close>, \<open>Orch_Lldp\<close> (\<open>hemlock-orch/src/lacp.rs\<close>,
    \<open>stp.rs\<close>, \<open>rib.rs\<close>, \<open>snoop.rs\<close>, \<open>snoopsec.rs\<close>, \<open>lldp.rs\<close>, parts of \<open>main.rs\<close>): the engines with their frame
    codecs. Each has an invariant of all runs, the safety of what it forwards or believes, what happens in bounded
    time, and the round trip of its frames.
  \<^item> \<open>Web_Edit\<close>, \<open>Web_Console\<close> (\<open>hemlock-webd/src/edit.rs\<close>, \<open>auth.rs\<close>, parts of \<open>api.rs\<close>): the edits of interfaces and
    VLANs as changes of the tree, refined by what mgmtd reads from it; sessions, login, the role gate, and the way of
    an edit through mgmtd, alone and interleaved with another.
  \<^item> This theory holds what spans components: a tree through printing, candidate, commit and parsing, and two
    link-aggregation engines on one link. The way of a console edit, which also spans them, is in \<open>Web_Console\<close>.

  \<^bold>\<open>Properties that state a defect.\<close> Some properties, of kind \<open>error\<close>, state what the code does where it differs from
  what it means: a rollback undone or dropped by the confirm window, an unquoted value lost as a comment, a second block
  that is not redacted, a better route displaced by a later one, a looped port that forwards, redirects that go stale,
  a link event that is lost, an edit that is lost, and a session that outlives its account. They are stated for all
  inputs of the kind and have a concrete instance.

  \<^bold>\<open>Bounds.\<close> No function of the model has fuel: loops over texts and frames recurse on what is left of the
  input, the loops that fold carries on a sum that gets smaller, and each is proved to end. The restart property of
  the binding table counts fewer than \<open>2 ^ 32\<close> events, because the number of bindings a request clears is kept in
  32 bits and the file is written when it is not zero; the sum of 16-bit words in a checksum does not overflow 32 bits up to 131072 bytes, far above a frame; a
  text in LLDP has at most 511 bytes, the length that fits in a TLV. Sessions are numbered in 64 bits.

  \<^bold>\<open>Parameters.\<close> Code outside the repository is an argument: the JSON reader and writer of the stored metadata
  and bindings (assumed to read back what was written), the password crates, the random token of a console login
  (assumed not to be one that a request already carries), the groups and account files of the operating system, the
  replies of the switch chip. The verdict of validation and the result of pushing a commit's changes are carried by the
  events, so the theorems of the commit engine hold for every verdict.

  \<^bold>\<open>Pushes.\<close> What an engine decides reaches the switch chip through tasks of \<open>main.rs\<close> that call \<open>hemlock-syncd\<close>. A call
  may fail. The route pusher keeps a mirror and tries again: an operation that succeeds takes effect in the chip and
  one that fails changes nothing there, and the properties hold for every choice of the operations that fail. The multicast
  pusher logs a failure and goes on: each update has an outcome, and the table is right for the groups whose last
  update was pushed. For redirects, gates, port states and LLDP frames the properties speak about what is handed to
  these tasks, in the order it is handed over.

  \<^bold>\<open>Not modelled.\<close> The daemon of the switch chip (\<open>hemlock-syncd\<close>, \<open>hemlock-sai\<close>) consists of calls into a vendor
  library whose behaviour is not in the repository. The appliers of mgmtd, the views of dnsmasq, FRR and chrony, the
  802.1X supervisor, the platform monitor, the platform manifests and the installer render files for, run or read other
  programs and hardware. The sFlow and SNMP exporters answer from counters of the hardware. The command line and
  the read-only pages of the console present replies of the daemons. The intents of the features other than ports and
  VLANs, and the console edits of those features, repeat the shape of the modelled ones over many more fields; they
  would be the next to add. Network, files other than the store, threads and sockets appear as the order and outcome of
  events.
\<close>

section \<open>Editing and committing a configuration\<close>

text \<open>
  C2. The way of a configuration through the system. A tree that can be written is printed, set as the
  candidate, committed, and read back: on a disk that does not fail, with validation and the push to the other
  daemons succeeding, both requests succeed, the running configuration parses to the very tree, and
  the configuration displaced by it is the first rollback.
\<close>

theorem committed_tree_reads_back:
  assumes "list_all printable (items t)" and "fail_in (store e) = None" and "ring_wf (store e)"
  shows "\<exists>e1 resp e2. set_candidate_rpc (to_text t) None e = (Inr (True, []), e1)
    \<and> commit env req None (Inr ch) at now e1 = (Inr resp, e2)
    \<and> parse (get_config False e2) = Inr t
    \<and> rollback (store e2) 1 = Some (get_config False e)"
proof -
  obtain s1 where s1: "set_candidate_rpc (to_text t) None e = (Inr (True, []), e\<lparr>store := s1\<rparr>)" "fail_in s1 = None"
      "running s1 = running (store e)" "candidate s1 = to_text t" "ring_wf s1"
    using set_candidate_rpc_succeeds [OF assms(2), of "to_text t"] assms(3) by metis
  obtain resp e2 where e2: "commit env req None (Inr ch) at now (e\<lparr>store := s1\<rparr>) = (Inr resp, e2)"
      "store_commit (json_of env) (to_text t) (commit_meta at req) s1 = (Some (), store e2)"
    by (rule commit_store_succeeds [of "e\<lparr>store := s1\<rparr>" env req ch at now]) (simp_all add: s1(2,4))
  have "running (store e2) = to_text t" by (rule commit_texts(1) [OF e2(2)])
  moreover have "rollback (store e2) 1 = Some (running (store e))"
    using commit_rollbacks [OF s1(5) e2(2), of 1] s1(3) by (simp add: ring_size_def)
  ultimately show ?thesis
    using s1(1) e2(1) parse_to_text [OF assms(1)] unfolding get_config_def by (intro exI conjI) simp_all
qed

theorem committed_tree_reads_back_witness:
  "\<exists>e1 resp e2. set_candidate_rpc (to_text sample_tree) None (new_engine empty_fs) = (Inr (True, []), e1)
    \<and> commit plain_env plain_request None (Inr []) [] 0 e1 = (Inr resp, e2)
    \<and> parse (get_config False e2) = Inr sample_tree
    \<and> rollback (store e2) 1 = Some (get_config False (new_engine empty_fs))"
proof (rule committed_tree_reads_back)
  show "list_all printable (items sample_tree)" by code_simp
  show "fail_in (store (new_engine empty_fs)) = None" by (simp add: new_engine_def empty_fs_def)
  show "ring_wf (store (new_engine empty_fs))" using empty_fs_wf by (simp add: new_engine_def)
qed

section \<open>Two switches negotiating a bundle\<close>

text \<open>
  C8. Two engines bring up a link between them. Whatever reachable states they are in, when one switch
  sends a frame on a port and the other receives it on an up port of a LAG that runs LACP and may transmit, the
  other answers in the same turn; and the answer, delivered to the sender's port (up, in a LAG that
  runs LACP and asks for at most one link), leaves that port bundled and the LAG out of fallback. Here and there
  the instants are unrelated: the two clocks need not agree.
\<close>

theorem two_switches_bundle:
  assumes "run lacp_moves (spawn_lacp mac_a) evs_a a0" and "length mac_a = 6"
    and "(port_a, hello) \<in> set (snd (snd (lacp_turn a0 ev)))" and "a = fst (lacp_turn a0 ev)"
    and "bt_get (port_to_lag a) port_a = Some g_a" and "bt_get (lags a) g_a = Some l_a"
    and "bt_get (members l_a) port_a = Some m_a" and "link_up m_a" and "runs_lacp (l_config l_a)"
    and "min_links (l_config l_a) \<le> 1"
    and "run lacp_moves (spawn_lacp mac_b) evs_b b" and "length mac_b = 6"
    and "bt_get (port_to_lag b) port_b = Some g_b" and "bt_get (lags b) g_b = Some l_b"
    and "bt_get (members l_b) port_b = Some m_b" and "link_up m_b" and "runs_lacp (l_config l_b)"
    and "may_transmit m_b t_b"
  shows "\<exists>answer l m. (port_b, answer) \<in> set (snd (snd (lacp_turn b (Pdu port_b hello, t_b))))
    \<and> bt_get (lags (fst (lacp_turn a (Pdu port_a answer, t_a)))) g_a = Some l
    \<and> bt_get (members l) port_a = Some m \<and> bundled m \<and> \<not> fallback_active l"
proof -
  obtain q where q: "decode_pdu hello = Some q"
    using sent_decodes [OF _ assms(3)] system_mac_run [OF assms(1)] assms(2) by auto
  have "length (system_mac b) = 6" using system_mac_run [OF assms(11)] assms(12) by simp
  then obtain answer p where answer: "(port_b, answer) \<in> set (snd (snd (lacp_turn b (Pdu port_b hello, t_b))))"
      "decode_pdu answer = Some p" "p_state p AND SYNC \<noteq> 0"
    using assms(13-18) q by (rule frame_answered_in_sync)
  have "lacp_wf a" using lacp_engine.run_inv [OF assms(1)] assms(4) by (simp add: lacp_turn_wf)
  from sync_frame_bundles [OF this assms(5-10) answer(2,3), of t_a] answer(1) show ?thesis by blast
qed

text \<open>The demonstration switch of the link aggregation theory, with any address, and its first tick.\<close>

definition demo_peer :: mac where
  "demo_peer = [2, 0, 0, 0, 0, 2]"

lemma demo_switch_eval:
  "lacp_run (spawn_lacp mac) (demo_inputs fb) =
     \<lparr>system_priority = 1, system_mac = mac, lags = [(7, demo_state fb)],
      port_to_lag = [(''lan'', 7), (''wan'', 7)], link_states = [(''lan'', True), (''wan'', True)]\<rparr>"
  by (simp add: demo_state_def demo_member_def lacp_run_def demo_inputs_def demo_lag_def lacp_turn_def set_configs_def
      spawn_lacp_def configure_lag_def joining_member_def new_member_def bt_retain_def bt_collect_def text_eval
      link_event_def update_member_def lacp_step_def port_number_of_def parse_uint_def)

definition demo_ticked :: lag where
  "demo_ticked = (demo_state None)\<lparr>
     members := map (\<lambda>(n, m). (n, m\<lparr>last_tx := Some 0, pdus_tx := 1\<rparr>)) (members (demo_state None)),
     last_gates := Some [(''lan'', False), (''wan'', False)]\<rparr>"

lemma demo_evaluate:
  "evaluate 0 (demo_state None) = demo_state None"
  by (simp add: evaluate_def demo_state_def demo_member_def new_member_def demo_lag_def partner_current_def armed_def
      wanted_gates_def runs_lacp_def apply_min_links_def bundle_size_def bt_map_def apply_gate_def Let_def)

lemma demo_tick:
  "fst (step_lag p mac 0 (demo_state None)) = demo_ticked"
  "\<exists>f. (''lan'', f) \<in> set (snd (snd (step_lag p mac 0 (demo_state None))))"
  unfolding step_lag_def demo_evaluate
  by (simp_all add: push_gates_def gate_list_def demo_ticked_def transmit_def
      demo_state_def demo_member_def new_member_def demo_lag_def runs_lacp_def partner_current_def Let_def)

theorem two_switches_bundle_witness:
  "\<exists>hello answer l m.
      (''lan'', hello) \<in> set (snd (snd (lacp_turn (lacp_run (spawn_lacp demo_mac) (demo_inputs None)) (Tick, 0))))
    \<and> (''wan'', answer) \<in> set (snd (snd (lacp_turn (lacp_run (spawn_lacp demo_peer) (demo_inputs None)) (Pdu ''wan'' hello, 9))))
    \<and> bt_get (lags (fst (lacp_turn (fst (lacp_turn (lacp_run (spawn_lacp demo_mac) (demo_inputs None)) (Tick, 0)))
                                   (Pdu ''lan'' answer, 5)))) 7 = Some l
    \<and> bt_get (members l) ''lan'' = Some m \<and> bundled m"
proof -
  let ?s = "lacp_run (spawn_lacp demo_mac) (demo_inputs None)" and ?b = "lacp_run (spawn_lacp demo_peer) (demo_inputs None)"
  let ?a = "fst (lacp_turn ?s (Tick, 0))"
  obtain hello where hello: "(''lan'', hello) \<in> set (snd (snd (lacp_turn ?s (Tick, 0))))"
    using demo_tick(2) [of 1 demo_mac] by (auto simp: demo_switch_eval lacp_turn_def lacp_step_def)
  have a: "bt_get (port_to_lag ?a) ''lan'' = Some 7" "bt_get (lags ?a) 7 = Some demo_ticked"
      "bt_get (members demo_ticked) ''lan'' = Some ((demo_member 9)\<lparr>last_tx := Some 0, pdus_tx := 1\<rparr>)"
      "link_up ((demo_member 9)\<lparr>last_tx := Some 0, pdus_tx := 1\<rparr>)"
      "runs_lacp (l_config demo_ticked)" "min_links (l_config demo_ticked) \<le> 1"
    by (simp_all add: demo_switch_eval lacp_turn_def lacp_step_def demo_tick(1))
      (simp_all add: demo_ticked_def demo_state_def demo_member_def demo_lag_def runs_lacp_def)
  have b: "bt_get (port_to_lag ?b) ''wan'' = Some 7" "bt_get (lags ?b) 7 = Some (demo_state None)"
      "bt_get (members (demo_state None)) ''wan'' = Some (demo_member 5)" "link_up (demo_member 5)"
      "runs_lacp (l_config (demo_state None))" "may_transmit (demo_member 5) 9"
    by (simp_all add: demo_switch_eval)
      (simp_all add: demo_state_def demo_member_def demo_lag_def runs_lacp_def may_transmit_def new_member_def)
  have "length demo_mac = 6" "length demo_peer = 6" by (simp_all add: demo_mac_def demo_peer_def)
  from two_switches_bundle [OF run_lacp_run this(1) hello refl a run_lacp_run this(2) b, of 5] hello
  show ?thesis by blast
qed

end
